(* ===== verification/Prelude.thy ===== *)
theory Prelude
  imports Main "HOL-Library.Word"
begin

unbundle bit_operations_syntax

text \<open>
  The shared vocabulary of the development: bytes and characters, safe reads of C arrays,
  and the lemmas on bytes, masks and lists that the component theories use.

  A \<open>pcre_uchar\<close> of the 8-bit library is a \<open>byte\<close> (an \<open>8 word\<close>); a \<open>pcre_uint32\<close>
  character value is a natural number, because none of the modelled expressions on
  characters can overflow 32 bits (where the C code converts a value to \<open>int\<close> or stores it in
  a byte the conversion is written out). Pointers into one array are offsets of type \<open>nat\<close>;
  values of the C type \<open>int\<close> are of type \<open>int\<close>.
\<close>

type_synonym byte = "8 word"
type_synonym uchar16 = "16 word"
type_synonym uchar32 = "32 word"
type_synonym cchar = nat

named_theorems byte_mask \<comment> \<open>mask tests on single bytes, rewritten to comparisons\<close>

subsection \<open>Array reads\<close>

text \<open>
  A read \<open>*p\<close> at offset \<open>p\<close>. The arrays of the program (a subject string, a compiled
  pattern) are followed by a terminating zero or \<open>OP_END\<close>; a read beyond the array is
  outside what the C code may do and yields 0 here.
\<close>

definition rd :: "byte list \<Rightarrow> nat \<Rightarrow> byte" where
  "rd xs i = (if i < length xs then xs ! i else 0)"

lemma rd_in: "i < length xs \<Longrightarrow> rd xs i = xs ! i"
  by (simp add: rd_def)

lemma rd_append1: "i < length xs \<Longrightarrow> rd (xs @ ys) i = rd xs i"
  by (simp add: rd_def nth_append)

lemma rd_append2: "length xs \<le> i \<Longrightarrow> rd (xs @ ys) i = rd ys (i - length xs)"
  by (auto simp: rd_def nth_append)

lemma rd_Cons_0 [simp]: "rd (x # xs) 0 = x"
  by (simp add: rd_def)

lemma rd_Cons_Suc [simp]: "rd (x # xs) (Suc i) = rd xs i"
  by (simp add: rd_def)

lemma rd_Cons_numeral [simp]: "rd (x # xs) (numeral n) = rd xs (pred_numeral n)"
  by (simp add: numeral_eq_Suc)

lemma rd_drop: "rd (drop n xs) i = rd xs (n + i)"
  by (auto simp: rd_def)

lemma drop_eq_Cons_rd: "p < length xs \<Longrightarrow> drop p xs = rd xs p # drop (Suc p) xs"
  by (simp add: rd_in Cons_nth_drop_Suc)

text \<open>The values of the C type \<open>int\<close>.\<close>

definition in_int :: "int \<Rightarrow> bool" where
  "in_int i \<longleftrightarrow> - (2 ^ 31) \<le> i \<and> i < 2 ^ 31"

subsection \<open>Bytes\<close>

text \<open>A property of all bytes is checked on the 256 values by evaluation.\<close>

lemma byte_cases_all:
  assumes "list_all (\<lambda>n. P (word_of_nat n)) [0..<256]"
  shows "P (b :: byte)"
proof -
  have "unat b < 2 ^ LENGTH(8)" by (rule unsigned_less)
  then have "unat b \<in> set [0..<256]" by simp
  with assms have "P (word_of_nat (unat b))" by (simp only: list_all_iff)
  then show ?thesis by simp
qed

lemma unat_byte_less [simp]: "unat (b :: byte) < 256"
  using unsigned_less [of b, where 'a = nat] by simp

lemma byte_eq_iff_unat: "(a :: byte) = b \<longleftrightarrow> unat a = unat b"
  by (rule word_eq_iff_unsigned)

text \<open>Storing a number in a byte keeps its low eight bits.\<close>

definition to_byte :: "nat \<Rightarrow> byte" where
  "to_byte n = word_of_nat n"

lemma unat_to_byte [simp]: "unat (to_byte n) = n mod 256"
  by (simp add: to_byte_def unsigned_of_nat take_bit_eq_mod)

lemma to_byte_unat [simp]: "to_byte (unat b) = b"
  by (simp add: to_byte_def)

lemma byte_and_c0 [byte_mask]: "(c :: byte) AND 0xc0 = 0x80 \<longleftrightarrow> 0x80 \<le> c \<and> c < 0xc0"
  by (rule byte_cases_all) code_simp

lemma byte_and_3f_unat: "0xc0 \<le> (c :: byte) \<Longrightarrow> unat (c AND 0x3f) = unat c - 0xc0"
proof -
  have "0xc0 \<le> c \<longrightarrow> unat (c AND 0x3f) = unat c - 0xc0"
    by (rule byte_cases_all) code_simp
  then show "0xc0 \<le> c \<Longrightarrow> unat (c AND 0x3f) = unat c - 0xc0" by simp
qed

subsection \<open>Natural-number masks and shifts\<close>

lemma nat_and_mask: "(x :: nat) AND (2 ^ n - 1) = x mod 2 ^ n"
  by (simp only: take_bit_eq_mod flip: take_bit_eq_mask mask_eq_exp_minus_1)

lemma nat_and_3f [simp]: "(x :: nat) AND 63 = x mod 64"
  using nat_and_mask [of x 6] by simp

lemma nat_and_7 [simp]: "(x :: nat) AND 7 = x mod 8"
  using nat_and_mask [of x 3] by simp

lemma nat_and_masks:
  "(x :: nat) AND 1 = x mod 2" "x AND 3 = x mod 4" "x AND 15 = x mod 16" "x AND 31 = x mod 32"
  using nat_and_mask [of x 1] nat_and_mask [of x 2] nat_and_mask [of x 4] nat_and_mask [of x 5]
  by simp_all

lemma nat_and_exp: "(x :: nat) AND 2 ^ n = 0 \<longleftrightarrow> even (x div 2 ^ n)"
  by (simp only: and_exp_eq_0_iff_not_bit bit_iff_odd not_not)

lemma nat_and_exps:
  "(x :: nat) AND 4 = 0 \<longleftrightarrow> even (x div 4)" "x AND 8 = 0 \<longleftrightarrow> even (x div 8)"
  "x AND 16 = 0 \<longleftrightarrow> even (x div 16)" "x AND 32 = 0 \<longleftrightarrow> even (x div 32)"
  using nat_and_exp [of x 2] nat_and_exp [of x 3] nat_and_exp [of x 4] nat_and_exp [of x 5]
  by simp_all

lemma nat_mod_from_div: "(c :: nat) div n = q \<Longrightarrow> c mod n = c - n * q"
  by (simp add: minus_mult_div_eq_mod [symmetric])

lemma nat_div_range: "n * q \<le> c \<Longrightarrow> c < n * Suc q \<Longrightarrow> (c :: nat) div n = q"
  by (rule div_nat_eqI) (simp_all add: mult.commute)

lemma nat_shift_or:
  assumes "b < 2 ^ n"
  shows "push_bit n (a :: nat) OR b = a * 2 ^ n + b"
proof -
  have "\<not> bit (push_bit n a) i \<or> \<not> bit b i" for i
  proof (cases "i < n")
    case True
    then show ?thesis by (simp add: bit_push_bit_iff)
  next
    case False
    then have "bit b i = False"
      using assms by (metis bit_take_bit_iff take_bit_nat_eq_self_iff)
    then show ?thesis by simp
  qed
  then have "push_bit n a + b = push_bit n a OR b"
    by (simp add: disjunctive_add)
  then show ?thesis by (simp add: push_bit_eq_mult)
qed

end
