(* ===== verification/Utf8.thy ===== *)
theory Utf8
  imports Prelude
begin

text \<open>
  UTF-8 in the 8-bit library: the tables of \<open>pcre_tables.c\<close>, the validity check
  \<open>PRIV(valid_utf)\<close> of \<open>pcre_valid_utf8.c\<close>, the encoder \<open>PRIV(ord2utf)\<close> of
  \<open>pcre_ord2utf8.c\<close> and the \<open>GETCHAR\<close> family of macros of \<open>pcre_internal.h\<close>, with which
  every other module reads characters. The lemmas show that the check accepts exactly the
  sequences of encoded Unicode scalar values, that the macros decode what the encoder wrote,
  and that on a checked string no macro reads past the end.
\<close>

subsection \<open>Tables\<close>

definition utf8_table1 :: "int list" where
  "utf8_table1 = [0x7f, 0x7ff, 0xffff, 0x1fffff, 0x3ffffff, 0x7fffffff]"

definition utf8_table2 :: "nat list" where
  "utf8_table2 = [0, 0xc0, 0xe0, 0xf0, 0xf8, 0xfc]"

definition utf8_table4 :: "nat list" where
  "utf8_table4 =
    [1,1,1,1,1,1,1,1,1,1,1,1,1,1,1,1,
     1,1,1,1,1,1,1,1,1,1,1,1,1,1,1,1,
     2,2,2,2,2,2,2,2,2,2,2,2,2,2,2,2,
     3,3,3,3,3,3,3,3,4,4,4,4,5,5,5,5]"

subsection \<open>Validity\<close>

text \<open>
  One iteration of the checking loop at offset \<open>p\<close>, where \<open>len\<close> is the value of \<open>length\<close>
  after the decrement of the loop condition: either the error code and the offset stored in
  \<open>*erroroffset\<close>, or the offset of the last byte of the character and the new \<open>length\<close>.
\<close>

definition cont_byte :: "byte \<Rightarrow> bool" where
  "cont_byte b \<longleftrightarrow> b AND 0xc0 = 0x80"

definition valid_utf_char :: "byte list \<Rightarrow> nat \<Rightarrow> nat \<Rightarrow> (nat \<times> nat) + (nat \<times> nat)" where
  "valid_utf_char s p len =
    (let c = rd s p in
     if c < 128 then Inr (p, len)
     else if c < 0xc0 then Inl (20, p)
     else if c \<ge> 0xfe then Inl (21, p)
     else
       let ab = utf8_table4 ! unat (c AND 0x3f) in
       if len < ab then Inl (ab - len, p)
       else
         let len' = len - ab; d = rd s (p + 1) in
         if \<not> cont_byte d then Inl (6, p)
         else if ab = 1 then
           (if c AND 0x3e = 0 then Inl (15, p) else Inr (p + 1, len'))
         else if \<not> cont_byte (rd s (p + 2)) then Inl (7, p)
         else if ab = 2 then
           (if c = 0xe0 \<and> d AND 0x20 = 0 then Inl (16, p)
            else if c = 0xed \<and> d \<ge> 0xa0 then Inl (14, p)
            else Inr (p + 2, len'))
         else if \<not> cont_byte (rd s (p + 3)) then Inl (8, p)
         else if ab = 3 then
           (if c = 0xf0 \<and> d AND 0x30 = 0 then Inl (17, p)
            else if c > 0xf4 \<or> (c = 0xf4 \<and> d > 0x8f) then Inl (13, p)
            else Inr (p + 3, len'))
         else if \<not> cont_byte (rd s (p + 4)) then Inl (9, p)
         else if ab = 4 then
           (if c = 0xf8 \<and> d AND 0x38 = 0 then Inl (18, p) else Inl (11, p))
         else if \<not> cont_byte (rd s (p + 5)) then Inl (10, p)
         else if c = 0xfc \<and> d AND 0x3c = 0 then Inl (19, p)
         else Inl (12, p))"

text \<open>The remaining length never grows, which is why the loop ends.\<close>

lemma valid_utf_char_len: "valid_utf_char s p len = Inr (q, len') \<Longrightarrow> len' \<le> len"
  by (auto simp: valid_utf_char_def Let_def split: if_splits)

function valid_utf_loop :: "byte list \<Rightarrow> nat \<Rightarrow> nat \<Rightarrow> nat \<times> nat option" where
  "valid_utf_loop s p len =
    (if len = 0 then (0, None)
     else case valid_utf_char s p (len - 1) of
       Inl (e, off) \<Rightarrow> (e, Some off)
     | Inr (q, len') \<Rightarrow> valid_utf_loop s (q + 1) len')"
  by pat_completeness auto
termination
  by (relation "measure (\<lambda>(s, p, len). len)") (auto dest: valid_utf_char_len)

declare valid_utf_loop.simps [simp del]

text \<open>The result is the return value and what was stored in \<open>*erroroffset\<close>, if anything was.\<close>

definition valid_utf :: "byte list \<Rightarrow> int \<Rightarrow> nat \<times> nat option" where
  "valid_utf s len =
    valid_utf_loop s 0 (if len < 0 then length (takeWhile (\<lambda>b. b \<noteq> 0) s) else nat len)"

subsection \<open>Encoding\<close>

text \<open>\<open>(int)cvalue\<close> for a \<open>pcre_uint32\<close> value.\<close>

definition int_of_uint32 :: "cchar \<Rightarrow> int" where
  "int_of_uint32 c = (if c < 2 ^ 31 then int c else int c - 2 ^ 32)"

fun ord2utf_tail :: "nat \<Rightarrow> cchar \<Rightarrow> byte list \<Rightarrow> cchar \<times> byte list" where
  "ord2utf_tail 0 cvalue acc = (cvalue, acc)"
| "ord2utf_tail (Suc j) cvalue acc =
     ord2utf_tail j (drop_bit 6 cvalue) (to_byte (0x80 OR (cvalue AND 0x3f)) # acc)"

definition ord2utf :: "cchar \<Rightarrow> byte list" where
  "ord2utf cvalue =
    (let i = length (takeWhile (\<lambda>t. \<not> int_of_uint32 cvalue \<le> t) utf8_table1);
         (cv, rest) = ord2utf_tail i cvalue []
     in to_byte (utf8_table2 ! i OR cv) # rest)"

subsection \<open>Decoding\<close>

definition getutf8 :: "cchar \<Rightarrow> byte list \<Rightarrow> nat \<Rightarrow> cchar" where
  "getutf8 c s e =
    (let b = (\<lambda>k. unat (rd s (e + k)) AND 0x3f) in
     if c AND 0x20 = 0 then push_bit 6 (c AND 0x1f) OR b 1
     else if c AND 0x10 = 0 then push_bit 12 (c AND 0x0f) OR push_bit 6 (b 1) OR b 2
     else if c AND 0x08 = 0 then
       push_bit 18 (c AND 0x07) OR push_bit 12 (b 1) OR push_bit 6 (b 2) OR b 3
     else if c AND 0x04 = 0 then
       push_bit 24 (c AND 0x03) OR push_bit 18 (b 1) OR push_bit 12 (b 2) OR push_bit 6 (b 3) OR b 4
     else
       push_bit 30 (c AND 0x01) OR push_bit 24 (b 1) OR push_bit 18 (b 2) OR push_bit 12 (b 3)
         OR push_bit 6 (b 4) OR b 5)"

definition getutf8_extra :: "cchar \<Rightarrow> nat" where
  "getutf8_extra c =
    (if c AND 0x20 = 0 then 1 else if c AND 0x10 = 0 then 2 else if c AND 0x08 = 0 then 3
     else if c AND 0x04 = 0 then 4 else 5)"

definition getcharlentest :: "bool \<Rightarrow> byte list \<Rightarrow> nat \<Rightarrow> cchar \<times> nat" where
  "getcharlentest utf s e =
    (let c = unat (rd s e) in
     if utf \<and> c \<ge> 0xc0 then (getutf8 c s e, 1 + getutf8_extra c) else (c, 1))"

definition getchar :: "byte list \<Rightarrow> nat \<Rightarrow> cchar" where
  "getchar s e = fst (getcharlentest True s e)"

definition getcharinctest :: "bool \<Rightarrow> byte list \<Rightarrow> nat \<Rightarrow> cchar \<times> nat" where
  "getcharinctest utf s e = (let (c, len) = getcharlentest utf s e in (c, e + len))"

definition getcharinc :: "byte list \<Rightarrow> nat \<Rightarrow> cchar \<times> nat" where
  "getcharinc s e = getcharinctest True s e"

text \<open>
  Moving over the bytes of a character. \<open>BACKCHAR\<close> is used on checked strings only, where it
  cannot pass the start of the string.
\<close>

fun backchar :: "byte list \<Rightarrow> nat \<Rightarrow> nat" where
  "backchar s 0 = 0"
| "backchar s (Suc e) = (if cont_byte (rd s (Suc e)) then backchar s e else Suc e)"

function acrosschar :: "byte list \<Rightarrow> nat \<Rightarrow> nat \<Rightarrow> nat" where
  "acrosschar s endp e =
    (if e < endp \<and> cont_byte (rd s e) then acrosschar s endp (e + 1) else e)"
  by pat_completeness auto
termination
  by (relation "measure (\<lambda>(s, endp, e). endp - e)") auto

declare acrosschar.simps [simp del]

subsection \<open>Mask tests on single bytes\<close>

lemma cont_byte_unat: "cont_byte b \<longleftrightarrow> 0x80 \<le> unat b \<and> unat b < 0xc0"
  by (simp add: cont_byte_def byte_mask word_le_nat_alt word_less_nat_alt)

lemma utf8_table4_eq:
  "utf8_table4 = replicate 32 1 @ replicate 16 2 @ replicate 8 3 @ replicate 4 4 @ replicate 4 5"
  by code_simp

lemma table4_lead:
  assumes "0xc0 \<le> c" "c < (0xfe :: byte)"
  shows "utf8_table4 ! unat (c AND 0x3f) =
    (if c < 0xe0 then 1 else if c < 0xf0 then 2 else if c < 0xf8 then 3 else if c < 0xfc then 4 else 5)"
  using assms
  by (auto simp: utf8_table4_eq nth_append byte_and_3f_unat word_le_nat_alt word_less_nat_alt)

lemma overlong_masks:
  "(0xc0 \<le> c \<and> c < 0xe0 \<longrightarrow> ((c :: byte) AND 0x3e = 0 \<longleftrightarrow> c < 0xc2)) \<and>
   (0x80 \<le> c \<and> c < 0xc0 \<longrightarrow> (c AND 0x20 = 0 \<longleftrightarrow> c < 0xa0)) \<and>
   (0x80 \<le> c \<and> c < 0xc0 \<longrightarrow> (c AND 0x30 = 0 \<longleftrightarrow> c < 0x90))"
  by (rule byte_cases_all) code_simp

lemma lead_bits:
  "0xc0 \<le> c \<Longrightarrow> c < 0xe0 \<Longrightarrow> c AND 0x20 = 0 \<and> c AND 0x1f = c - 0xc0"
  "0xe0 \<le> c \<Longrightarrow> c < 0xf0 \<Longrightarrow> c AND 0x20 \<noteq> 0 \<and> c AND 0x10 = 0 \<and> c AND 0x0f = c - 0xe0"
  "0xf0 \<le> c \<Longrightarrow> c < 0xf8 \<Longrightarrow> c AND 0x20 \<noteq> 0 \<and> c AND 0x10 \<noteq> 0 \<and> c AND 0x08 = 0 \<and>
     c AND 0x07 = c - 0xf0"
  "0xf8 \<le> c \<Longrightarrow> c < 0xfc \<Longrightarrow> c AND 0x20 \<noteq> 0 \<and> c AND 0x10 \<noteq> 0 \<and> c AND 0x08 \<noteq> 0 \<and>
     c AND 0x04 = 0 \<and> c AND 0x03 = c - 0xf8"
  "0xfc \<le> c \<Longrightarrow> c < 0xfe \<Longrightarrow> c AND 0x20 \<noteq> 0 \<and> c AND 0x10 \<noteq> 0 \<and> c AND 0x08 \<noteq> 0 \<and>
     c AND 0x04 \<noteq> 0 \<and> c AND 0x01 = c - (0xfc :: nat)"
  unfolding nat_and_exps nat_and_masks nat_and_7
  using nat_div_range [of 32 6 c] nat_div_range [of 32 7 c] nat_div_range [of 16 14 c]
    nat_div_range [of 16 15 c] nat_div_range [of 8 30 c] nat_div_range [of 8 31 c]
    nat_div_range [of 4 62 c] nat_div_range [of 4 63 c] nat_div_range [of 2 126 c]
  by (auto simp: nat_mod_from_div)

subsection \<open>What the encoder writes\<close>

text \<open>The lead and continuation bytes of each length, as numbers.\<close>

definition utf8_bytes :: "cchar \<Rightarrow> nat list" where
  "utf8_bytes c =
    (if c \<le> 0x7f then [c]
     else if c \<le> 0x7ff then [0xc0 + c div 64, 0x80 + c mod 64]
     else if c \<le> 0xffff then [0xe0 + c div 4096, 0x80 + c div 64 mod 64, 0x80 + c mod 64]
     else if c \<le> 0x1fffff then
       [0xf0 + c div 262144, 0x80 + c div 4096 mod 64, 0x80 + c div 64 mod 64, 0x80 + c mod 64]
     else if c \<le> 0x3ffffff then
       [0xf8 + c div 16777216, 0x80 + c div 262144 mod 64, 0x80 + c div 4096 mod 64,
        0x80 + c div 64 mod 64, 0x80 + c mod 64]
     else
       [0xfc + c div 1073741824, 0x80 + c div 16777216 mod 64, 0x80 + c div 262144 mod 64,
        0x80 + c div 4096 mod 64, 0x80 + c div 64 mod 64, 0x80 + c mod 64])"

lemma or_80: "(0x80 :: nat) OR (c mod 64) = 0x80 + c mod 64"
  using nat_shift_or [of "c mod 64" 6 2] by (simp add: push_bit_eq_mult)

lemma or_lead:
  "x < 32 \<Longrightarrow> (0xc0 :: nat) OR x = 0xc0 + x"
  "x < 16 \<Longrightarrow> (0xe0 :: nat) OR x = 0xe0 + x"
  "x < 8 \<Longrightarrow> (0xf0 :: nat) OR x = 0xf0 + x"
  "x < 4 \<Longrightarrow> (0xf8 :: nat) OR x = 0xf8 + x"
  "x < 2 \<Longrightarrow> (0xfc :: nat) OR x = 0xfc + x"
  using nat_shift_or [of x 5 6] nat_shift_or [of x 4 14] nat_shift_or [of x 3 30]
    nat_shift_or [of x 2 62] nat_shift_or [of x 1 126]
  by (simp_all add: push_bit_eq_mult)

lemma ord2utf_index:
  "c < 2 ^ 31 \<Longrightarrow> length (takeWhile (\<lambda>t. \<not> int_of_uint32 c \<le> t) utf8_table1) =
    (if c \<le> 0x7f then 0 else if c \<le> 0x7ff then Suc 0 else if c \<le> 0xffff then Suc (Suc 0)
     else if c \<le> 0x1fffff then Suc (Suc (Suc 0))
     else if c \<le> 0x3ffffff then Suc (Suc (Suc (Suc 0))) else Suc (Suc (Suc (Suc (Suc 0)))))"
  by (simp add: utf8_table1_def int_of_uint32_def)

lemma ord2utf_eq: "c < 2 ^ 31 \<Longrightarrow> ord2utf c = map to_byte (utf8_bytes c)"
  by (simp add: ord2utf_def ord2utf_index utf8_bytes_def utf8_table2_def
      drop_bit_eq_div or_lead or_80 flip: div_mult2_eq)



subsection \<open>What the check accepts\<close>

text \<open>The shape of one accepted character: its number of continuation bytes.\<close>

definition lead_ok :: "nat \<Rightarrow> nat \<Rightarrow> bool" where
  "lead_ok c d \<longleftrightarrow> (c = 0xe0 \<longrightarrow> 0xa0 \<le> d) \<and> (c = 0xed \<longrightarrow> d < 0xa0) \<and>
     (c = 0xf0 \<longrightarrow> 0x90 \<le> d) \<and> (c = 0xf4 \<longrightarrow> d \<le> 0x8f)"

definition char_shape :: "byte list \<Rightarrow> nat \<Rightarrow> nat \<Rightarrow> bool" where
  "char_shape s p k \<longleftrightarrow>
     (let c = unat (rd s p); d = unat (rd s (p + 1)) in
      (k = 0 \<and> c < 0x80) \<or>
      (k = 1 \<and> 0xc2 \<le> c \<and> c < 0xe0 \<and> cont_byte (rd s (p + 1))) \<or>
      (k = 2 \<and> 0xe0 \<le> c \<and> c < 0xf0 \<and> lead_ok c d \<and> cont_byte (rd s (p + 1)) \<and>
         cont_byte (rd s (p + 2))) \<or>
      (k = 3 \<and> 0xf0 \<le> c \<and> c \<le> 0xf4 \<and> lead_ok c d \<and> cont_byte (rd s (p + 1)) \<and>
         cont_byte (rd s (p + 2)) \<and> cont_byte (rd s (p + 3))))"

lemmas byte_nat = word_less_nat_alt word_le_nat_alt byte_eq_iff_unat

text \<open>The check and the shape by ranges of the first byte.\<close>

lemma valid_utf_char_ranges:
  defines "c \<equiv> \<lambda>s p. unat (rd s p)"
  shows
  "c s p < 0x80 \<Longrightarrow> valid_utf_char s p len = Inr (p, len)"
  "0xc0 \<le> c s p \<Longrightarrow> c s p < 0xe0 \<Longrightarrow> valid_utf_char s p len =
     (if len < 1 then Inl (1 - len, p) else if \<not> cont_byte (rd s (p + 1)) then Inl (6, p)
      else if c s p < 0xc2 then Inl (15, p) else Inr (p + 1, len - 1))"
  "0xe0 \<le> c s p \<Longrightarrow> c s p < 0xf0 \<Longrightarrow> valid_utf_char s p len =
     (if len < 2 then Inl (2 - len, p) else if \<not> cont_byte (rd s (p + 1)) then Inl (6, p)
      else if \<not> cont_byte (rd s (p + 2)) then Inl (7, p)
      else if c s p = 0xe0 \<and> c s (p + 1) < 0xa0 then Inl (16, p)
      else if c s p = 0xed \<and> 0xa0 \<le> c s (p + 1) then Inl (14, p) else Inr (p + 2, len - 2))"
  "0xf0 \<le> c s p \<Longrightarrow> c s p < 0xf8 \<Longrightarrow> valid_utf_char s p len =
     (if len < 3 then Inl (3 - len, p) else if \<not> cont_byte (rd s (p + 1)) then Inl (6, p)
      else if \<not> cont_byte (rd s (p + 2)) then Inl (7, p)
      else if \<not> cont_byte (rd s (p + 3)) then Inl (8, p)
      else if c s p = 0xf0 \<and> c s (p + 1) < 0x90 then Inl (17, p)
      else if 0xf4 < c s p \<or> c s p = 0xf4 \<and> 0x8f < c s (p + 1) then Inl (13, p)
      else Inr (p + 3, len - 3))"
  using overlong_masks [of "rd s p"] overlong_masks [of "rd s (p + 1)"]
  by (simp_all add: valid_utf_char_def Let_def byte_nat table4_lead c_def cont_byte_unat)

lemma valid_utf_char_rejects:
  "0x80 \<le> unat (rd s p) \<Longrightarrow> unat (rd s p) < 0xc0 \<Longrightarrow> valid_utf_char s p len = Inl (20, p)"
  "0xf8 \<le> unat (rd s p) \<Longrightarrow> \<exists>e. valid_utf_char s p len = Inl (e, p) \<and> 0 < e \<and> e \<le> 21"
  by (auto simp: valid_utf_char_def Let_def byte_nat table4_lead)

lemma char_shape_ranges:
  "unat (rd s p) < 0x80 \<Longrightarrow> char_shape s p k \<longleftrightarrow> k = 0"
  "0x80 \<le> unat (rd s p) \<Longrightarrow> unat (rd s p) < 0xc0 \<Longrightarrow> \<not> char_shape s p k"
  "0xc0 \<le> unat (rd s p) \<Longrightarrow> unat (rd s p) < 0xe0 \<Longrightarrow> char_shape s p k \<longleftrightarrow>
     k = 1 \<and> 0xc2 \<le> unat (rd s p) \<and> cont_byte (rd s (p + 1))"
  "0xe0 \<le> unat (rd s p) \<Longrightarrow> unat (rd s p) < 0xf0 \<Longrightarrow> char_shape s p k \<longleftrightarrow>
     k = 2 \<and> lead_ok (unat (rd s p)) (unat (rd s (p + 1))) \<and> cont_byte (rd s (p + 1)) \<and>
     cont_byte (rd s (p + 2))"
  "0xf0 \<le> unat (rd s p) \<Longrightarrow> unat (rd s p) < 0xf8 \<Longrightarrow> char_shape s p k \<longleftrightarrow>
     k = 3 \<and> unat (rd s p) \<le> 0xf4 \<and> lead_ok (unat (rd s p)) (unat (rd s (p + 1))) \<and>
     cont_byte (rd s (p + 1)) \<and> cont_byte (rd s (p + 2)) \<and> cont_byte (rd s (p + 3))"
  "0xf8 \<le> unat (rd s p) \<Longrightarrow> \<not> char_shape s p k"
  by (auto simp: char_shape_def Let_def)

lemma first_byte_ranges:
  obtains "unat b < 0x80" | "0x80 \<le> unat b" "unat b < 0xc0" | "0xc0 \<le> unat b" "unat b < 0xe0"
    | "0xe0 \<le> unat b" "unat b < 0xf0" | "0xf0 \<le> unat b" "unat b < 0xf8" | "0xf8 \<le> unat (b :: byte)"
  by linarith

lemma valid_utf_char_Inr:
  "valid_utf_char s p len = Inr (q, len') \<longleftrightarrow>
     (\<exists>k. char_shape s p k \<and> k \<le> len \<and> q = p + k \<and> len' = len - k)"
proof (rule first_byte_ranges [of "rd s p"])
  assume "0xf8 \<le> unat (rd s p)"
  with valid_utf_char_rejects(2) [of s p len] show ?thesis
    by (auto simp: char_shape_ranges)
qed (auto simp: valid_utf_char_ranges valid_utf_char_rejects char_shape_ranges lead_ok_def)


subsection \<open>What the decoding macros read\<close>

lemma or_combine:
  "b < 64 \<Longrightarrow> push_bit 6 a OR b = a * 64 + (b :: nat)"
  "b < 4096 \<Longrightarrow> push_bit 12 a OR b = a * 4096 + (b :: nat)"
  "b < 262144 \<Longrightarrow> push_bit 18 a OR b = a * 262144 + (b :: nat)"
  "b < 16777216 \<Longrightarrow> push_bit 24 a OR b = a * 16777216 + (b :: nat)"
  "b < 1073741824 \<Longrightarrow> push_bit 30 a OR b = a * 1073741824 + (b :: nat)"
  using nat_shift_or [of b 6 a] nat_shift_or [of b 12 a] nat_shift_or [of b 18 a]
    nat_shift_or [of b 24 a] nat_shift_or [of b 30 a] by simp_all

lemma combine_bound:
  "a < 64 \<Longrightarrow> b < 64 \<Longrightarrow> a * 64 + b < (4096 :: nat)"
  "a < 64 \<Longrightarrow> b < 4096 \<Longrightarrow> a * 4096 + b < (262144 :: nat)"
  "a < 64 \<Longrightarrow> b < 262144 \<Longrightarrow> a * 262144 + b < (16777216 :: nat)"
  "a < 64 \<Longrightarrow> b < 16777216 \<Longrightarrow> a * 16777216 + b < (1073741824 :: nat)"
  by simp_all

abbreviation cbits :: "byte list \<Rightarrow> nat \<Rightarrow> nat" where
  "cbits s i \<equiv> unat (rd s i) mod 64"

lemma getutf8_ranges:
  "0xc0 \<le> c \<Longrightarrow> c < 0xe0 \<Longrightarrow> getutf8 c s e = (c - 0xc0) * 64 + cbits s (e + 1)"
  "0xe0 \<le> c \<Longrightarrow> c < 0xf0 \<Longrightarrow> getutf8 c s e =
     (c - 0xe0) * 4096 + (cbits s (e + 1) * 64 + cbits s (e + 2))"
  "0xf0 \<le> c \<Longrightarrow> c < 0xf8 \<Longrightarrow> getutf8 c s e =
     (c - 0xf0) * 262144 + (cbits s (e + 1) * 4096 + (cbits s (e + 2) * 64 + cbits s (e + 3)))"
  "0xf8 \<le> c \<Longrightarrow> c < 0xfc \<Longrightarrow> getutf8 c s e =
     (c - 0xf8) * 16777216 + (cbits s (e + 1) * 262144 + (cbits s (e + 2) * 4096 +
       (cbits s (e + 3) * 64 + cbits s (e + 4))))"
  "0xfc \<le> c \<Longrightarrow> c < 0xfe \<Longrightarrow> getutf8 c s e =
     (c - 0xfc) * 1073741824 + (cbits s (e + 1) * 16777216 + (cbits s (e + 2) * 262144 +
       (cbits s (e + 3) * 4096 + (cbits s (e + 4) * 64 + cbits s (e + 5)))))"
  using lead_bits [of c]
  by (simp_all add: getutf8_def Let_def or_combine combine_bound)

lemma getutf8_extra_ranges:
  "0xc0 \<le> c \<Longrightarrow> c < 0xe0 \<Longrightarrow> getutf8_extra c = 1"
  "0xe0 \<le> c \<Longrightarrow> c < 0xf0 \<Longrightarrow> getutf8_extra c = 2"
  "0xf0 \<le> c \<Longrightarrow> c < 0xf8 \<Longrightarrow> getutf8_extra c = 3"
  "0xf8 \<le> c \<Longrightarrow> c < 0xfc \<Longrightarrow> getutf8_extra c = 4"
  "0xfc \<le> c \<Longrightarrow> c < 0xfe \<Longrightarrow> getutf8_extra c = 5"
  using lead_bits [of c] by (simp_all add: getutf8_extra_def)


lemma base64_mod:
  "c div 64 mod 64 * 64 + c mod 64 = c mod (4096 :: nat)"
  "c div 4096 mod 64 * 4096 + c mod 4096 = c mod (262144 :: nat)"
  "c div 262144 mod 64 * 262144 + c mod 262144 = c mod (16777216 :: nat)"
  "c div 16777216 mod 64 * 16777216 + c mod 16777216 = c mod (1073741824 :: nat)"
  using mod_mult2_eq [of c 64 64] mod_mult2_eq [of c 4096 64] mod_mult2_eq [of c 262144 64]
    mod_mult2_eq [of c 16777216 64]
  by (simp_all only: mult.commute [of _ "_ mod 64"]) simp_all

lemma base64_split:
  "c div 64 * 64 + c mod 64 = (c :: nat)"
  "c div 4096 * 4096 + (c div 64 mod 64 * 64 + c mod 64) = c"
  "c div 262144 * 262144 + (c div 4096 mod 64 * 4096 + (c div 64 mod 64 * 64 + c mod 64)) = c"
  "c div 16777216 * 16777216 + (c div 262144 mod 64 * 262144 + (c div 4096 mod 64 * 4096 +
     (c div 64 mod 64 * 64 + c mod 64))) = c"
  "c div 1073741824 * 1073741824 + (c div 16777216 mod 64 * 16777216 +
     (c div 262144 mod 64 * 262144 + (c div 4096 mod 64 * 4096 +
     (c div 64 mod 64 * 64 + c mod 64)))) = c"
  by (simp_all only: base64_mod div_mult_mod_eq)

lemma mod_128_64: "(128 + x) mod 64 = x mod (64 :: nat)"
  using mod_mult_self2 [of x 64 2] by (simp add: add.commute)

text \<open>Decoding what the encoder wrote, up to the largest value of the original format.\<close>

lemma getcharlentest_ord2utf:
  assumes "c < 2 ^ 31"
  shows "getcharlentest True (xs @ ord2utf c @ ys) (length xs) = (c, length (ord2utf c))"
proof -
  note u = getcharlentest_def ord2utf_eq [OF assms] utf8_bytes_def rd_append2 Let_def
    getutf8_ranges getutf8_extra_ranges base64_split mod_128_64
  consider "c \<le> 0x7f" | "0x7f < c" "c \<le> 0x7ff" | "0x7ff < c" "c \<le> 0xffff"
    | "0xffff < c" "c \<le> 0x1fffff" | "0x1fffff < c" "c \<le> 0x3ffffff" | "0x3ffffff < c"
    by linarith
  then show ?thesis
  proof cases
    case 1
    then show ?thesis by (simp add: u)
  next
    case 2
    then have "c div 64 < 32" by simp
    with 2 show ?thesis by (simp add: u)
  next
    case 3
    then have "c div 4096 < 16" by simp
    with 3 show ?thesis by (simp add: u)
  next
    case 4
    then have "c div 262144 < 8" by simp
    with 4 show ?thesis by (simp add: u)
  next
    case 5
    then have "c div 16777216 < 4" by simp
    with 5 show ?thesis by (simp add: u)
  next
    case 6
    with assms have "c div 1073741824 < 2" by simp
    with 6 show ?thesis by (simp add: u)
  qed
qed


subsection \<open>The check accepts exactly the encodings of scalar values\<close>

text \<open>A Unicode scalar value: a code point that is not a surrogate.\<close>

definition scalar :: "cchar \<Rightarrow> bool" where
  "scalar c \<longleftrightarrow> c \<le> 0x10ffff \<and> \<not> (0xd800 \<le> c \<and> c \<le> 0xdfff)"

lemma scalar_less: "scalar c \<Longrightarrow> c < 2 ^ 31"
  by (simp add: scalar_def)

lemma take_rd: "p + k < length s \<Longrightarrow> take (Suc k) (drop p s) = map (\<lambda>i. rd s (p + i)) [0..<Suc k]"
  by (rule nth_equalityI) (auto simp: rd_in simp del: upt_Suc)

lemma cont_byte_cbits: "cont_byte b \<Longrightarrow> 0x80 + unat b mod 64 = unat b"
  using nat_mod_from_div [of "unat b" 64 2] nat_div_range [of 64 2 "unat b"]
  by (simp add: cont_byte_unat)

lemma digit_shift: "0 < n \<Longrightarrow> (a * (64 * n) + b) div n mod 64 = b div n mod (64 :: nat)"
  using div_mult_self1 [of n b "a * 64"] by (simp add: algebra_simps)

lemma digits_64:
  "b < 64 \<Longrightarrow> (a * 64 + b) div 64 = (a :: nat)" "b < 64 \<Longrightarrow> (a * 64 + b) mod 64 = (b :: nat)"
  "b < 4096 \<Longrightarrow> (a * 4096 + b) div 4096 = (a :: nat)"
  "(a * 4096 + b) div 64 mod 64 = b div 64 mod (64 :: nat)"
  "(a * 4096 + b) mod 64 = b mod (64 :: nat)"
  "b < 262144 \<Longrightarrow> (a * 262144 + b) div 262144 = (a :: nat)"
  "(a * 262144 + b) div 4096 mod 64 = b div 4096 mod (64 :: nat)"
  "(a * 262144 + b) div 64 mod 64 = b div 64 mod (64 :: nat)"
  "(a * 262144 + b) mod 64 = b mod (64 :: nat)"
  by simp_all (rule digit_shift [of 64 a b, simplified]
    digit_shift [of 1 "a * 64" b, simplified mult.assoc, simplified]
    digit_shift [of 4096 a b, simplified]
    digit_shift [of 64 "a * 64" b, simplified mult.assoc, simplified]
    digit_shift [of 1 "a * 4096" b, simplified mult.assoc, simplified])+

lemma char_shape_cases:
  assumes "char_shape s p k"
  obtains (one) "k = 0" "unat (rd s p) < 0x80"
  | (two) "k = 1" "0xc2 \<le> unat (rd s p)" "unat (rd s p) < 0xe0" "cont_byte (rd s (p + 1))"
  | (three) "k = 2" "0xe0 \<le> unat (rd s p)" "unat (rd s p) < 0xf0"
      "lead_ok (unat (rd s p)) (unat (rd s (p + 1)))" "cont_byte (rd s (p + 1))"
      "cont_byte (rd s (p + 2))"
  | (four) "k = 3" "0xf0 \<le> unat (rd s p)" "unat (rd s p) \<le> 0xf4"
      "lead_ok (unat (rd s p)) (unat (rd s (p + 1)))" "cont_byte (rd s (p + 1))"
      "cont_byte (rd s (p + 2))" "cont_byte (rd s (p + 3))"
  using assms by (auto simp: char_shape_def Let_def)

lemma char_shape_decode:
  assumes "char_shape s p k"
  shows "getcharlentest True s p = (getchar s p, Suc k)"
  using assms
  by (cases rule: char_shape_cases)
    (auto simp: getchar_def getcharlentest_def Let_def getutf8_extra_ranges)

lemma getchar_shape:
  "unat (rd s p) < 0x80 \<Longrightarrow> getchar s p = unat (rd s p)"
  "0xc0 \<le> unat (rd s p) \<Longrightarrow> unat (rd s p) < 0xe0 \<Longrightarrow>
     getchar s p = (unat (rd s p) - 0xc0) * 64 + cbits s (p + 1)"
  "0xe0 \<le> unat (rd s p) \<Longrightarrow> unat (rd s p) < 0xf0 \<Longrightarrow>
     getchar s p = (unat (rd s p) - 0xe0) * 4096 + (cbits s (p + 1) * 64 + cbits s (p + 2))"
  "0xf0 \<le> unat (rd s p) \<Longrightarrow> unat (rd s p) < 0xf8 \<Longrightarrow>
     getchar s p = (unat (rd s p) - 0xf0) * 262144 +
       (cbits s (p + 1) * 4096 + (cbits s (p + 2) * 64 + cbits s (p + 3)))"
  by (simp_all add: getchar_def getcharlentest_def Let_def getutf8_ranges)

text \<open>Bounds on the decoded value, by the number of bytes.\<close>

lemma three_bytes_bound:
  assumes "c < 0xf0" "0xe0 \<le> c" "lead_ok c d" "d < 0xc0" "0x80 \<le> d" "x < (64 :: nat)"
  shows "0x7ff < (c - 0xe0) * 4096 + ((d - 0x80) * 64 + x)"
    and "(c - 0xe0) * 4096 + ((d - 0x80) * 64 + x) \<le> 0xffff"
    and "scalar ((c - 0xe0) * 4096 + ((d - 0x80) * 64 + x))"
proof -
  obtain a where a: "c = 0xe0 + a" using assms(2) le_Suc_ex by blast
  obtain b where b: "d = 0x80 + b" using assms(5) le_Suc_ex by blast
  have "a < 16" "b < 64" using assms(1,4) a b by simp_all
  moreover have "a = 0 \<longrightarrow> 32 \<le> b" "a = 13 \<longrightarrow> b < 32"
    using assms(3) by (auto simp: lead_ok_def a b)
  ultimately show "0x7ff < (c - 0xe0) * 4096 + ((d - 0x80) * 64 + x)"
    and "(c - 0xe0) * 4096 + ((d - 0x80) * 64 + x) \<le> 0xffff"
    and "scalar ((c - 0xe0) * 4096 + ((d - 0x80) * 64 + x))"
    using assms(6) unfolding a b scalar_def
    by (cases a "13 :: nat" rule: linorder_cases; auto)+
qed

lemma four_bytes_bound:
  assumes "c \<le> 0xf4" "0xf0 \<le> c" "lead_ok c d" "d < 0xc0" "0x80 \<le> d" "x < (4096 :: nat)"
  shows "0xffff < (c - 0xf0) * 262144 + ((d - 0x80) * 4096 + x)"
    and "(c - 0xf0) * 262144 + ((d - 0x80) * 4096 + x) \<le> 0x10ffff"
    and "scalar ((c - 0xf0) * 262144 + ((d - 0x80) * 4096 + x))"
proof -
  obtain a where a: "c = 0xf0 + a" using assms(2) le_Suc_ex by blast
  obtain b where b: "d = 0x80 + b" using assms(5) le_Suc_ex by blast
  have "a \<le> 4" "b < 64" using assms(1,4) a b by simp_all
  moreover have "a = 0 \<longrightarrow> 16 \<le> b" "a = 4 \<longrightarrow> b < 16"
    using assms(3) by (auto simp: lead_ok_def a b)
  ultimately show "0xffff < (c - 0xf0) * 262144 + ((d - 0x80) * 4096 + x)"
    and "(c - 0xf0) * 262144 + ((d - 0x80) * 4096 + x) \<le> 0x10ffff"
    and "scalar ((c - 0xf0) * 262144 + ((d - 0x80) * 4096 + x))"
    using assms(6) unfolding a b scalar_def by auto
qed


lemma utf8_bytes_2:
  assumes "0xc2 \<le> c" "c < 0xe0" "b < 64"
  shows "utf8_bytes ((c - 0xc0) * 64 + b) = [c, 0x80 + b]" and "scalar ((c - 0xc0) * 64 + b)"
proof -
  obtain a where a: "c = 0xc0 + a"
    using assms(1) by (intro that [of "c - 0xc0"]) simp
  then have "2 \<le> a" "a < 32" using assms by simp_all
  with assms(3) show "utf8_bytes ((c - 0xc0) * 64 + b) = [c, 0x80 + b]"
    "scalar ((c - 0xc0) * 64 + b)"
    unfolding a by (simp_all add: utf8_bytes_def scalar_def)
qed

lemma utf8_bytes_3:
  assumes "0xe0 \<le> c" "b < 64" "x < 64"
    and "0x7ff < (c - 0xe0) * 4096 + (b * 64 + x)" "(c - 0xe0) * 4096 + (b * 64 + x) \<le> 0xffff"
  shows "utf8_bytes ((c - 0xe0) * 4096 + (b * 64 + x)) = [c, 0x80 + b, 0x80 + x]"
proof -
  let ?g = "(c - 0xe0) * 4096 + (b * 64 + x)"
  have "?g div 4096 = c - 0xe0" "?g div 64 mod 64 = b" "?g mod 64 = x"
    using assms(2,3) by (simp_all only: digits_64 combine_bound mod_less)
  with assms(1,4,5) show ?thesis unfolding utf8_bytes_def by simp
qed

lemma utf8_bytes_4:
  assumes "0xf0 \<le> c" "b < 64" "x < 64" "y < 64"
    and "0xffff < (c - 0xf0) * 262144 + (b * 4096 + (x * 64 + y))"
    and "(c - 0xf0) * 262144 + (b * 4096 + (x * 64 + y)) \<le> 0x10ffff"
  shows "utf8_bytes ((c - 0xf0) * 262144 + (b * 4096 + (x * 64 + y))) = [c, 0x80 + b, 0x80 + x, 0x80 + y]"
proof -
  let ?g = "(c - 0xf0) * 262144 + (b * 4096 + (x * 64 + y))"
  have "?g div 262144 = c - 0xf0" "?g div 4096 mod 64 = b" "?g div 64 mod 64 = x" "?g mod 64 = y"
    using assms(2,3,4) by (simp_all only: digits_64 combine_bound mod_less)
  with assms(1,5,6) show ?thesis unfolding utf8_bytes_def by simp
qed

text \<open>An accepted character decodes to a scalar value, whose encoding it is.\<close>

lemma char_shape_two:
  assumes "0xc2 \<le> unat (rd s p)" "unat (rd s p) < 0xe0" "cont_byte (rd s (p + 1))"
  shows "scalar (getchar s p) \<and> utf8_bytes (getchar s p) = [unat (rd s p), unat (rd s (p + 1))]"
  using assms utf8_bytes_2 [OF assms(1,2), of "cbits s (p + 1)"]
  by (simp add: getchar_shape cont_byte_cbits)

lemma char_shape_three:
  assumes "0xe0 \<le> unat (rd s p)" "unat (rd s p) < 0xf0"
    and "lead_ok (unat (rd s p)) (unat (rd s (p + 1)))"
    and "cont_byte (rd s (p + 1))" "cont_byte (rd s (p + 2))"
  shows "scalar (getchar s p) \<and>
    utf8_bytes (getchar s p) = [unat (rd s p), unat (rd s (p + 1)), unat (rd s (p + 2))]"
proof -
  have d: "cbits s (p + 1) = unat (rd s (p + 1)) - 0x80" and r: "unat (rd s (p + 1)) < 0xc0"
    "0x80 \<le> unat (rd s (p + 1))" and x: "cbits s (p + 2) < 64" "cbits s (p + 1) < 64"
    using assms(4) cont_byte_cbits [OF assms(4)] by (simp_all add: cont_byte_unat)
  note b = three_bytes_bound [OF assms(2,1,3) r x(1), folded d]
  show ?thesis
    unfolding getchar_shape(3) [OF assms(1,2)]
    using b(3) utf8_bytes_3 [OF assms(1) x(2,1) b(1,2)] cont_byte_cbits [OF assms(4)]
      cont_byte_cbits [OF assms(5)] by simp
qed

lemma char_shape_four:
  assumes "0xf0 \<le> unat (rd s p)" "unat (rd s p) \<le> 0xf4"
    and "lead_ok (unat (rd s p)) (unat (rd s (p + 1)))"
    and "cont_byte (rd s (p + 1))" "cont_byte (rd s (p + 2))" "cont_byte (rd s (p + 3))"
  shows "scalar (getchar s p) \<and> utf8_bytes (getchar s p) =
    [unat (rd s p), unat (rd s (p + 1)), unat (rd s (p + 2)), unat (rd s (p + 3))]"
proof -
  have d: "cbits s (p + 1) = unat (rd s (p + 1)) - 0x80" and r: "unat (rd s (p + 1)) < 0xc0"
    "0x80 \<le> unat (rd s (p + 1))" and y: "cbits s (p + 1) < 64" "cbits s (p + 2) < 64" "cbits s (p + 3) < 64"
    using assms(4) cont_byte_cbits [OF assms(4)] by (simp_all add: cont_byte_unat)
  note x = combine_bound(1) [OF y(2,3)]
  note b = four_bytes_bound [OF assms(2,1,3) r x, folded d]
  have "unat (rd s p) < 0xf8" using assms(2) by simp
  then show ?thesis
    unfolding getchar_shape(4) [OF assms(1) \<open>unat (rd s p) < 0xf8\<close>]
    using b(3) utf8_bytes_4 [OF assms(1) y b(1,2)] cont_byte_cbits [OF assms(4)]
      cont_byte_cbits [OF assms(5)] cont_byte_cbits [OF assms(6)] by simp
qed

lemma char_shape_scalar:
  assumes "char_shape s p k"
  shows "scalar (getchar s p)"
    and "map to_byte (utf8_bytes (getchar s p)) = map (\<lambda>i. rd s (p + i)) [0..<Suc k]"
proof -
  have "scalar (getchar s p) \<and>
    map to_byte (utf8_bytes (getchar s p)) = map (\<lambda>i. rd s (p + i)) [0..<Suc k]"
    using assms
  proof (cases rule: char_shape_cases)
    case one
    then show ?thesis by (simp add: getchar_shape scalar_def utf8_bytes_def)
  next
    case two
    with char_shape_two [of s p] show ?thesis by simp
  next
    case three
    with char_shape_three [of s p] show ?thesis by (simp add: numeral_2_eq_2)
  next
    case four
    with char_shape_four [of s p] show ?thesis by (simp add: numeral_2_eq_2 numeral_3_eq_3)
  qed
  then show "scalar (getchar s p)"
    and "map to_byte (utf8_bytes (getchar s p)) = map (\<lambda>i. rd s (p + i)) [0..<Suc k]"
    by simp_all
qed


lemma ord2utf_nonempty [simp]: "ord2utf c \<noteq> []"
  by (auto simp: ord2utf_def Let_def split: prod.splits)

text \<open>Conversely every encoded scalar value has the accepted shape.\<close>

lemma surrogate_second_byte:
  assumes "scalar c" "c \<le> 0xffff" "0x7ff < c"
  shows "lead_ok (0xe0 + c div 4096) (0x80 + c div 64 mod 64)"
proof -
  have q: "c div 4096 = c div 64 div 64" by (simp flip: div_mult2_eq)
  have "c div 64 = 64 * (c div 4096) + c div 64 mod 64" unfolding q by simp
  moreover have "c < 0xd800 \<Longrightarrow> c div 64 < 864" and "0xdfff < c \<Longrightarrow> 896 \<le> c div 64"
    and "32 \<le> c div 64" and "c div 64 < 1024"
    using assms by auto
  ultimately show ?thesis
    using assms unfolding lead_ok_def scalar_def by auto
qed

lemma four_second_byte:
  assumes "c \<le> 0x10ffff" "0xffff < c"
  shows "lead_ok (0xf0 + c div 262144) (0x80 + c div 4096 mod 64)" "0xf0 + c div 262144 \<le> 0xf4"
proof -
  have q: "c div 262144 = c div 4096 div 64" by (simp flip: div_mult2_eq)
  have "c div 4096 = 64 * (c div 262144) + c div 4096 mod 64" unfolding q by simp
  moreover have "16 \<le> c div 4096" "c div 4096 < 272" using assms by auto
  ultimately show "lead_ok (0xf0 + c div 262144) (0x80 + c div 4096 mod 64)"
    "0xf0 + c div 262144 \<le> 0xf4"
    unfolding lead_ok_def by auto
qed

lemma char_shape_ord2utf:
  assumes "scalar c"
  shows "char_shape (xs @ ord2utf c @ ys) (length xs) (length (ord2utf c) - 1)"
proof -
  note u = ord2utf_eq [OF scalar_less [OF assms]] utf8_bytes_def rd_append2 char_shape_def
    Let_def cont_byte_unat
  have c: "c \<le> 0x10ffff" using assms by (simp add: scalar_def)
  consider "c \<le> 0x7f" | "0x7f < c" "c \<le> 0x7ff" | "0x7ff < c" "c \<le> 0xffff" | "0xffff < c"
    by linarith
  then show ?thesis
  proof cases
    case 1
    then show ?thesis by (simp add: u)
  next
    case 2
    then have "2 \<le> c div 64" "c div 64 < 32" by simp_all
    with 2 show ?thesis by (simp add: u)
  next
    case 3
    then have "c div 4096 < 16" by simp
    with 3 surrogate_second_byte [OF assms] show ?thesis by (simp add: u)
  next
    case 4
    have "c div 262144 < 8" using c by simp
    with 4 c four_second_byte [OF c] show ?thesis by (simp add: u)
  qed
qed

text \<open>Both directions at one offset.\<close>

lemma valid_utf_char_accept:
  assumes "p < length s" "drop p s = ord2utf c @ rest" "scalar c"
  shows "valid_utf_char s p (length s - p - 1) =
    Inr (p + length (ord2utf c) - 1, length rest)"
proof -
  have s: "s = take p s @ ord2utf c @ rest" using assms(2) by (metis append_take_drop_id)
  have "char_shape (take p s @ ord2utf c @ rest) (length (take p s)) (length (ord2utf c) - 1)"
    using assms(3) by (rule char_shape_ord2utf)
  then have sh: "char_shape s p (length (ord2utf c) - 1)"
    using assms(1) by (simp flip: s)
  have "length s - p = length (ord2utf c) + length rest"
    using assms(2) by (metis length_append length_drop)
  moreover have "0 < length (ord2utf c)" by simp
  ultimately show ?thesis using sh assms(1) unfolding valid_utf_char_Inr
    by (intro exI [of _ "length (ord2utf c) - 1"]) (auto simp del: length_greater_0_conv)
qed

lemma valid_utf_char_accepted:
  assumes "valid_utf_char s p (length s - p - 1) = Inr (q, len')" "p < length s"
  shows "\<exists>c. scalar c \<and> drop p s = ord2utf c @ drop (q + 1) s \<and> len' = length s - (q + 1) \<and> p \<le> q \<and>
    q < length s"
proof -
  obtain k where k: "char_shape s p k" "k \<le> length s - p - 1" "q = p + k" "len' = length s - p - 1 - k"
    using assms(1) unfolding valid_utf_char_Inr by blast
  let ?c = "getchar s p"
  have c: "scalar ?c" using k(1) by (rule char_shape_scalar)
  have "p + k < length s" using k(2) assms(2) by simp
  then have "ord2utf ?c = take (Suc k) (drop p s)"
    using char_shape_scalar(2) [OF k(1)] ord2utf_eq [OF scalar_less [OF c]] by (simp only: take_rd)
  then have "drop p s = ord2utf ?c @ drop (q + 1) s"
    using append_take_drop_id [of "Suc k" "drop p s"] by (simp add: k(3) add.commute)
  then show ?thesis using c k assms(2) by auto
qed

lemma valid_utf_char_Inl:
  "valid_utf_char s p len = Inl (e, off) \<Longrightarrow> off = p \<and> 0 < e \<and> e \<le> 21"
  using table4_lead [of "rd s p"]
  by (auto simp: valid_utf_char_def Let_def not_less not_le split: if_splits)

text \<open>The whole loop: it stops at the first offset that no encoded scalar value starts.\<close>

definition utf8_chars :: "cchar list \<Rightarrow> byte list" where
  "utf8_chars cs = concat (map ord2utf cs)"

lemma utf8_chars_simps [simp]:
  "utf8_chars [] = []" "utf8_chars (c # cs) = ord2utf c @ utf8_chars cs"
  by (simp_all add: utf8_chars_def)

lemma valid_utf_loop_result:
  assumes "p + len = length s"
  shows "\<exists>cs off. list_all scalar cs \<and> drop p s = utf8_chars cs @ drop off s \<and> p \<le> off \<and>
    off \<le> length s \<and>
    (if off = length s then valid_utf_loop s p len = (0, None)
     else (\<exists>e. valid_utf_loop s p len = (e, Some off) \<and> 0 < e \<and> e \<le> 21) \<and>
       (\<forall>c rest. scalar c \<longrightarrow> drop off s \<noteq> ord2utf c @ rest))"
  using assms
proof (induction s p len rule: valid_utf_loop.induct)
  case (1 s p len)
  show ?case
  proof (cases "len = 0")
    case True
    with "1.prems" show ?thesis
      by (intro exI [of _ "[]"] exI [of _ p]) (simp add: valid_utf_loop.simps)
  next
    case False
    with "1.prems" have p: "p < length s" and len: "len - 1 = length s - p - 1" by simp_all
    show ?thesis
    proof (cases "valid_utf_char s p (len - 1)")
      case (Inl eo)
      obtain e off where eo: "eo = (e, off)" by (cases eo)
      with Inl have off: "off = p" "0 < e" "e \<le> 21" by (auto dest: valid_utf_char_Inl)
      have "\<forall>c rest. scalar c \<longrightarrow> drop p s \<noteq> ord2utf c @ rest"
        using Inl valid_utf_char_accept [OF p] len by auto
      with Inl eo off p False show ?thesis
        by (intro exI [of _ "[]"] exI [of _ p]) (simp add: valid_utf_loop.simps [of s p len])
    next
      case (Inr ql)
      obtain q len' where ql: "ql = (q, len')" by (cases ql)
      with Inr obtain c where c: "scalar c" "drop p s = ord2utf c @ drop (q + 1) s"
        "len' = length s - (q + 1)" "p \<le> q" "q < length s"
        using valid_utf_char_accepted [OF _ p] len by auto
      from c have "q + 1 + len' = length s" by simp
      from "1.IH" [OF False Inr ql [symmetric] this] obtain cs off where IH: "list_all scalar cs"
        "drop (q + 1) s = utf8_chars cs @ drop off s" "q + 1 \<le> off" "off \<le> length s"
        "if off = length s then valid_utf_loop s (q + 1) len' = (0, None)
         else (\<exists>e. valid_utf_loop s (q + 1) len' = (e, Some off) \<and> 0 < e \<and> e \<le> 21) \<and>
           (\<forall>c rest. scalar c \<longrightarrow> drop off s \<noteq> ord2utf c @ rest)"
        by blast
      have "valid_utf_loop s p len = valid_utf_loop s (q + 1) len'"
        using Inr ql False by (simp add: valid_utf_loop.simps [of s p len])
      with IH c show ?thesis
        by (intro exI [of _ "c # cs"] exI [of _ off]) auto
    qed
  qed
qed

lemma utf8_chars_append_accept:
  assumes "list_all scalar cs"
  shows "valid_utf_loop (xs @ utf8_chars cs) (length xs) (length (utf8_chars cs)) = (0, None)"
  using assms
proof (induction cs arbitrary: xs)
  case Nil
  then show ?case by (simp add: valid_utf_loop.simps)
next
  case (Cons c cs)
  let ?s = "xs @ utf8_chars (c # cs)"
  have n: "0 < length (ord2utf c)" by simp
  have "valid_utf_char ?s (length xs) (length ?s - length xs - 1) =
    Inr (length xs + length (ord2utf c) - 1, length (utf8_chars cs))"
    using Cons.prems n by (intro valid_utf_char_accept) (auto simp del: length_greater_0_conv)
  then have "valid_utf_loop ?s (length xs) (length (utf8_chars (c # cs))) =
    valid_utf_loop ?s (length (xs @ ord2utf c)) (length (utf8_chars cs))"
    using n by (subst valid_utf_loop.simps) (simp del: length_greater_0_conv)
  also have "\<dots> = (0, None)"
    using Cons.IH [of "xs @ ord2utf c"] Cons.prems by simp
  finally show ?case .
qed


lemma valid_utf_exact: "valid_utf s (int (length s)) = valid_utf_loop s 0 (length s)"
  by (simp add: valid_utf_def)

lemma valid_utf_result:
  obtains cs off where "list_all scalar cs" "s = utf8_chars cs @ drop off s" "off \<le> length s"
    "off = length s \<Longrightarrow> valid_utf s (int (length s)) = (0, None)"
    "off < length s \<Longrightarrow> \<exists>e. valid_utf s (int (length s)) = (e, Some off) \<and> 0 < e \<and> e \<le> 21"
    "off < length s \<Longrightarrow> \<forall>c rest. scalar c \<longrightarrow> drop off s \<noteq> ord2utf c @ rest"
proof -
  obtain cs off where *: "list_all scalar cs" "drop 0 s = utf8_chars cs @ drop off s"
    "off \<le> length s"
    "if off = length s then valid_utf_loop s 0 (length s) = (0, None)
     else (\<exists>e. valid_utf_loop s 0 (length s) = (e, Some off) \<and> 0 < e \<and> e \<le> 21) \<and>
       (\<forall>c rest. scalar c \<longrightarrow> drop off s \<noteq> ord2utf c @ rest)"
    using valid_utf_loop_result [of 0 "length s" s] by auto
  then show thesis
    by (intro that [of cs off]) (auto simp: valid_utf_exact)
qed

lemma valid_utf_chars:
  "list_all scalar cs \<Longrightarrow> valid_utf (utf8_chars cs) (int (length (utf8_chars cs))) = (0, None)"
  using utf8_chars_append_accept [of cs "[]"] by (simp add: valid_utf_exact)

lemma valid_utf_accepts: 
  assumes "valid_utf s (int (length s)) = (0, None)"
  obtains cs where "list_all scalar cs" "s = utf8_chars cs"
proof (rule valid_utf_result [of s])
  fix cs off
  assume *: "list_all scalar cs" "s = utf8_chars cs @ drop off s" "off \<le> length s"
    "off < length s \<Longrightarrow> \<exists>e. valid_utf s (int (length s)) = (e, Some off) \<and> 0 < e \<and> e \<le> 21"
  have "off = length s" using *(3,4) assms by (cases "off < length s") auto
  with * have "s = utf8_chars cs" by simp
  with * show thesis by (intro that)
qed

subsection \<open>Moving in a checked string\<close>

lemma char_shape_cont:
  assumes "char_shape s p k" "0 < j" "j \<le> k"
  shows "cont_byte (rd s (p + j))"
proof -
  have "j = 1 \<or> j = 2 \<or> j = 3" "k \<le> 3"
    using assms by (auto elim: char_shape_cases)
  with assms show ?thesis by (auto elim!: char_shape_cases)
qed

lemma char_shape_lead: "char_shape s p k \<Longrightarrow> \<not> cont_byte (rd s p)"
  by (auto elim!: char_shape_cases simp: cont_byte_unat)

lemma utf8_chars_append: "utf8_chars (xs @ ys) = utf8_chars xs @ utf8_chars ys"
  by (simp add: utf8_chars_def)

lemma utf8_chars_shape:
  assumes "scalar c"
  shows "char_shape (utf8_chars xs @ ord2utf c @ ys) (length (utf8_chars xs)) (length (ord2utf c) - 1)"
  using assms by (rule char_shape_ord2utf)

lemma backchar_skip:
  assumes "\<And>i. 0 < i \<Longrightarrow> i \<le> j \<Longrightarrow> cont_byte (rd s (p + i))" "\<not> cont_byte (rd s p)"
  shows "backchar s (p + j) = p"
  using assms
proof (induction j)
  case 0
  then show ?case by (cases p) simp_all
next
  case (Suc j)
  then show ?case using Suc.prems(1) [of "Suc j"] by simp
qed

text \<open>Every offset inside a checked string lies in exactly one character.\<close>

lemma utf8_chars_locate:
  assumes "i < length (utf8_chars cs)"
  obtains xs c ys j where "cs = xs @ c # ys" "j < length (ord2utf c)" "i = length (utf8_chars xs) + j"
  using assms
proof (induction cs arbitrary: i thesis)
  case Nil
  then show ?case by simp
next
  case (Cons c cs)
  show ?case
  proof (cases "i < length (ord2utf c)")
    case True
    then show ?thesis by (intro Cons.prems(1) [of "[]" c cs i]) simp_all
  next
    case False
    then have "i - length (ord2utf c) < length (utf8_chars cs)" using Cons.prems(2) by simp
    then obtain xs d ys j where "cs = xs @ d # ys" "j < length (ord2utf d)"
      "i - length (ord2utf c) = length (utf8_chars xs) + j"
      using Cons.IH by blast
    with False show ?thesis by (intro Cons.prems(1) [of "c # xs" d ys j]) auto
  qed
qed

lemma utf8_chars_offset_cases:
  assumes "list_all scalar cs" "i < length (utf8_chars cs)"
  shows "(\<exists>k. char_shape (utf8_chars cs) i k \<and> i + k < length (utf8_chars cs)) \<or>
    cont_byte (rd (utf8_chars cs) i)"
proof -
  obtain xs c ys j where l: "cs = xs @ c # ys" "j < length (ord2utf c)"
    "i = length (utf8_chars xs) + j"
    using assms(2) by (rule utf8_chars_locate)
  have s: "utf8_chars cs = utf8_chars xs @ ord2utf c @ utf8_chars ys"
    by (simp add: l utf8_chars_append)
  have "scalar c" using assms(1) by (simp add: l)
  note sh = utf8_chars_shape [OF this, of xs "utf8_chars ys", folded s]
  show ?thesis
  proof (cases "j = 0")
    case True
    then have "j + (length (ord2utf c) - 1) < length (ord2utf c)" using l(2) by simp
    then have "length (utf8_chars xs) + (length (ord2utf c) - 1) < length (utf8_chars cs)"
      unfolding s by simp
    with sh True show ?thesis unfolding l(3) by auto
  next
    case False
    with l(2) show ?thesis unfolding l(3) by (intro disjI2 char_shape_cont [OF sh]) simp_all
  qed
qed

text \<open>No read passes the end of a checked string.\<close>

lemma getcharlen_bound:
  assumes "valid_utf s (int (length s)) = (0, None)" "i < length s"
  shows "i + snd (getcharlentest True s i) \<le> length s"
proof -
  obtain cs where cs: "list_all scalar cs" "s = utf8_chars cs"
    using assms(1) by (rule valid_utf_accepts)
  from utf8_chars_offset_cases [OF cs(1), folded cs(2), OF assms(2)] show ?thesis
  proof
    assume "\<exists>k. char_shape s i k \<and> i + k < length s"
    then show ?thesis by (auto simp: char_shape_decode)
  next
    assume "cont_byte (rd s i)"
    with assms(2) show ?thesis by (simp add: getcharlentest_def Let_def cont_byte_unat)
  qed
qed

lemma getcharinctest_bound:
  assumes "utf \<longrightarrow> valid_utf s (int (length s)) = (0, None)" "i < length s"
    and "getcharinctest utf s i = (c, j)"
  shows "i < j \<and> j \<le> length s"
  using assms getcharlen_bound [of s i]
  by (auto simp: getcharinctest_def getcharlentest_def Let_def split: if_splits prod.splits)

lemma backchar_le: "backchar s e \<le> e"
  by (induction e) auto

lemma acrosschar_bound: "e \<le> endp \<Longrightarrow> acrosschar s endp e \<le> endp"
proof (induction s endp e rule: acrosschar.induct)
  case (1 s endp e)
  then show ?case by (subst acrosschar.simps) auto
qed

subsection \<open>Properties\<close>

text \<open>C16: \<open>PRIV(valid_utf)\<close> returns 0 exactly on the concatenations of the UTF-8 encodings,
  as \<open>PRIV(ord2utf)\<close> writes them, of Unicode scalar values: overlong forms, surrogates, values
  above U+10FFFF, 5- and 6-byte forms, stray continuation bytes and truncated characters are
  all rejected and nothing else is.\<close>

theorem valid_utf_iff_scalar_values:
  "valid_utf s (int (length s)) = (0, None) \<longleftrightarrow> (\<exists>cs. list_all scalar cs \<and> s = utf8_chars cs)"
  using valid_utf_chars by (blast elim: valid_utf_accepts)

text \<open>C17: when the check fails, it returns an error code between 1 and 21 and stores the offset
  of the first character that is not valid: the bytes before it are a valid string, and no
  encoded scalar value starts there.\<close>

theorem valid_utf_error_offset:
  assumes "valid_utf s (int (length s)) = (e, Some off)"
  shows "0 < e \<and> e \<le> 21 \<and> off < length s \<and> valid_utf (take off s) (int off) = (0, None) \<and>
    (\<forall>c rest. scalar c \<longrightarrow> drop off s \<noteq> ord2utf c @ rest)"
proof (rule valid_utf_result [of s])
  fix cs off'
  assume *: "list_all scalar cs" "s = utf8_chars cs @ drop off' s" "off' \<le> length s"
    "off' = length s \<Longrightarrow> valid_utf s (int (length s)) = (0, None)"
    "off' < length s \<Longrightarrow> \<exists>e. valid_utf s (int (length s)) = (e, Some off') \<and> 0 < e \<and> e \<le> 21"
    "off' < length s \<Longrightarrow> \<forall>c rest. scalar c \<longrightarrow> drop off' s \<noteq> ord2utf c @ rest"
  with assms have "off' < length s" by (cases "off' = length s") simp_all
  with * assms have off: "off = off'" "0 < e" "e \<le> 21" by auto
  have "take off' s = utf8_chars cs"
    using *(2) by (metis append_take_drop_id append_same_eq)
  moreover have "length (take off' s) = off'" using *(3) by simp
  ultimately show ?thesis
    using off \<open>off' < length s\<close> * valid_utf_chars [OF *(1)] by auto
qed

theorem valid_utf_error_offset_witness:
  "valid_utf [0x61, 0xed, 0xa0, 0x80] 4 = (14, Some 1) \<and>
    valid_utf (take 1 [0x61, 0xed, 0xa0, 0x80]) 1 = (0, None)"
proof -
  have "valid_utf [0x61, 0xed, 0xa0, 0x80] (int (length [0x61, 0xed, 0xa0, 0x80 :: byte])) = (14, Some 1)"
    by code_simp
  from valid_utf_error_offset [OF this] this show ?thesis by simp
qed

text \<open>C18: the \<open>GETCHARINC\<close> macros read back every character value that \<open>PRIV(ord2utf)\<close> can
  write, the values of the original 31-bit format included, and leave the pointer just after
  its last byte, whatever surrounds it.\<close>

theorem getcharinc_ord2utf:
  assumes "c < 2 ^ 31"
  shows "getcharinctest True (xs @ ord2utf c @ ys) (length xs) = (c, length (xs @ ord2utf c))"
  using getcharlentest_ord2utf [OF assms] by (simp add: getcharinctest_def)

theorem getcharinc_ord2utf_witness:
  "getcharinctest True ([0x41] @ ord2utf 0x20ac @ [0x42]) 1 = (0x20ac, 4)"
proof -
  have "length ([0x41] @ ord2utf 0x20ac) = 4" by (simp add: ord2utf_eq utf8_bytes_def)
  moreover have "(0x20ac :: nat) < 2 ^ 31" by simp
  ultimately show ?thesis using getcharinc_ord2utf [of "0x20ac" "[0x41]" "[0x42]"] by simp
qed

text \<open>C19: on a checked string \<open>BACKCHAR\<close> moves a pointer into the middle of a character back
  to its first byte, and leaves a pointer to a first byte alone.\<close>

theorem backchar_start:
  assumes "list_all scalar (xs @ c # ys)" "j < length (ord2utf c)"
  shows "backchar (utf8_chars (xs @ c # ys)) (length (utf8_chars xs) + j) = length (utf8_chars xs)"
proof -
  have "scalar c" using assms(1) by simp
  note sh = utf8_chars_shape [OF this, of xs "utf8_chars ys"]
  have "backchar (utf8_chars xs @ ord2utf c @ utf8_chars ys) (length (utf8_chars xs) + j) =
    length (utf8_chars xs)"
    using assms(2) by (intro backchar_skip char_shape_cont [OF sh] char_shape_lead [OF sh]) simp_all
  then show ?thesis by (simp add: utf8_chars_append)
qed

theorem backchar_start_witness:
  "backchar (utf8_chars [0x41, 0x20ac, 0x42]) 3 = 1"
proof -
  have "list_all scalar ([0x41] @ 0x20ac # [0x42])" "2 < length (ord2utf 0x20ac)"
    "length (utf8_chars [0x41]) = 1" by (simp_all add: ord2utf_eq utf8_bytes_def scalar_def)
  then show ?thesis using backchar_start [of "[0x41]" "0x20ac" "[0x42]" 2]
    by (simp del: backchar.simps add: numeral_3_eq_3)
qed

text \<open>C20: on a checked string no \<open>GETCHAR\<close> macro reads past the end, from whatever offset it
  is used, even from the middle of a character: this is why \<open>PCRE_NO_UTF8_CHECK\<close> is only
  safe for strings that have been checked.\<close>

theorem getcharlen_in_bounds:
  assumes "valid_utf s (int (length s)) = (0, None)" "i < length s"
  shows "i + snd (getcharlentest True s i) \<le> length s"
  using assms by (rule getcharlen_bound)

theorem getcharlen_in_bounds_witness:
  "snd (getcharlentest True [0x41, 0xe2, 0x82, 0xac] 1) \<le> 3"
proof -
  have "valid_utf [0x41, 0xe2, 0x82, 0xac] (int (length [0x41, 0xe2, 0x82, 0xac :: byte])) = (0, None)"
    by code_simp
  from getcharlen_in_bounds [OF this, of 1] show ?thesis by simp
qed

end
