(* ===== verification/Opcodes.thy ===== *)
theory Opcodes
  imports Prelude "HOL-Library.More_List"
begin

text \<open>
  The compiled form of a pattern: the opcodes of \<open>pcre_internal.h\<close> with their numbers, the
  table \<open>OP_lengths\<close> of their lengths, the access macros \<open>GET\<close>, \<open>GET2\<close> and \<open>PUT\<close> of the 8-bit
  library built with two-byte links, and the numbers of the options, return codes and
  character-type bits that the modules share. Opcode numbers are compared and subtracted by
  the code, so they are numbers here too; the code is a list of bytes and a position in it
  a \<open>nat\<close>. The lemmas give the range of \<open>GET\<close> and its round trip with \<open>PUT\<close>, and walk the
  alternatives of a group.
\<close>

subsection \<open>Opcode numbers\<close>

abbreviation (input) OP_END :: nat where "OP_END \<equiv> 0"
abbreviation (input) OP_SOD :: nat where "OP_SOD \<equiv> 1"
abbreviation (input) OP_SOM :: nat where "OP_SOM \<equiv> 2"
abbreviation (input) OP_SET_SOM :: nat where "OP_SET_SOM \<equiv> 3"
abbreviation (input) OP_NOT_WORD_BOUNDARY :: nat where "OP_NOT_WORD_BOUNDARY \<equiv> 4"
abbreviation (input) OP_WORD_BOUNDARY :: nat where "OP_WORD_BOUNDARY \<equiv> 5"
abbreviation (input) OP_NOT_DIGIT :: nat where "OP_NOT_DIGIT \<equiv> 6"
abbreviation (input) OP_DIGIT :: nat where "OP_DIGIT \<equiv> 7"
abbreviation (input) OP_NOT_WHITESPACE :: nat where "OP_NOT_WHITESPACE \<equiv> 8"
abbreviation (input) OP_WHITESPACE :: nat where "OP_WHITESPACE \<equiv> 9"
abbreviation (input) OP_NOT_WORDCHAR :: nat where "OP_NOT_WORDCHAR \<equiv> 10"
abbreviation (input) OP_WORDCHAR :: nat where "OP_WORDCHAR \<equiv> 11"
abbreviation (input) OP_ANY :: nat where "OP_ANY \<equiv> 12"
abbreviation (input) OP_ALLANY :: nat where "OP_ALLANY \<equiv> 13"
abbreviation (input) OP_ANYBYTE :: nat where "OP_ANYBYTE \<equiv> 14"
abbreviation (input) OP_NOTPROP :: nat where "OP_NOTPROP \<equiv> 15"
abbreviation (input) OP_PROP :: nat where "OP_PROP \<equiv> 16"
abbreviation (input) OP_ANYNL :: nat where "OP_ANYNL \<equiv> 17"
abbreviation (input) OP_NOT_HSPACE :: nat where "OP_NOT_HSPACE \<equiv> 18"
abbreviation (input) OP_HSPACE :: nat where "OP_HSPACE \<equiv> 19"
abbreviation (input) OP_NOT_VSPACE :: nat where "OP_NOT_VSPACE \<equiv> 20"
abbreviation (input) OP_VSPACE :: nat where "OP_VSPACE \<equiv> 21"
abbreviation (input) OP_EXTUNI :: nat where "OP_EXTUNI \<equiv> 22"
abbreviation (input) OP_EODN :: nat where "OP_EODN \<equiv> 23"
abbreviation (input) OP_EOD :: nat where "OP_EOD \<equiv> 24"
abbreviation (input) OP_DOLL :: nat where "OP_DOLL \<equiv> 25"
abbreviation (input) OP_DOLLM :: nat where "OP_DOLLM \<equiv> 26"
abbreviation (input) OP_CIRC :: nat where "OP_CIRC \<equiv> 27"
abbreviation (input) OP_CIRCM :: nat where "OP_CIRCM \<equiv> 28"
abbreviation (input) OP_CHAR :: nat where "OP_CHAR \<equiv> 29"
abbreviation (input) OP_CHARI :: nat where "OP_CHARI \<equiv> 30"
abbreviation (input) OP_NOT :: nat where "OP_NOT \<equiv> 31"
abbreviation (input) OP_NOTI :: nat where "OP_NOTI \<equiv> 32"
abbreviation (input) OP_STAR :: nat where "OP_STAR \<equiv> 33"
abbreviation (input) OP_MINSTAR :: nat where "OP_MINSTAR \<equiv> 34"
abbreviation (input) OP_PLUS :: nat where "OP_PLUS \<equiv> 35"
abbreviation (input) OP_MINPLUS :: nat where "OP_MINPLUS \<equiv> 36"
abbreviation (input) OP_QUERY :: nat where "OP_QUERY \<equiv> 37"
abbreviation (input) OP_MINQUERY :: nat where "OP_MINQUERY \<equiv> 38"
abbreviation (input) OP_UPTO :: nat where "OP_UPTO \<equiv> 39"
abbreviation (input) OP_MINUPTO :: nat where "OP_MINUPTO \<equiv> 40"
abbreviation (input) OP_EXACT :: nat where "OP_EXACT \<equiv> 41"
abbreviation (input) OP_POSSTAR :: nat where "OP_POSSTAR \<equiv> 42"
abbreviation (input) OP_POSPLUS :: nat where "OP_POSPLUS \<equiv> 43"
abbreviation (input) OP_POSQUERY :: nat where "OP_POSQUERY \<equiv> 44"
abbreviation (input) OP_POSUPTO :: nat where "OP_POSUPTO \<equiv> 45"
abbreviation (input) OP_STARI :: nat where "OP_STARI \<equiv> 46"
abbreviation (input) OP_MINSTARI :: nat where "OP_MINSTARI \<equiv> 47"
abbreviation (input) OP_PLUSI :: nat where "OP_PLUSI \<equiv> 48"
abbreviation (input) OP_MINPLUSI :: nat where "OP_MINPLUSI \<equiv> 49"
abbreviation (input) OP_QUERYI :: nat where "OP_QUERYI \<equiv> 50"
abbreviation (input) OP_MINQUERYI :: nat where "OP_MINQUERYI \<equiv> 51"
abbreviation (input) OP_UPTOI :: nat where "OP_UPTOI \<equiv> 52"
abbreviation (input) OP_MINUPTOI :: nat where "OP_MINUPTOI \<equiv> 53"
abbreviation (input) OP_EXACTI :: nat where "OP_EXACTI \<equiv> 54"
abbreviation (input) OP_POSSTARI :: nat where "OP_POSSTARI \<equiv> 55"
abbreviation (input) OP_POSPLUSI :: nat where "OP_POSPLUSI \<equiv> 56"
abbreviation (input) OP_POSQUERYI :: nat where "OP_POSQUERYI \<equiv> 57"
abbreviation (input) OP_POSUPTOI :: nat where "OP_POSUPTOI \<equiv> 58"
abbreviation (input) OP_NOTSTAR :: nat where "OP_NOTSTAR \<equiv> 59"
abbreviation (input) OP_NOTMINSTAR :: nat where "OP_NOTMINSTAR \<equiv> 60"
abbreviation (input) OP_NOTPLUS :: nat where "OP_NOTPLUS \<equiv> 61"
abbreviation (input) OP_NOTMINPLUS :: nat where "OP_NOTMINPLUS \<equiv> 62"
abbreviation (input) OP_NOTQUERY :: nat where "OP_NOTQUERY \<equiv> 63"
abbreviation (input) OP_NOTMINQUERY :: nat where "OP_NOTMINQUERY \<equiv> 64"
abbreviation (input) OP_NOTUPTO :: nat where "OP_NOTUPTO \<equiv> 65"
abbreviation (input) OP_NOTMINUPTO :: nat where "OP_NOTMINUPTO \<equiv> 66"
abbreviation (input) OP_NOTEXACT :: nat where "OP_NOTEXACT \<equiv> 67"
abbreviation (input) OP_NOTPOSSTAR :: nat where "OP_NOTPOSSTAR \<equiv> 68"
abbreviation (input) OP_NOTPOSPLUS :: nat where "OP_NOTPOSPLUS \<equiv> 69"
abbreviation (input) OP_NOTPOSQUERY :: nat where "OP_NOTPOSQUERY \<equiv> 70"
abbreviation (input) OP_NOTPOSUPTO :: nat where "OP_NOTPOSUPTO \<equiv> 71"
abbreviation (input) OP_NOTSTARI :: nat where "OP_NOTSTARI \<equiv> 72"
abbreviation (input) OP_NOTMINSTARI :: nat where "OP_NOTMINSTARI \<equiv> 73"
abbreviation (input) OP_NOTPLUSI :: nat where "OP_NOTPLUSI \<equiv> 74"
abbreviation (input) OP_NOTMINPLUSI :: nat where "OP_NOTMINPLUSI \<equiv> 75"
abbreviation (input) OP_NOTQUERYI :: nat where "OP_NOTQUERYI \<equiv> 76"
abbreviation (input) OP_NOTMINQUERYI :: nat where "OP_NOTMINQUERYI \<equiv> 77"
abbreviation (input) OP_NOTUPTOI :: nat where "OP_NOTUPTOI \<equiv> 78"
abbreviation (input) OP_NOTMINUPTOI :: nat where "OP_NOTMINUPTOI \<equiv> 79"
abbreviation (input) OP_NOTEXACTI :: nat where "OP_NOTEXACTI \<equiv> 80"
abbreviation (input) OP_NOTPOSSTARI :: nat where "OP_NOTPOSSTARI \<equiv> 81"
abbreviation (input) OP_NOTPOSPLUSI :: nat where "OP_NOTPOSPLUSI \<equiv> 82"
abbreviation (input) OP_NOTPOSQUERYI :: nat where "OP_NOTPOSQUERYI \<equiv> 83"
abbreviation (input) OP_NOTPOSUPTOI :: nat where "OP_NOTPOSUPTOI \<equiv> 84"
abbreviation (input) OP_TYPESTAR :: nat where "OP_TYPESTAR \<equiv> 85"
abbreviation (input) OP_TYPEMINSTAR :: nat where "OP_TYPEMINSTAR \<equiv> 86"
abbreviation (input) OP_TYPEPLUS :: nat where "OP_TYPEPLUS \<equiv> 87"
abbreviation (input) OP_TYPEMINPLUS :: nat where "OP_TYPEMINPLUS \<equiv> 88"
abbreviation (input) OP_TYPEQUERY :: nat where "OP_TYPEQUERY \<equiv> 89"
abbreviation (input) OP_TYPEMINQUERY :: nat where "OP_TYPEMINQUERY \<equiv> 90"
abbreviation (input) OP_TYPEUPTO :: nat where "OP_TYPEUPTO \<equiv> 91"
abbreviation (input) OP_TYPEMINUPTO :: nat where "OP_TYPEMINUPTO \<equiv> 92"
abbreviation (input) OP_TYPEEXACT :: nat where "OP_TYPEEXACT \<equiv> 93"
abbreviation (input) OP_TYPEPOSSTAR :: nat where "OP_TYPEPOSSTAR \<equiv> 94"
abbreviation (input) OP_TYPEPOSPLUS :: nat where "OP_TYPEPOSPLUS \<equiv> 95"
abbreviation (input) OP_TYPEPOSQUERY :: nat where "OP_TYPEPOSQUERY \<equiv> 96"
abbreviation (input) OP_TYPEPOSUPTO :: nat where "OP_TYPEPOSUPTO \<equiv> 97"
abbreviation (input) OP_CRSTAR :: nat where "OP_CRSTAR \<equiv> 98"
abbreviation (input) OP_CRMINSTAR :: nat where "OP_CRMINSTAR \<equiv> 99"
abbreviation (input) OP_CRPLUS :: nat where "OP_CRPLUS \<equiv> 100"
abbreviation (input) OP_CRMINPLUS :: nat where "OP_CRMINPLUS \<equiv> 101"
abbreviation (input) OP_CRQUERY :: nat where "OP_CRQUERY \<equiv> 102"
abbreviation (input) OP_CRMINQUERY :: nat where "OP_CRMINQUERY \<equiv> 103"
abbreviation (input) OP_CRRANGE :: nat where "OP_CRRANGE \<equiv> 104"
abbreviation (input) OP_CRMINRANGE :: nat where "OP_CRMINRANGE \<equiv> 105"
abbreviation (input) OP_CRPOSSTAR :: nat where "OP_CRPOSSTAR \<equiv> 106"
abbreviation (input) OP_CRPOSPLUS :: nat where "OP_CRPOSPLUS \<equiv> 107"
abbreviation (input) OP_CRPOSQUERY :: nat where "OP_CRPOSQUERY \<equiv> 108"
abbreviation (input) OP_CRPOSRANGE :: nat where "OP_CRPOSRANGE \<equiv> 109"
abbreviation (input) OP_CLASS :: nat where "OP_CLASS \<equiv> 110"
abbreviation (input) OP_NCLASS :: nat where "OP_NCLASS \<equiv> 111"
abbreviation (input) OP_XCLASS :: nat where "OP_XCLASS \<equiv> 112"
abbreviation (input) OP_REF :: nat where "OP_REF \<equiv> 113"
abbreviation (input) OP_REFI :: nat where "OP_REFI \<equiv> 114"
abbreviation (input) OP_DNREF :: nat where "OP_DNREF \<equiv> 115"
abbreviation (input) OP_DNREFI :: nat where "OP_DNREFI \<equiv> 116"
abbreviation (input) OP_RECURSE :: nat where "OP_RECURSE \<equiv> 117"
abbreviation (input) OP_CALLOUT :: nat where "OP_CALLOUT \<equiv> 118"
abbreviation (input) OP_ALT :: nat where "OP_ALT \<equiv> 119"
abbreviation (input) OP_KET :: nat where "OP_KET \<equiv> 120"
abbreviation (input) OP_KETRMAX :: nat where "OP_KETRMAX \<equiv> 121"
abbreviation (input) OP_KETRMIN :: nat where "OP_KETRMIN \<equiv> 122"
abbreviation (input) OP_KETRPOS :: nat where "OP_KETRPOS \<equiv> 123"
abbreviation (input) OP_REVERSE :: nat where "OP_REVERSE \<equiv> 124"
abbreviation (input) OP_ASSERT :: nat where "OP_ASSERT \<equiv> 125"
abbreviation (input) OP_ASSERT_NOT :: nat where "OP_ASSERT_NOT \<equiv> 126"
abbreviation (input) OP_ASSERTBACK :: nat where "OP_ASSERTBACK \<equiv> 127"
abbreviation (input) OP_ASSERTBACK_NOT :: nat where "OP_ASSERTBACK_NOT \<equiv> 128"
abbreviation (input) OP_ONCE :: nat where "OP_ONCE \<equiv> 129"
abbreviation (input) OP_ONCE_NC :: nat where "OP_ONCE_NC \<equiv> 130"
abbreviation (input) OP_BRA :: nat where "OP_BRA \<equiv> 131"
abbreviation (input) OP_BRAPOS :: nat where "OP_BRAPOS \<equiv> 132"
abbreviation (input) OP_CBRA :: nat where "OP_CBRA \<equiv> 133"
abbreviation (input) OP_CBRAPOS :: nat where "OP_CBRAPOS \<equiv> 134"
abbreviation (input) OP_COND :: nat where "OP_COND \<equiv> 135"
abbreviation (input) OP_SBRA :: nat where "OP_SBRA \<equiv> 136"
abbreviation (input) OP_SBRAPOS :: nat where "OP_SBRAPOS \<equiv> 137"
abbreviation (input) OP_SCBRA :: nat where "OP_SCBRA \<equiv> 138"
abbreviation (input) OP_SCBRAPOS :: nat where "OP_SCBRAPOS \<equiv> 139"
abbreviation (input) OP_SCOND :: nat where "OP_SCOND \<equiv> 140"
abbreviation (input) OP_CREF :: nat where "OP_CREF \<equiv> 141"
abbreviation (input) OP_DNCREF :: nat where "OP_DNCREF \<equiv> 142"
abbreviation (input) OP_RREF :: nat where "OP_RREF \<equiv> 143"
abbreviation (input) OP_DNRREF :: nat where "OP_DNRREF \<equiv> 144"
abbreviation (input) OP_DEF :: nat where "OP_DEF \<equiv> 145"
abbreviation (input) OP_BRAZERO :: nat where "OP_BRAZERO \<equiv> 146"
abbreviation (input) OP_BRAMINZERO :: nat where "OP_BRAMINZERO \<equiv> 147"
abbreviation (input) OP_BRAPOSZERO :: nat where "OP_BRAPOSZERO \<equiv> 148"
abbreviation (input) OP_MARK :: nat where "OP_MARK \<equiv> 149"
abbreviation (input) OP_PRUNE :: nat where "OP_PRUNE \<equiv> 150"
abbreviation (input) OP_PRUNE_ARG :: nat where "OP_PRUNE_ARG \<equiv> 151"
abbreviation (input) OP_SKIP :: nat where "OP_SKIP \<equiv> 152"
abbreviation (input) OP_SKIP_ARG :: nat where "OP_SKIP_ARG \<equiv> 153"
abbreviation (input) OP_THEN :: nat where "OP_THEN \<equiv> 154"
abbreviation (input) OP_THEN_ARG :: nat where "OP_THEN_ARG \<equiv> 155"
abbreviation (input) OP_COMMIT :: nat where "OP_COMMIT \<equiv> 156"
abbreviation (input) OP_FAIL :: nat where "OP_FAIL \<equiv> 157"
abbreviation (input) OP_ACCEPT :: nat where "OP_ACCEPT \<equiv> 158"
abbreviation (input) OP_ASSERT_ACCEPT :: nat where "OP_ASSERT_ACCEPT \<equiv> 159"
abbreviation (input) OP_CLOSE :: nat where "OP_CLOSE \<equiv> 160"
abbreviation (input) OP_SKIPZERO :: nat where "OP_SKIPZERO \<equiv> 161"

definition OP_lengths :: "nat list" where
  "OP_lengths =
    [1,1,1,1,1,1,1,1,1,1,1,1,1,1,1,3,3,1,1,1,1,1,1,1,
     1,1,1,1,1,2,2,2,2,2,2,2,2,2,2,4,4,4,2,2,2,4,2,2,
     2,2,2,2,4,4,4,2,2,2,4,2,2,2,2,2,2,4,4,4,2,2,2,4,
     2,2,2,2,2,2,4,4,4,2,2,2,4,2,2,2,2,2,2,4,4,4,2,2,
     2,4,1,1,1,1,1,1,5,5,1,1,1,5,33,33,0,3,3,5,5,3,6,3,
     3,3,3,3,3,3,3,3,3,3,3,3,3,5,5,3,3,3,5,5,3,3,5,3,
     5,1,1,1,1,3,1,3,1,3,1,3,1,1,1,1,3,1]"

definition op_length :: "nat \<Rightarrow> nat" where
  "op_length op = nth_default 0 OP_lengths op"

abbreviation (input) LINK_SIZE :: nat where "LINK_SIZE \<equiv> 2"
abbreviation (input) IMM2_SIZE :: nat where "IMM2_SIZE \<equiv> 2"
abbreviation (input) RREF_ANY :: nat where "RREF_ANY \<equiv> 0xffff"

subsection \<open>Access macros\<close>

text \<open>The opcode at a position, and the two-byte big-endian numbers of \<open>GET\<close> and \<open>GET2\<close>.\<close>

definition opc :: "byte list \<Rightarrow> nat \<Rightarrow> nat" where
  "opc code p = unat (rd code p)"

definition GET :: "byte list \<Rightarrow> nat \<Rightarrow> nat \<Rightarrow> nat" where
  "GET code p n = push_bit 8 (unat (rd code (p + n))) OR unat (rd code (p + n + 1))"

definition GET2 :: "byte list \<Rightarrow> nat \<Rightarrow> nat \<Rightarrow> nat" where
  "GET2 code p n = push_bit 8 (unat (rd code (p + n))) OR unat (rd code (p + n + 1))"

definition PUT :: "byte list \<Rightarrow> nat \<Rightarrow> nat \<Rightarrow> nat \<Rightarrow> byte list" where
  "PUT code p n d = code[p + n := to_byte (drop_bit 8 d), p + n + 1 := to_byte (d AND 255)]"

lemma GET_eq: "GET code p n = unat (rd code (p + n)) * 256 + unat (rd code (p + n + 1))"
  using nat_shift_or [of "unat (rd code (p + n + 1))" 8 "unat (rd code (p + n))"]
  by (simp add: GET_def)

lemma GET2_GET: "GET2 = GET"
  by (intro ext) (simp add: GET_def GET2_def)

lemma GET_less: "GET code p n < 65536"
proof -
  have lim: "x < 256 \<Longrightarrow> y < 256 \<Longrightarrow> x * 256 + y < 65536" for x y :: nat
    by simp
  show ?thesis unfolding GET_eq by (rule lim) simp_all
qed

lemma op_lengths_length: "length OP_lengths = Suc OP_SKIPZERO"
  by (simp add: OP_lengths_def)

lemma GET_PUT:
  assumes "p + n + 1 < length code" "d < 65536"
  shows "GET (PUT code p n d) p n = d"
proof -
  have "d AND 255 = d mod 256" using nat_and_mask [of d 8] by simp
  moreover have "d div 256 < 256" using assms(2) by simp
  ultimately show ?thesis
    using assms(1) by (simp add: GET_eq PUT_def rd_def drop_bit_eq_div)
qed

lemma GET_PUT_other:
  assumes "q + m + 1 < p + n \<or> p + n + 1 < q + m"
  shows "GET (PUT code p n d) q m = GET code q m"
  using assms by (auto simp: GET_eq PUT_def rd_def)

lemma length_PUT [simp]: "length (PUT code p n d) = length code"
  by (simp add: PUT_def)

subsection \<open>Return codes, options and character types\<close>

abbreviation (input) MATCH_MATCH :: int where "MATCH_MATCH \<equiv> 1"
abbreviation (input) MATCH_NOMATCH :: int where "MATCH_NOMATCH \<equiv> 0"
abbreviation (input) MATCH_ACCEPT :: int where "MATCH_ACCEPT \<equiv> -999"
abbreviation (input) MATCH_KETRPOS :: int where "MATCH_KETRPOS \<equiv> -998"
abbreviation (input) MATCH_ONCE :: int where "MATCH_ONCE \<equiv> -997"
abbreviation (input) MATCH_COMMIT :: int where "MATCH_COMMIT \<equiv> -996"
abbreviation (input) MATCH_PRUNE :: int where "MATCH_PRUNE \<equiv> -995"
abbreviation (input) MATCH_SKIP :: int where "MATCH_SKIP \<equiv> -994"
abbreviation (input) MATCH_SKIP_ARG :: int where "MATCH_SKIP_ARG \<equiv> -993"
abbreviation (input) MATCH_THEN :: int where "MATCH_THEN \<equiv> -992"
abbreviation (input) MATCH_BACKTRACK_MIN :: int where "MATCH_BACKTRACK_MIN \<equiv> -996"
abbreviation (input) MATCH_BACKTRACK_MAX :: int where "MATCH_BACKTRACK_MAX \<equiv> -992"
abbreviation (input) MATCH_CONDASSERT :: nat where "MATCH_CONDASSERT \<equiv> 1"
abbreviation (input) MATCH_CBEGROUP :: nat where "MATCH_CBEGROUP \<equiv> 2"

abbreviation (input) PCRE_ERROR_NOMATCH :: int where "PCRE_ERROR_NOMATCH \<equiv> -1"
abbreviation (input) PCRE_ERROR_NULL :: int where "PCRE_ERROR_NULL \<equiv> -2"
abbreviation (input) PCRE_ERROR_BADOPTION :: int where "PCRE_ERROR_BADOPTION \<equiv> -3"
abbreviation (input) PCRE_ERROR_BADMAGIC :: int where "PCRE_ERROR_BADMAGIC \<equiv> -4"
abbreviation (input) PCRE_ERROR_UNKNOWN_OPCODE :: int where "PCRE_ERROR_UNKNOWN_OPCODE \<equiv> -5"
abbreviation (input) PCRE_ERROR_NOMEMORY :: int where "PCRE_ERROR_NOMEMORY \<equiv> -6"
abbreviation (input) PCRE_ERROR_NOSUBSTRING :: int where "PCRE_ERROR_NOSUBSTRING \<equiv> -7"
abbreviation (input) PCRE_ERROR_MATCHLIMIT :: int where "PCRE_ERROR_MATCHLIMIT \<equiv> -8"
abbreviation (input) PCRE_ERROR_PARTIAL :: int where "PCRE_ERROR_PARTIAL \<equiv> -12"
abbreviation (input) PCRE_ERROR_INTERNAL :: int where "PCRE_ERROR_INTERNAL \<equiv> -14"
abbreviation (input) PCRE_ERROR_RECURSIONLIMIT :: int where "PCRE_ERROR_RECURSIONLIMIT \<equiv> -21"
abbreviation (input) PCRE_ERROR_RECURSELOOP :: int where "PCRE_ERROR_RECURSELOOP \<equiv> -26"
abbreviation (input) PCRE_ERROR_BADMODE :: int where "PCRE_ERROR_BADMODE \<equiv> -28"
abbreviation (input) PCRE_ERROR_BADUTF8 :: int where "PCRE_ERROR_BADUTF8 \<equiv> -10"
abbreviation (input) PCRE_ERROR_BADUTF8_OFFSET :: int where "PCRE_ERROR_BADUTF8_OFFSET \<equiv> -11"
abbreviation (input) PCRE_ERROR_BADPARTIAL :: int where "PCRE_ERROR_BADPARTIAL \<equiv> -13"
abbreviation (input) PCRE_ERROR_BADCOUNT :: int where "PCRE_ERROR_BADCOUNT \<equiv> -15"
abbreviation (input) PCRE_ERROR_BADNEWLINE :: int where "PCRE_ERROR_BADNEWLINE \<equiv> -23"
abbreviation (input) PCRE_ERROR_BADOFFSET :: int where "PCRE_ERROR_BADOFFSET \<equiv> -24"
abbreviation (input) PCRE_ERROR_SHORTUTF8 :: int where "PCRE_ERROR_SHORTUTF8 \<equiv> -25"
abbreviation (input) PCRE_ERROR_JIT_STACKLIMIT :: int where "PCRE_ERROR_JIT_STACKLIMIT \<equiv> -27"
abbreviation (input) PCRE_ERROR_BADENDIANNESS :: int where "PCRE_ERROR_BADENDIANNESS \<equiv> -29"
abbreviation (input) PCRE_ERROR_JIT_BADOPTION :: int where "PCRE_ERROR_JIT_BADOPTION \<equiv> -31"
abbreviation (input) PCRE_ERROR_BADLENGTH :: int where "PCRE_ERROR_BADLENGTH \<equiv> -32"
abbreviation (input) PCRE_ERROR_UNSET :: int where "PCRE_ERROR_UNSET \<equiv> -33"

abbreviation (input) CAPLMASK :: nat where "CAPLMASK \<equiv> 0x0000ffff"
abbreviation (input) OVFLMASK :: nat where "OVFLMASK \<equiv> 0xffff0000"
abbreviation (input) OVFLBIT :: nat where "OVFLBIT \<equiv> 0x00010000"

abbreviation (input) ctype_space :: nat where "ctype_space \<equiv> 0x01"
abbreviation (input) ctype_letter :: nat where "ctype_letter \<equiv> 0x02"
abbreviation (input) ctype_digit :: nat where "ctype_digit \<equiv> 0x04"
abbreviation (input) ctype_xdigit :: nat where "ctype_xdigit \<equiv> 0x08"
abbreviation (input) ctype_word :: nat where "ctype_word \<equiv> 0x10"
abbreviation (input) ctype_meta :: nat where "ctype_meta \<equiv> 0x80"

abbreviation (input) INT_MAX :: nat where "INT_MAX \<equiv> 0x7fffffff"

subsection \<open>The alternatives of a group\<close>

text \<open>
  \<open>do ecode += GET(ecode, 1); while (*ecode == OP_ALT);\<close> -- from a bracket or an
  \<open>OP_ALT\<close> to the \<open>OP_KET\<close> of its group. A link of zero, with which the C loop would not
  move, and a link out of the code are the result \<open>None\<close>: no compiled pattern has them.
\<close>

function skip_alts :: "byte list \<Rightarrow> nat \<Rightarrow> nat option" where
  "skip_alts code ec =
    (let next = ec + GET code ec 1 in
     if next \<le> ec \<or> length code \<le> next then None
     else if opc code next = OP_ALT then skip_alts code next
     else Some next)"
  by pat_completeness auto
termination
  by (relation "measure (\<lambda>(code, ec). length code - ec)") auto

declare skip_alts.simps [simp del]

lemma skip_alts_SomeD:
  "skip_alts code ec = Some ket \<Longrightarrow> ec < ket \<and> ket < length code \<and> opc code ket \<noteq> OP_ALT"
proof (induction code ec rule: skip_alts.induct)
  case (1 code ec)
  then show ?case
    by (subst (asm) (2) skip_alts.simps) (fastforce simp: Let_def split: if_splits)
qed

end
