(* ===== verification/Unicode.thy ===== *)
theory Unicode
  imports Utf8 "HOL-Library.More_List"
begin

text \<open>
  Unicode properties and extended classes: the access macros of \<open>pcre_internal.h\<close> to the
  Unicode database, the tables \<open>ucp_gentype\<close> and \<open>ucp_gbtable\<close> of \<open>pcre_tables.c\<close>, the white
  space cases, and the matcher \<open>PRIV(xclass)\<close> of \<open>pcre_xclass.c\<close>. The data of the database
  (\<open>pcre_ucd.c\<close>, generated from the Unicode files) are a record of tables that the
  definitions take as an argument; every theorem holds for any contents of the tables.
\<close>

subsection \<open>The Unicode database\<close>

record ucd_record =
  script :: nat
  chartype :: nat
  gbprop :: nat
  caseset :: nat
  other_case :: int

record ucd_tables =
  ucd_stage1 :: "nat list"
  ucd_stage2 :: "nat list"
  ucd_records :: "ucd_record list"
  ucd_caseless_sets :: "nat list"

definition no_ucd :: ucd_record where
  "no_ucd = \<lparr>script = 0, chartype = 2, gbprop = 12, caseset = 0, other_case = 0\<rparr>"

text \<open>\<open>GET_UCD\<close>; an index outside the tables, which no character of a checked string has, gives
  an unassigned character.\<close>

definition GET_UCD :: "ucd_tables \<Rightarrow> cchar \<Rightarrow> ucd_record" where
  "GET_UCD T ch =
    nth_default no_ucd (ucd_records T)
      (nth_default 0 (ucd_stage2 T) (nth_default 0 (ucd_stage1 T) (ch div 128) * 128 + ch mod 128))"

abbreviation (input) ucp_C :: nat where "ucp_C \<equiv> 0"
abbreviation (input) ucp_L :: nat where "ucp_L \<equiv> 1"
abbreviation (input) ucp_M :: nat where "ucp_M \<equiv> 2"
abbreviation (input) ucp_N :: nat where "ucp_N \<equiv> 3"
abbreviation (input) ucp_P :: nat where "ucp_P \<equiv> 4"
abbreviation (input) ucp_S :: nat where "ucp_S \<equiv> 5"
abbreviation (input) ucp_Z :: nat where "ucp_Z \<equiv> 6"
abbreviation (input) ucp_Cf :: nat where "ucp_Cf \<equiv> 1"
abbreviation (input) ucp_Ll :: nat where "ucp_Ll \<equiv> 5"
abbreviation (input) ucp_Lt :: nat where "ucp_Lt \<equiv> 8"
abbreviation (input) ucp_Lu :: nat where "ucp_Lu \<equiv> 9"
abbreviation (input) ucp_Zl :: nat where "ucp_Zl \<equiv> 27"
abbreviation (input) ucp_Zp :: nat where "ucp_Zp \<equiv> 28"

definition ucp_gentype :: "nat list" where
  "ucp_gentype = [0,0,0,0,0, 1,1,1,1,1, 2,2,2, 3,3,3, 4,4,4,4,4, 4,4, 5,5,5,5, 6,6,6]"

text \<open>\<open>ucp_gbtable\<close>, each word as the list of the properties whose bits are set: CR 0, LF 1,
  Control 2, Extend 3, Prepend 4, SpacingMark 5, L 6, V 7, T 8, LV 9, LVT 10,
  RegionalIndicator 11, Other 12.\<close>

definition ucp_gbtable :: "nat list list" where
  "ucp_gbtable =
    [[1], [], [], [3, 5], [3, 4, 5, 6, 7, 8, 9, 10, 12], [3, 5], [3, 5, 6, 7, 9, 10], [3, 5, 7, 8],
     [3, 5, 8], [3, 5, 7, 8], [3, 5, 8], [11], [3, 5]]"

definition gb_no_break :: "nat \<Rightarrow> nat \<Rightarrow> bool" where
  "gb_no_break lgb rgb \<longleftrightarrow> rgb \<in> set (nth_default [] ucp_gbtable lgb)"

definition UCD_CHARTYPE :: "ucd_tables \<Rightarrow> cchar \<Rightarrow> nat" where
  "UCD_CHARTYPE T ch = chartype (GET_UCD T ch)"

definition UCD_CATEGORY :: "ucd_tables \<Rightarrow> cchar \<Rightarrow> nat" where
  "UCD_CATEGORY T ch = nth_default 0 ucp_gentype (UCD_CHARTYPE T ch)"

definition UCD_GRAPHBREAK :: "ucd_tables \<Rightarrow> cchar \<Rightarrow> nat" where
  "UCD_GRAPHBREAK T ch = gbprop (GET_UCD T ch)"

text \<open>\<open>UCD_OTHERCASE\<close>: the sum is formed as \<open>int\<close> and converted to \<open>pcre_uint32\<close>.\<close>

definition UCD_OTHERCASE :: "ucd_tables \<Rightarrow> cchar \<Rightarrow> cchar" where
  "UCD_OTHERCASE T ch = nat ((int ch + other_case (GET_UCD T ch)) mod 2 ^ 32)"

text \<open>
  The search of a caseless set from its offset on, for the value \<open>c\<close>: the sets are sorted and
  each ends with \<open>NOTACHAR\<close>, which no character reaches.
\<close>

fun caseless_search :: "cchar \<Rightarrow> nat list \<Rightarrow> bool" where
  "caseless_search c [] = False"
| "caseless_search c (x # xs) = (if c < x then False else if c = x then True else caseless_search c xs)"

definition in_caseless_set :: "ucd_tables \<Rightarrow> cchar \<Rightarrow> nat \<Rightarrow> bool" where
  "in_caseless_set T c off = caseless_search c (drop off (ucd_caseless_sets T))"

subsection \<open>White space\<close>

definition HSPACE_CASES :: "nat list" where
  "HSPACE_CASES = [0x09, 0x20, 0xa0, 0x1680, 0x180e, 0x2000, 0x2001, 0x2002, 0x2003, 0x2004, 0x2005,
     0x2006, 0x2007, 0x2008, 0x2009, 0x200A, 0x202f, 0x205f, 0x3000]"

definition VSPACE_CASES :: "nat list" where
  "VSPACE_CASES = [0x0a, 0x0b, 0x0c, 0x0d, 0x85, 0x2028, 0x2029]"

definition is_hspace :: "cchar \<Rightarrow> bool" where
  "is_hspace c \<longleftrightarrow> c \<in> set HSPACE_CASES"

definition is_vspace :: "cchar \<Rightarrow> bool" where
  "is_vspace c \<longleftrightarrow> c \<in> set VSPACE_CASES"

subsection \<open>Properties\<close>

abbreviation (input) PT_ANY :: nat where "PT_ANY \<equiv> 0"
abbreviation (input) PT_LAMP :: nat where "PT_LAMP \<equiv> 1"
abbreviation (input) PT_GC :: nat where "PT_GC \<equiv> 2"
abbreviation (input) PT_PC :: nat where "PT_PC \<equiv> 3"
abbreviation (input) PT_SC :: nat where "PT_SC \<equiv> 4"
abbreviation (input) PT_ALNUM :: nat where "PT_ALNUM \<equiv> 5"
abbreviation (input) PT_SPACE :: nat where "PT_SPACE \<equiv> 6"
abbreviation (input) PT_PXSPACE :: nat where "PT_PXSPACE \<equiv> 7"
abbreviation (input) PT_WORD :: nat where "PT_WORD \<equiv> 8"
abbreviation (input) PT_CLIST :: nat where "PT_CLIST \<equiv> 9"
abbreviation (input) PT_UCNC :: nat where "PT_UCNC \<equiv> 10"
abbreviation (input) PT_PXGRAPH :: nat where "PT_PXGRAPH \<equiv> 11"
abbreviation (input) PT_PXPRINT :: nat where "PT_PXPRINT \<equiv> 12"
abbreviation (input) PT_PXPUNCT :: nat where "PT_PXPUNCT \<equiv> 13"

abbreviation (input) CHAR_UNDERSCORE :: nat where "CHAR_UNDERSCORE \<equiv> 0x5f"
abbreviation (input) CHAR_DOLLAR_SIGN :: nat where "CHAR_DOLLAR_SIGN \<equiv> 0x24"
abbreviation (input) CHAR_COMMERCIAL_AT :: nat where "CHAR_COMMERCIAL_AT \<equiv> 0x40"
abbreviation (input) CHAR_GRAVE_ACCENT :: nat where "CHAR_GRAVE_ACCENT \<equiv> 0x60"

text \<open>
  The truth value that the code compares with \<open>isprop\<close> for a property of a class item of type
  \<open>pt\<close> and value \<open>pv\<close>, and \<open>None\<close> for an unknown type. \<open>PT_ANY\<close> is always true: the code tests
  it only where the item is not negated.
\<close>

definition class_prop :: "ucd_tables \<Rightarrow> nat \<Rightarrow> nat \<Rightarrow> cchar \<Rightarrow> bool option" where
  "class_prop T pt pv c =
    (let prop = GET_UCD T c; ct = chartype prop; gen = nth_default 0 ucp_gentype ct in
     if pt = PT_ANY then Some True
     else if pt = PT_LAMP then Some (ct = ucp_Lu \<or> ct = ucp_Ll \<or> ct = ucp_Lt)
     else if pt = PT_GC then Some (pv = gen)
     else if pt = PT_PC then Some (pv = ct)
     else if pt = PT_SC then Some (pv = script prop)
     else if pt = PT_ALNUM then Some (gen = ucp_L \<or> gen = ucp_N)
     else if pt = PT_SPACE \<or> pt = PT_PXSPACE then
       Some (if is_hspace c \<or> is_vspace c then True else gen = ucp_Z)
     else if pt = PT_WORD then Some (gen = ucp_L \<or> gen = ucp_N \<or> c = CHAR_UNDERSCORE)
     else if pt = PT_UCNC then
       Some (if c < 0xa0
             then c = CHAR_DOLLAR_SIGN \<or> c = CHAR_COMMERCIAL_AT \<or> c = CHAR_GRAVE_ACCENT
             else c < 0xd800 \<or> c > 0xdfff)
     else if pt = PT_PXGRAPH then
       Some (gen \<noteq> ucp_Z \<and>
         (gen \<noteq> ucp_C \<or> (ct = ucp_Cf \<and> c \<noteq> 0x061c \<and> c \<noteq> 0x180e \<and> (c < 0x2066 \<or> c > 0x2069))))
     else if pt = PT_PXPRINT then
       Some (ct \<noteq> ucp_Zl \<and> ct \<noteq> ucp_Zp \<and>
         (gen \<noteq> ucp_C \<or> (ct = ucp_Cf \<and> c \<noteq> 0x061c \<and> (c < 0x2066 \<or> c > 0x2069))))
     else if pt = PT_PXPUNCT then Some (gen = ucp_P \<or> (c < 128 \<and> gen = ucp_S))
     else None)"

subsection \<open>Extended classes\<close>

abbreviation (input) XCL_NOT :: nat where "XCL_NOT \<equiv> 1"
abbreviation (input) XCL_MAP :: nat where "XCL_MAP \<equiv> 2"
abbreviation (input) XCL_HASPROP :: nat where "XCL_HASPROP \<equiv> 4"
abbreviation (input) XCL_END :: nat where "XCL_END \<equiv> 0"
abbreviation (input) XCL_SINGLE :: nat where "XCL_SINGLE \<equiv> 1"
abbreviation (input) XCL_RANGE :: nat where "XCL_RANGE \<equiv> 2"
abbreviation (input) XCL_PROP :: nat where "XCL_PROP \<equiv> 3"
abbreviation (input) XCL_NOTPROP :: nat where "XCL_NOTPROP \<equiv> 4"

text \<open>A bit of a class bitmap that starts at \<open>m\<close>.\<close>

definition bitmap_bit :: "byte list \<Rightarrow> nat \<Rightarrow> cchar \<Rightarrow> bool" where
  "bitmap_bit code m c \<longleftrightarrow> bit (rd code (m + c div 8)) (c AND 7)"

text \<open>
  The loop over the items of the class; the list ends with \<open>XCL_END\<close>, so leaving the code is an
  ill-formed class (\<open>None\<close>).
\<close>

function xclass_items :: "ucd_tables \<Rightarrow> byte list \<Rightarrow> cchar \<Rightarrow> bool \<Rightarrow> nat \<Rightarrow> bool option" where
  "xclass_items T code c negated data =
    (if length code \<le> data then None
     else
       let t = unat (rd code data); data = data + 1 in
       if t = XCL_END then Some negated
       else if t = XCL_SINGLE then
         (let (x, data') = getcharinc code data in
          if c = x then Some (\<not> negated) else xclass_items T code c negated data')
       else if t = XCL_RANGE then
         (let (x, data') = getcharinc code data; (y, data'') = getcharinc code data' in
          if c \<ge> x \<and> c \<le> y then Some (\<not> negated) else xclass_items T code c negated data'')
       else
         (let isprop = (t = XCL_PROP); pt = unat (rd code data); pv = unat (rd code (data + 1)) in
          case class_prop T pt pv c of
            None \<Rightarrow> Some False
          | Some v \<Rightarrow>
              if (if pt = PT_ANY then isprop else v = isprop) then Some (\<not> negated)
              else xclass_items T code c negated (data + 2)))"
  by pat_completeness auto
termination
  by (relation "measure (\<lambda>(T, code, c, negated, data). length code - data)")
    (auto simp: getcharinc_def getcharinctest_def getcharlentest_def Let_def split: if_splits)

declare xclass_items.simps [simp del]

definition xclass :: "ucd_tables \<Rightarrow> byte list \<Rightarrow> cchar \<Rightarrow> nat \<Rightarrow> bool option" where
  "xclass T code c data =
    (let flags = unat (rd code data);
         negated = (flags AND XCL_NOT \<noteq> 0);
         hasmap = (flags AND XCL_MAP \<noteq> 0);
         hasprop = (flags AND XCL_HASPROP \<noteq> 0);
         items = xclass_items T code c negated (data + 1 + (if hasmap then 32 else 0))
     in if c < 256 then
          (if \<not> hasprop then Some (if \<not> hasmap then negated else bitmap_bit code (data + 1) c)
           else if hasmap \<and> bitmap_bit code (data + 1) c then Some (\<not> negated)
           else items)
        else items)"

end
