(* ===== verification/ExecState.thy ===== *)
theory ExecState
  imports Opcodes Newline Unicode "HOL-Library.Monad_Syntax"
begin

text \<open>
  The state of the backtracking matcher \<open>match()\<close> of \<open>pcre_exec.c\<close>: the block \<open>match_data\<close> that
  all its invocations share, the frame of one invocation, and the ways in which the code of an
  opcode ends. The shared block is passed from call to call and returned updated.

  Pointers into the subject and into the compiled code are offsets, so \<open>start_subject\<close> and
  \<open>start_code\<close> are the texts themselves. Fields that overload a subject pointer with a code pointer
  (\<open>start_match_ptr\<close> after \<open>MATCH_THEN\<close> and \<open>MATCH_SKIP_ARG\<close>) hold the offset of that pointer.
  The global variables \<open>pcre_callout\<close> and \<open>pcre_malloc\<close> and the tables of \<open>pcre_ucd.c\<close> are the three
  last fields. The callout function gets the callout block and returns a number, and the
  allocator says for a number of bytes whether it has them; both are parameters.
\<close>

subsection \<open>The match block\<close>

record recursion_info =
  group_num :: nat
  offset_save :: "int list"
  saved_capture_last :: nat
  subject_position :: nat

record callout_block =
  callout_number :: nat
  cb_offset_vector :: "int list"
  cb_subject :: "byte list"
  cb_subject_length :: nat
  cb_start_match :: nat
  cb_current_position :: nat
  cb_capture_top :: nat
  cb_capture_last :: int
  cb_callout_data :: nat
  cb_pattern_position :: nat
  cb_next_item_length :: nat
  cb_mark :: "nat option"

record match_data = nlblock +
  match_call_count :: nat
  match_limit :: nat
  match_limit_recursion :: nat
  offset_vector :: "int list"
  offset_end :: nat
  offset_max :: nat
  name_entry_size :: nat
  skip_arg_count :: nat
  ignore_skip_arg :: nat
  name_table :: "byte list"
  lcc :: "byte list"
  fcc :: "byte list"
  ctypes :: "byte list"
  notbol :: bool
  noteol :: bool
  utf :: bool
  jscript_compat :: bool
  use_ucp :: bool
  endonly :: bool
  notempty :: bool
  notempty_atstart :: bool
  hitend :: bool
  bsr_anycrlf :: bool
  hasthen :: bool
  start_code :: "byte list"
  start_subject :: "byte list"
  end_subject :: nat
  start_match_ptr :: nat
  end_match_ptr :: nat
  start_used_ptr :: nat
  partial :: nat
  end_offset_top :: nat
  capture_last :: nat
  start_offset :: nat
  match_function_type :: nat
  recursive :: "recursion_info list"
  callout_data :: nat
  mark :: "nat option"
  nomatch_mark :: "nat option"
  once_target :: "nat option"
  callout :: "(callout_block \<Rightarrow> int) option"
  malloc_ok :: "nat \<Rightarrow> bool"
  ucd :: ucd_tables

subsection \<open>Frames and outcomes\<close>

text \<open>
  The arguments and registers of one invocation. \<open>eptrb\<close> is the chain of saved subject pointers,
  the newest first.
\<close>

record frame =
  eptr :: nat
  ecode :: nat
  mstart :: nat
  offset_top :: nat
  eptrb :: "nat list"
  rdepth :: nat

text \<open>
  How the code of an opcode ends: with \<open>RRETURN\<close>, with a \<open>break\<close> or \<open>continue\<close> to the next opcode of
  the same invocation, or with \<open>goto TAIL_RECURSE\<close>.
\<close>

datatype outcome = Ret int match_data | Cont frame match_data | Tail frame match_data

text \<open>
  A matcher is what \<open>match()\<close> is to its caller; the codes of the opcodes take it as an argument.
  \<open>None\<close> is a run that has no result: it leaves the compiled code or does not end.
\<close>

type_synonym matcher = "match_data \<Rightarrow> frame \<Rightarrow> (int \<times> match_data) option"

definition RMATCH :: "matcher \<Rightarrow> match_data \<Rightarrow> frame \<Rightarrow> (int \<times> match_data) option" where
  "RMATCH rm md fr = rm md (fr\<lparr>rdepth := rdepth fr + 1\<rparr>)"

definition op_at :: "match_data \<Rightarrow> nat \<Rightarrow> nat" where
  "op_at md p = opc (start_code md) p"

definition link_at :: "match_data \<Rightarrow> nat \<Rightarrow> nat \<Rightarrow> nat" where
  "link_at md p n = GET (start_code md) p n"

text \<open>A slot of the offset vector.\<close>

definition ov :: "match_data \<Rightarrow> nat \<Rightarrow> int" where
  "ov md i = nth_default (-1) (offset_vector md) i"

definition set_ov :: "nat \<Rightarrow> int \<Rightarrow> match_data \<Rightarrow> match_data" where
  "set_ov i v md = md\<lparr>offset_vector := (offset_vector md)[i := v]\<rparr>"

text \<open>\<open>while (iptr < iend) *iptr++ = -1;\<close>\<close>

fun unset_from :: "nat \<Rightarrow> nat \<Rightarrow> match_data \<Rightarrow> match_data" where
  "unset_from i 0 md = md"
| "unset_from i (Suc n) md = unset_from (i + 1) n (set_ov i (-1) md)"

definition unset_range :: "nat \<Rightarrow> nat \<Rightarrow> match_data \<Rightarrow> match_data" where
  "unset_range i j md = unset_from i (j - i) md"

subsection \<open>Partial matching\<close>

text \<open>The macros \<open>CHECK_PARTIAL\<close> and \<open>SCHECK_PARTIAL\<close>; the flag says that they return.\<close>

definition check_partial :: "match_data \<Rightarrow> nat \<Rightarrow> match_data \<times> bool" where
  "check_partial md e =
    (if partial md \<noteq> 0 \<and> e \<ge> end_subject md \<and> e > start_used_ptr md
     then (md\<lparr>hitend := True\<rparr>, partial md > 1) else (md, False))"

definition scheck_partial :: "match_data \<Rightarrow> nat \<Rightarrow> match_data \<times> bool" where
  "scheck_partial md e =
    (if partial md \<noteq> 0 \<and> e > start_used_ptr md
     then (md\<lparr>hitend := True\<rparr>, partial md > 1) else (md, False))"

definition partial_fail :: "match_data \<times> bool \<Rightarrow> outcome" where
  "partial_fail r = (case r of (md, stop) \<Rightarrow> Ret (if stop then PCRE_ERROR_PARTIAL else MATCH_NOMATCH) md)"

definition partial_cont :: "match_data \<times> bool \<Rightarrow> frame \<Rightarrow> outcome" where
  "partial_cont r fr = (case r of (md, stop) \<Rightarrow> if stop then Ret PCRE_ERROR_PARTIAL md else Cont fr md)"

subsection \<open>Newlines and characters of the subject\<close>

definition md_is_newline :: "match_data \<Rightarrow> nat \<Rightarrow> bool \<times> match_data" where
  "md_is_newline md e =
    (let (r, len) = IS_NEWLINE md (start_subject md) (end_subject md) (utf md) e in (r, md\<lparr>nllen := len\<rparr>))"

definition md_was_newline :: "match_data \<Rightarrow> nat \<Rightarrow> bool \<times> match_data" where
  "md_was_newline md e =
    (let (r, len) = WAS_NEWLINE md (start_subject md) 0 (utf md) e in (r, md\<lparr>nllen := len\<rparr>))"

text \<open>\<open>TABLE_GET(c, table, c)\<close>, and a bit of the character types.\<close>

definition table_get :: "byte list \<Rightarrow> nat \<Rightarrow> nat" where
  "table_get t c = (if c \<le> 255 then unat (rd t c) else c)"

definition has_ctype :: "match_data \<Rightarrow> nat \<Rightarrow> nat \<Rightarrow> bool" where
  "has_ctype md b c \<longleftrightarrow> c < 256 \<and> unat (rd (ctypes md) c) AND b \<noteq> 0"

subsection \<open>Callouts\<close>

definition callout_block_at :: "match_data \<Rightarrow> frame \<Rightarrow> nat \<Rightarrow> callout_block" where
  "callout_block_at md fr ec =
    \<lparr>callout_number = op_at md (ec + 1),
     cb_offset_vector = offset_vector md,
     cb_subject = start_subject md,
     cb_subject_length = end_subject md,
     cb_start_match = mstart fr,
     cb_current_position = eptr fr,
     cb_capture_top = offset_top fr div 2,
     cb_capture_last =
       (let c = capture_last md AND CAPLMASK in if c = 0 then -1 else int c),
     cb_callout_data = callout_data md,
     cb_pattern_position = link_at md ec 2,
     cb_next_item_length = link_at md ec (2 + LINK_SIZE),
     cb_mark = nomatch_mark md\<rparr>"

text \<open>The value of \<open>(*pcre_callout)(&cb)\<close>, 0 where there is no callout function.\<close>

definition do_callout :: "match_data \<Rightarrow> frame \<Rightarrow> nat \<Rightarrow> int" where
  "do_callout md fr ec =
    (case callout md of None \<Rightarrow> 0 | Some f \<Rightarrow> f (callout_block_at md fr ec))"

subsection \<open>Backtracking to (*THEN)\<close>

text \<open>
  The comment in the code for capturing groups: a \<open>THEN\<close> inside the current branch of two or more
  alternatives becomes an ordinary failure of the branch.
\<close>

definition then_in_branch :: "match_data \<Rightarrow> nat \<Rightarrow> int \<Rightarrow> int" where
  "then_in_branch md ec rrc =
    (let next = ec + link_at md ec 1 in
     if rrc = MATCH_THEN \<and> start_match_ptr md < next \<and> (op_at md ec = OP_ALT \<or> op_at md next = OP_ALT)
     then MATCH_NOMATCH else rrc)"

end
