(* ===== verification/ExecGroups.thy ===== *)
theory ExecGroups
  imports ExecState
begin

text \<open>
  The codes of \<open>match()\<close> for the control verbs, the groups, conditions, assertions, recursions and
  group ends. Each definition is the text of one \<open>case\<close> of the switch, with the calls of
  \<open>match()\<close> that it makes on the argument \<open>rm\<close>. The loops that try alternatives and the
  iterations of a possessive group are functions of their own: they give \<open>Inl\<close> what they return
  from \<open>match()\<close> and \<open>Inr\<close> what the code after the loop sees.
\<close>

subsection \<open>Control verbs\<close>

text \<open>On success the verb's name becomes the mark, unless an inner one was set.\<close>

definition set_mark :: "nat \<Rightarrow> int \<Rightarrow> match_data \<Rightarrow> match_data" where
  "set_mark name rrc md =
    (if (rrc = MATCH_MATCH \<or> rrc = MATCH_ACCEPT) \<and> mark md = None then md\<lparr>mark := Some name\<rparr> else md)"

text \<open>\<open>STRCMP_UC_UC_TEST\<close> on two zero-terminated names in the code.\<close>

definition name_at :: "match_data \<Rightarrow> nat \<Rightarrow> byte list" where
  "name_at md p = takeWhile (\<lambda>b. b \<noteq> 0) (drop p (start_code md))"

definition after_arg :: "match_data \<Rightarrow> frame \<Rightarrow> frame" where
  "after_arg md fr = fr\<lparr>ecode := ecode fr + op_length (op_at md (ecode fr)) + op_at md (ecode fr + 1)\<rparr>"

definition after_op :: "match_data \<Rightarrow> frame \<Rightarrow> frame" where
  "after_op md fr = fr\<lparr>ecode := ecode fr + op_length (op_at md (ecode fr))\<rparr>"

definition case_MARK :: "matcher \<Rightarrow> match_data \<Rightarrow> frame \<Rightarrow> outcome option" where
  "case_MARK rm md fr = do {
     let md = md\<lparr>nomatch_mark := Some (ecode fr + 2), mark := None\<rparr>;
     (rrc, md) \<leftarrow> RMATCH rm md (after_arg md fr);
     if (rrc = MATCH_MATCH \<or> rrc = MATCH_ACCEPT) \<and> mark md = None
     then Some (Ret rrc (md\<lparr>mark := Some (ecode fr + 2)\<rparr>))
     else if rrc = MATCH_SKIP_ARG \<and> name_at md (ecode fr + 2) = name_at md (start_match_ptr md)
     then Some (Ret MATCH_SKIP (md\<lparr>start_match_ptr := eptr fr\<rparr>))
     else Some (Ret rrc md) }"

definition case_COMMIT :: "matcher \<Rightarrow> match_data \<Rightarrow> frame \<Rightarrow> outcome option" where
  "case_COMMIT rm md fr = do {
     (rrc, md) \<leftarrow> RMATCH rm md (after_op md fr);
     Some (if rrc \<noteq> MATCH_NOMATCH then Ret rrc md else Ret MATCH_COMMIT md) }"

definition case_PRUNE :: "matcher \<Rightarrow> match_data \<Rightarrow> frame \<Rightarrow> outcome option" where
  "case_PRUNE rm md fr = do {
     (rrc, md) \<leftarrow> RMATCH rm md (after_op md fr);
     Some (if rrc \<noteq> MATCH_NOMATCH then Ret rrc md else Ret MATCH_PRUNE md) }"

definition case_PRUNE_ARG :: "matcher \<Rightarrow> match_data \<Rightarrow> frame \<Rightarrow> outcome option" where
  "case_PRUNE_ARG rm md fr = do {
     let md = md\<lparr>nomatch_mark := Some (ecode fr + 2), mark := None\<rparr>;
     (rrc, md) \<leftarrow> RMATCH rm md (after_arg md fr);
     let md = set_mark (ecode fr + 2) rrc md;
     Some (if rrc \<noteq> MATCH_NOMATCH then Ret rrc md else Ret MATCH_PRUNE md) }"

definition case_SKIP :: "matcher \<Rightarrow> match_data \<Rightarrow> frame \<Rightarrow> outcome option" where
  "case_SKIP rm md fr = do {
     (rrc, md) \<leftarrow> RMATCH rm md (after_op md fr);
     Some (if rrc \<noteq> MATCH_NOMATCH then Ret rrc md
           else Ret MATCH_SKIP (md\<lparr>start_match_ptr := eptr fr\<rparr>)) }"

definition case_SKIP_ARG :: "matcher \<Rightarrow> match_data \<Rightarrow> frame \<Rightarrow> outcome option" where
  "case_SKIP_ARG rm md fr = do {
     let md = md\<lparr>skip_arg_count := skip_arg_count md + 1\<rparr>;
     if skip_arg_count md \<le> ignore_skip_arg md then Some (Cont (after_arg md fr) md)
     else do {
       (rrc, md) \<leftarrow> RMATCH rm md (after_arg md fr);
       Some (if rrc \<noteq> MATCH_NOMATCH then Ret rrc md
             else Ret MATCH_SKIP_ARG (md\<lparr>start_match_ptr := ecode fr + 2\<rparr>)) } }"

definition case_THEN :: "matcher \<Rightarrow> match_data \<Rightarrow> frame \<Rightarrow> outcome option" where
  "case_THEN rm md fr = do {
     (rrc, md) \<leftarrow> RMATCH rm md (after_op md fr);
     Some (if rrc \<noteq> MATCH_NOMATCH then Ret rrc md
           else Ret MATCH_THEN (md\<lparr>start_match_ptr := ecode fr\<rparr>)) }"

definition case_THEN_ARG :: "matcher \<Rightarrow> match_data \<Rightarrow> frame \<Rightarrow> outcome option" where
  "case_THEN_ARG rm md fr = do {
     let md = md\<lparr>nomatch_mark := Some (ecode fr + 2), mark := None\<rparr>;
     (rrc, md) \<leftarrow> RMATCH rm md (after_arg md fr);
     let md = set_mark (ecode fr + 2) rrc md;
     Some (if rrc \<noteq> MATCH_NOMATCH then Ret rrc md
           else Ret MATCH_THEN (md\<lparr>start_match_ptr := ecode fr\<rparr>)) }"

subsection \<open>Atomic groups without captures\<close>

text \<open>The alternatives: \<open>Inr\<close> carries the frame at which the loop is left and whether by a match.\<close>

partial_function (option) once_nc_loop ::
  "matcher \<Rightarrow> nat option \<Rightarrow> match_data \<Rightarrow> frame \<Rightarrow> ((int \<times> match_data) + (match_data \<times> frame)) option"
where
  [code]: "once_nc_loop rm save_mark md fr = do {
     (rrc, md) \<leftarrow> RMATCH rm md (fr\<lparr>ecode := ecode fr + 1 + LINK_SIZE\<rparr>);
     if rrc = MATCH_MATCH then Some (Inr (md, fr\<lparr>mstart := start_match_ptr md\<rparr>))
     else
       let rrc = then_in_branch md (ecode fr) rrc in
       if rrc \<noteq> MATCH_NOMATCH then Some (Inl (rrc, md))
       else
         let fr = fr\<lparr>ecode := ecode fr + link_at md (ecode fr) 1\<rparr>;
             md = md\<lparr>mark := save_mark\<rparr>
         in if op_at md (ecode fr) = OP_ALT then once_nc_loop rm save_mark md fr
            else Some (Inr (md, fr)) }"

text \<open>The three ways on from an atomic group that matched, by its kind of ket.\<close>

definition once_nc_after :: "matcher \<Rightarrow> nat \<Rightarrow> nat \<Rightarrow> match_data \<Rightarrow> frame \<Rightarrow> outcome option" where
  "once_nc_after rm prev saved_eptr md fr =
    (if op_at md (ecode fr) = OP_KET \<or> eptr fr = saved_eptr
     then Some (Cont (fr\<lparr>ecode := ecode fr + 1 + LINK_SIZE\<rparr>) md)
     else if op_at md (ecode fr) = OP_KETRMIN then do {
       (rrc, md) \<leftarrow> RMATCH rm md (fr\<lparr>ecode := ecode fr + 1 + LINK_SIZE\<rparr>);
       Some (if rrc \<noteq> MATCH_NOMATCH then Ret rrc md else Tail (fr\<lparr>ecode := prev\<rparr>) md) }
     else do {
       (rrc, md) \<leftarrow> RMATCH rm md (fr\<lparr>ecode := prev\<rparr>);
       Some (if rrc \<noteq> MATCH_NOMATCH then Ret rrc md
             else Tail (fr\<lparr>ecode := ecode fr + 1 + LINK_SIZE\<rparr>) md) })"

definition case_ONCE_NC :: "matcher \<Rightarrow> match_data \<Rightarrow> frame \<Rightarrow> outcome option" where
  "case_ONCE_NC rm md fr = do {
     let prev = ecode fr;
     let saved_eptr = eptr fr;
     r \<leftarrow> once_nc_loop rm (mark md) md fr;
     (case r of
        Inl (rrc, md) \<Rightarrow> Some (Ret rrc md)
      | Inr (md, fr) \<Rightarrow>
          if op_at md (ecode fr) \<noteq> OP_ONCE_NC \<and> op_at md (ecode fr) \<noteq> OP_ALT
          then Some (Ret MATCH_NOMATCH md)
          else do {
            ket \<leftarrow> skip_alts (start_code md) (ecode fr);
            once_nc_after rm prev saved_eptr md
              (fr\<lparr>ecode := ket, offset_top := end_offset_top md, eptr := end_match_ptr md\<rparr>) }) }"

subsection \<open>Capturing and non-capturing groups\<close>

definition set_cbegroup :: "bool \<Rightarrow> match_data \<Rightarrow> match_data" where
  "set_cbegroup b md = (if b then md\<lparr>match_function_type := MATCH_CBEGROUP\<rparr> else md)"

partial_function (option) cbra_loop ::
  "matcher \<Rightarrow> nat \<Rightarrow> nat \<Rightarrow> nat option \<Rightarrow> match_data \<Rightarrow> frame \<Rightarrow>
     ((int \<times> match_data) + (int \<times> match_data)) option"
where
  [code]: "cbra_loop rm op save_capture_last save_mark md fr = do {
     (rrc, md) \<leftarrow> RMATCH rm (set_cbegroup (op \<ge> OP_SBRA) md) (after_op md fr);
     if rrc = MATCH_ONCE then Some (Inr (rrc, md))
     else
       let rrc = then_in_branch md (ecode fr) rrc in
       if rrc \<noteq> MATCH_NOMATCH then Some (Inl (rrc, md))
       else
         let md = md\<lparr>capture_last := save_capture_last\<rparr>;
             fr = fr\<lparr>ecode := ecode fr + link_at md (ecode fr) 1\<rparr>;
             md = md\<lparr>mark := save_mark\<rparr>
         in if op_at md (ecode fr) \<noteq> OP_ALT then Some (Inr (rrc, md))
            else cbra_loop rm op save_capture_last save_mark md fr }"

text \<open>From \<open>OP_ALT\<close> back to the start of the atomic group that an alternative belongs to.\<close>

definition once_start :: "match_data \<Rightarrow> nat \<Rightarrow> nat option" where
  "once_start md ec =
    (if op_at md ec = OP_ONCE then Some ec
     else do {
       scode \<leftarrow> (if op_at md ec = OP_ALT then skip_alts (start_code md) ec else Some ec);
       Some (scode - link_at md scode 1) })"

partial_function (option) bra_loop ::
  "matcher \<Rightarrow> nat \<Rightarrow> match_data \<Rightarrow> frame \<Rightarrow> outcome option"
where
  [code]: "bra_loop rm op md fr =
    (if \<not> (op \<ge> OP_SBRA \<or> op = OP_ONCE) \<and> \<not> hasthen md \<and>
        op_at md (ecode fr + link_at md (ecode fr) 1) \<noteq> OP_ALT
     then Some (Tail (after_op md fr) md)
     else do {
       let md = set_cbegroup (op \<ge> OP_SBRA \<or> op = OP_ONCE) md;
       let save_mark = mark md;
       let save_capture_last = capture_last md;
       (rrc, md) \<leftarrow> RMATCH rm md (after_op md fr);
       let rrc = then_in_branch md (ecode fr) rrc;
       if rrc \<noteq> MATCH_NOMATCH then
         (if rrc = MATCH_ONCE then do {
            scode \<leftarrow> once_start md (ecode fr);
            Some (Ret (if once_target md = Some scode then MATCH_NOMATCH else rrc) md) }
          else Some (Ret rrc md))
       else
         let fr = fr\<lparr>ecode := ecode fr + link_at md (ecode fr) 1\<rparr>;
             md = md\<lparr>mark := save_mark\<rparr>
         in if op_at md (ecode fr) \<noteq> OP_ALT then Some (Ret MATCH_NOMATCH md)
            else bra_loop rm op (md\<lparr>capture_last := save_capture_last\<rparr>) fr })"

definition case_BRA :: "matcher \<Rightarrow> match_data \<Rightarrow> frame \<Rightarrow> outcome option" where
  "case_BRA rm md fr = bra_loop rm (op_at md (ecode fr)) md fr"

text \<open>The three slots of a capturing group and their restoration.\<close>

definition restore_slots :: "nat \<Rightarrow> int \<times> int \<times> int \<Rightarrow> match_data \<Rightarrow> match_data" where
  "restore_slots number save md =
    (case save of (s1, s2, s3) \<Rightarrow>
       set_ov (offset_end md - number) s3 (set_ov (2 * number + 1) s2 (set_ov (2 * number) s1 md)))"

definition saved_slots :: "nat \<Rightarrow> match_data \<Rightarrow> int \<times> int \<times> int" where
  "saved_slots number md = (ov md (2 * number), ov md (2 * number + 1), ov md (offset_end md - number))"

definition case_CBRA :: "matcher \<Rightarrow> match_data \<Rightarrow> frame \<Rightarrow> outcome option" where
  "case_CBRA rm md fr =
    (let op = op_at md (ecode fr);
         number = GET2 (start_code md) (ecode fr) (1 + LINK_SIZE);
         offset = 2 * number
     in if offset < offset_max md then do {
          let save = saved_slots number md;
          r \<leftarrow> cbra_loop rm op (capture_last md) (mark md)
                (set_ov (offset_end md - number) (int (eptr fr)) md) fr;
          (case r of
             Inl (rrc, md) \<Rightarrow> Some (Ret rrc md)
           | Inr (rrc, md) \<Rightarrow> Some (Ret rrc (restore_slots number save md))) }
        else case_BRA rm md fr)"

subsection \<open>Possessive groups\<close>

text \<open>
  One iteration after another, from the start \<open>start\<close> of the group; \<open>Inr\<close> gives the state at
  which the loop is left and \<open>matched_once\<close>. A capturing group also sets its working slot, and
  keeps the last capture number of the previous iteration.
\<close>

partial_function (option) cbrapos_loop ::
  "matcher \<Rightarrow> nat \<Rightarrow> nat \<Rightarrow> nat \<Rightarrow> nat \<Rightarrow> bool \<Rightarrow> match_data \<Rightarrow> frame \<Rightarrow>
     ((int \<times> match_data) + (bool \<times> match_data \<times> frame)) option"
where
  [code]: "cbrapos_loop rm op number start save_capture_last matched_once md fr = do {
     let md = set_ov (offset_end md - number) (int (eptr fr)) md;
     (rrc, md) \<leftarrow> RMATCH rm (set_cbegroup (op \<ge> OP_SBRA) md) (after_op md fr);
     if rrc = MATCH_KETRPOS then
       let fr' = fr\<lparr>offset_top := end_offset_top md, ecode := start, mstart := start_match_ptr md\<rparr> in
       if eptr fr = end_match_ptr md then do {
         ket \<leftarrow> skip_alts (start_code md) start;
         Some (Inr (True, md, fr'\<lparr>ecode := ket\<rparr>)) }
       else cbrapos_loop rm op number start (capture_last md) True md (fr'\<lparr>eptr := end_match_ptr md\<rparr>)
     else
       let rrc = then_in_branch md (ecode fr) rrc in
       if rrc \<noteq> MATCH_NOMATCH then Some (Inl (rrc, md))
       else
         let md = md\<lparr>capture_last := save_capture_last\<rparr>;
             fr = fr\<lparr>ecode := ecode fr + link_at md (ecode fr) 1\<rparr>
         in if op_at md (ecode fr) \<noteq> OP_ALT then Some (Inr (matched_once, md, fr))
            else cbrapos_loop rm op number start save_capture_last matched_once md fr }"

partial_function (option) brapos_loop ::
  "matcher \<Rightarrow> nat \<Rightarrow> nat \<Rightarrow> nat \<Rightarrow> bool \<Rightarrow> match_data \<Rightarrow> frame \<Rightarrow>
     ((int \<times> match_data) + (bool \<times> match_data \<times> frame)) option"
where
  [code]: "brapos_loop rm op start save_capture_last matched_once md fr = do {
     (rrc, md) \<leftarrow> RMATCH rm (set_cbegroup (op \<ge> OP_SBRA) md) (after_op md fr);
     if rrc = MATCH_KETRPOS then
       let fr' = fr\<lparr>offset_top := end_offset_top md, ecode := start, mstart := start_match_ptr md\<rparr> in
       if eptr fr = end_match_ptr md then do {
         ket \<leftarrow> skip_alts (start_code md) start;
         Some (Inr (True, md, fr'\<lparr>ecode := ket\<rparr>)) }
       else brapos_loop rm op start save_capture_last True md (fr'\<lparr>eptr := end_match_ptr md\<rparr>)
     else
       let rrc = then_in_branch md (ecode fr) rrc in
       if rrc \<noteq> MATCH_NOMATCH then Some (Inl (rrc, md))
       else
         let fr = fr\<lparr>ecode := ecode fr + link_at md (ecode fr) 1\<rparr>
         in if op_at md (ecode fr) \<noteq> OP_ALT then Some (Inr (matched_once, md, fr))
            else brapos_loop rm op start save_capture_last matched_once
                   (md\<lparr>capture_last := save_capture_last\<rparr>) fr }"

definition possessive_non_capture :: "matcher \<Rightarrow> bool \<Rightarrow> nat \<Rightarrow> match_data \<Rightarrow> frame \<Rightarrow> outcome option" where
  "possessive_non_capture rm allow_zero op md fr = do {
     r \<leftarrow> brapos_loop rm op (ecode fr) (capture_last md) False md fr;
     (case r of
        Inl (rrc, md) \<Rightarrow> Some (Ret rrc md)
      | Inr (matched_once, md, fr) \<Rightarrow>
          if matched_once \<or> allow_zero then Some (Cont (fr\<lparr>ecode := ecode fr + 1 + LINK_SIZE\<rparr>) md)
          else Some (Ret MATCH_NOMATCH md)) }"

definition possessive_capture :: "matcher \<Rightarrow> bool \<Rightarrow> nat \<Rightarrow> match_data \<Rightarrow> frame \<Rightarrow> outcome option" where
  "possessive_capture rm allow_zero op md fr =
    (let number = GET2 (start_code md) (ecode fr) (1 + LINK_SIZE); offset = 2 * number in
     if offset \<ge> offset_max md then possessive_non_capture rm allow_zero op md fr
     else do {
       let save = saved_slots number md;
       r \<leftarrow> cbrapos_loop rm op number (ecode fr) (capture_last md) False md fr;
       (case r of
          Inl (rrc, md) \<Rightarrow> Some (Ret rrc md)
        | Inr (matched_once, md, fr) \<Rightarrow>
            let md = (if \<not> matched_once then restore_slots number save md else md) in
            if allow_zero \<or> matched_once then Some (Cont (fr\<lparr>ecode := ecode fr + 1 + LINK_SIZE\<rparr>) md)
            else Some (Ret MATCH_NOMATCH md)) })"

end
