(* ===== verification/ExecFlow.thy ===== *)
theory ExecFlow
  imports ExecGroups
begin

text \<open>
  The codes of \<open>match()\<close> that steer the match between groups: conditional groups, \<open>OP_CLOSE\<close> and
  the ends of the pattern, assertions, lookbehind, callouts, recursion, the zero-repeat
  prefixes and the group ends. The conventions are those of the group codes.
\<close>

subsection \<open>Conditional groups\<close>

text \<open>The scan over the entries of a duplicate name: \<open>while (count-- > 0)\<close> until a group satisfies \<open>P\<close>.\<close>

fun any_slot :: "(nat \<Rightarrow> bool) \<Rightarrow> match_data \<Rightarrow> nat \<Rightarrow> nat \<Rightarrow> bool" where
  "any_slot P md 0 slot = False"
| "any_slot P md (Suc count) slot =
     (if P (GET2 (name_table md) slot 0) then True
      else any_slot P md count (slot + name_entry_size md))"

text \<open>A group has been captured.\<close>

definition group_set :: "match_data \<Rightarrow> nat \<Rightarrow> nat \<Rightarrow> bool" where
  "group_set md otop number \<longleftrightarrow> 2 * number < otop \<and> ov md (2 * number) \<ge> 0"

definition recursing_into :: "match_data \<Rightarrow> nat \<Rightarrow> bool" where
  "recursing_into md recno \<longleftrightarrow>
    (case recursive md of [] \<Rightarrow> False | ri # _ \<Rightarrow> recno = group_num ri)"

text \<open>The conditions that are not assertions.\<close>

definition simple_condition :: "match_data \<Rightarrow> nat \<Rightarrow> nat \<Rightarrow> bool" where
  "simple_condition md otop ec =
    (let condcode = op_at md ec; number = GET2 (start_code md) ec 1;
         count = GET2 (start_code md) ec (1 + IMM2_SIZE); slot = number * name_entry_size md
     in if condcode = OP_RREF then
          recursive md \<noteq> [] \<and> (number = RREF_ANY \<or> recursing_into md number)
        else if condcode = OP_DNRREF then
          recursive md \<noteq> [] \<and> any_slot (recursing_into md) md count slot
        else if condcode = OP_CREF then group_set md otop number
        else if condcode = OP_DNCREF then any_slot (group_set md otop) md count slot
        else False)"

text \<open>Obeying the chosen branch at the code position of \<open>fr\<close>.\<close>

definition cond_branch :: "matcher \<Rightarrow> nat \<Rightarrow> bool \<Rightarrow> match_data \<Rightarrow> frame \<Rightarrow> outcome option" where
  "cond_branch rm op condition md fr =
    (if condition \<or> op_at md (ecode fr - (1 + LINK_SIZE)) = OP_ALT then
       (if op \<noteq> OP_SCOND then Some (Tail fr md)
        else do {
          (rrc, md) \<leftarrow> RMATCH rm (md\<lparr>match_function_type := MATCH_CBEGROUP\<rparr>) fr;
          Some (Ret rrc md) })
     else Some (Cont fr md))"

text \<open>
  The test at \<open>ec\<close>, after a callout if there was one, where \<open>second\<close> is the position after the
  first branch (\<open>ecode + codelink\<close>, which the code keeps constant).
\<close>

definition cond_test :: "matcher \<Rightarrow> nat \<Rightarrow> nat \<Rightarrow> nat \<Rightarrow> match_data \<Rightarrow> frame \<Rightarrow> outcome option" where
  "cond_test rm op ec second md fr =
    (let condcode = op_at md ec in
     if condcode \<in> {OP_RREF, OP_DNRREF, OP_CREF, OP_DNCREF, OP_DEF, OP_FAIL} then
       (let condition = simple_condition md (offset_top fr) ec in
        cond_branch rm op condition md
          (fr\<lparr>ecode := if condition then ec + op_length condcode else second\<rparr>))
     else do {
       (rrc, md) \<leftarrow> RMATCH rm (md\<lparr>match_function_type := MATCH_CONDASSERT\<rparr>) (fr\<lparr>ecode := ec, eptrb := []\<rparr>);
       if rrc = MATCH_MATCH then do {
         let otop = (if end_offset_top md > offset_top fr then end_offset_top md else offset_top fr);
         ket \<leftarrow> skip_alts (start_code md) (if op_at md ec = OP_BRAZERO then ec + 1 else ec);
         cond_branch rm op True md (fr\<lparr>ecode := ket + 1 + LINK_SIZE, offset_top := otop\<rparr>) }
       else if rrc \<noteq> MATCH_NOMATCH \<and> rrc \<noteq> MATCH_THEN then Some (Ret rrc md)
       else cond_branch rm op False md (fr\<lparr>ecode := second\<rparr>) })"

definition case_COND :: "matcher \<Rightarrow> match_data \<Rightarrow> frame \<Rightarrow> outcome option" where
  "case_COND rm md fr =
    (let op = op_at md (ecode fr);
         second = ecode fr + 1 + LINK_SIZE + link_at md (ecode fr) 1;
         ec = ecode fr + 1 + LINK_SIZE
     in if op_at md ec = OP_CALLOUT then
          (let rrc = do_callout md fr ec in
           if rrc > 0 then Some (Ret MATCH_NOMATCH md)
           else if rrc < 0 then Some (Ret rrc md)
           else cond_test rm op (ec + op_length OP_CALLOUT) second md fr)
        else cond_test rm op ec second md fr)"

subsection \<open>Closing groups and ending the pattern\<close>

text \<open>Recording group \<open>number\<close> as ended at the subject pointer, with the new high-water mark.\<close>

definition mark_capture :: "nat \<Rightarrow> match_data \<Rightarrow> match_data" where
  "mark_capture number md =
    (let cl = (capture_last md AND OVFLMASK) OR number in
     md\<lparr>capture_last := if 2 * number \<ge> offset_max md then cl OR OVFLBIT else cl\<rparr>)"

definition case_CLOSE :: "match_data \<Rightarrow> frame \<Rightarrow> outcome option" where
  "case_CLOSE md fr =
    (let number = GET2 (start_code md) (ecode fr) 1; offset = 2 * number;
         md = mark_capture number md;
         fr' = fr\<lparr>ecode := ecode fr + 1 + IMM2_SIZE\<rparr>
     in if offset \<ge> offset_max md then Some (Cont fr' md)
        else
          let md = set_ov (offset + 1) (int (eptr fr)) (set_ov offset (ov md (offset_end md - number)) md) in
          if offset \<ge> offset_top fr
          then Some (Cont (fr'\<lparr>offset_top := offset + 2\<rparr>) (unset_range (offset_top fr) offset md))
          else Some (Cont fr' md))"

definition case_END :: "match_data \<Rightarrow> frame \<Rightarrow> outcome option" where
  "case_END md fr =
    (let op = op_at md (ecode fr) in
     if eptr fr = mstart fr \<and> op \<noteq> OP_ASSERT_ACCEPT \<and> recursive md = [] \<and>
        (notempty md \<or> (notempty_atstart md \<and> mstart fr = start_offset md))
     then Some (Ret MATCH_NOMATCH md)
     else
       Some (Ret (if op = OP_END then MATCH_MATCH else MATCH_ACCEPT)
         (md\<lparr>end_match_ptr := eptr fr, end_offset_top := offset_top fr, start_match_ptr := mstart fr\<rparr>)))"

subsection \<open>Assertions\<close>

partial_function (option) assert_loop ::
  "matcher \<Rightarrow> nat option \<Rightarrow> match_data \<Rightarrow> frame \<Rightarrow> ((int \<times> match_data) + (match_data \<times> frame)) option"
where
  [code]: "assert_loop rm save_mark md fr = do {
     (rrc, md) \<leftarrow> RMATCH rm md (fr\<lparr>ecode := ecode fr + 1 + LINK_SIZE, eptrb := []\<rparr>);
     if rrc = MATCH_MATCH \<or> rrc = MATCH_ACCEPT
     then Some (Inr (md, fr\<lparr>mstart := start_match_ptr md\<rparr>))
     else
       let md = md\<lparr>mark := save_mark\<rparr>;
           rrc = then_in_branch md (ecode fr) rrc
       in if rrc \<noteq> MATCH_NOMATCH then Some (Inl (rrc, md))
          else
            let fr = fr\<lparr>ecode := ecode fr + link_at md (ecode fr) 1\<rparr> in
            if op_at md (ecode fr) = OP_ALT then assert_loop rm save_mark md fr
            else Some (Inr (md, fr)) }"

definition case_ASSERT :: "matcher \<Rightarrow> match_data \<Rightarrow> frame \<Rightarrow> outcome option" where
  "case_ASSERT rm md fr = do {
     let condassert = (match_function_type md = MATCH_CONDASSERT);
     let md = (if condassert then md\<lparr>match_function_type := 0\<rparr> else md);
     r \<leftarrow> assert_loop rm (mark md) md fr;
     (case r of
        Inl (rrc, md) \<Rightarrow> Some (Ret rrc md)
      | Inr (md, fr') \<Rightarrow>
          if op_at md (ecode fr') = OP_KET then Some (Ret MATCH_NOMATCH md)
          else if condassert then Some (Ret MATCH_MATCH md)
          else do {
            ket \<leftarrow> skip_alts (start_code md) (ecode fr');
            Some (Cont (fr'\<lparr>ecode := ket + 1 + LINK_SIZE, offset_top := end_offset_top md\<rparr>) md) }) }"

text \<open>The loop of a negative assertion; \<open>Inr\<close> is the jump to \<open>NEG_ASSERT_TRUE\<close>.\<close>

partial_function (option) assert_not_loop ::
  "matcher \<Rightarrow> nat option \<Rightarrow> match_data \<Rightarrow> frame \<Rightarrow> ((int \<times> match_data) + (match_data \<times> frame)) option"
where
  [code]: "assert_not_loop rm save_mark md fr = do {
     (rrc, md) \<leftarrow> RMATCH rm md (fr\<lparr>ecode := ecode fr + 1 + LINK_SIZE, eptrb := []\<rparr>);
     let md = md\<lparr>mark := save_mark\<rparr>;
     if rrc = MATCH_MATCH \<or> rrc = MATCH_ACCEPT then Some (Inl (MATCH_NOMATCH, md))
     else
       let rrc = then_in_branch md (ecode fr) rrc in
       if rrc = MATCH_NOMATCH then
         (let fr = fr\<lparr>ecode := ecode fr + link_at md (ecode fr) 1\<rparr> in
          if op_at md (ecode fr) = OP_ALT then assert_not_loop rm save_mark md fr
          else Some (Inr (md, fr)))
       else if rrc = MATCH_THEN \<or> rrc = MATCH_COMMIT \<or> rrc = MATCH_SKIP \<or> rrc = MATCH_SKIP_ARG \<or>
               rrc = MATCH_PRUNE then do {
         ket \<leftarrow> skip_alts (start_code md) (ecode fr);
         Some (Inr (md, fr\<lparr>ecode := ket\<rparr>)) }
       else Some (Inl (rrc, md)) }"

definition case_ASSERT_NOT :: "matcher \<Rightarrow> match_data \<Rightarrow> frame \<Rightarrow> outcome option" where
  "case_ASSERT_NOT rm md fr = do {
     let condassert = (match_function_type md = MATCH_CONDASSERT);
     let md = (if condassert then md\<lparr>match_function_type := 0\<rparr> else md);
     r \<leftarrow> assert_not_loop rm (mark md) md fr;
     (case r of
        Inl (rrc, md) \<Rightarrow> Some (Ret rrc md)
      | Inr (md, fr) \<Rightarrow>
          if condassert then Some (Ret MATCH_MATCH md)
          else Some (Cont (fr\<lparr>ecode := ecode fr + 1 + LINK_SIZE\<rparr>) md)) }"

subsection \<open>Lookbehind and callouts\<close>

text \<open>Back over \<open>n\<close> characters; \<open>None\<close> where the start of the subject is in the way.\<close>

fun reverse_utf :: "byte list \<Rightarrow> nat \<Rightarrow> nat \<Rightarrow> nat option" where
  "reverse_utf s 0 e = Some e"
| "reverse_utf s (Suc n) e = (if e = 0 then None else reverse_utf s n (backchar s (e - 1)))"

definition case_REVERSE :: "match_data \<Rightarrow> frame \<Rightarrow> outcome option" where
  "case_REVERSE md fr =
    (let i = link_at md (ecode fr) 1;
         back = (if utf md then reverse_utf (start_subject md) i (eptr fr)
                 else if eptr fr < i then None else Some (eptr fr - i))
     in case back of
          None \<Rightarrow> Some (Ret MATCH_NOMATCH md)
        | Some e \<Rightarrow>
            Some (Cont (fr\<lparr>eptr := e, ecode := ecode fr + 1 + LINK_SIZE\<rparr>)
              (if e < start_used_ptr md then md\<lparr>start_used_ptr := e\<rparr> else md)))"

definition case_CALLOUT :: "match_data \<Rightarrow> frame \<Rightarrow> outcome option" where
  "case_CALLOUT md fr =
    (let rrc = do_callout md fr (ecode fr) in
     if rrc > 0 then Some (Ret MATCH_NOMATCH md)
     else if rrc < 0 then Some (Ret rrc md)
     else Some (Cont (fr\<lparr>ecode := ecode fr + 2 + 2 * LINK_SIZE\<rparr>) md))"

subsection \<open>Recursion\<close>

text \<open>The restoration after each alternative of the called group.\<close>

definition restore_recursion :: "recursion_info \<Rightarrow> recursion_info list \<Rightarrow> match_data \<Rightarrow> match_data" where
  "restore_recursion ri prevrec md =
    md\<lparr>offset_vector := take (offset_end md) (offset_save ri) @ drop (offset_end md) (offset_vector md),
       capture_last := saved_capture_last ri, recursive := prevrec\<rparr>"

partial_function (option) recurse_loop ::
  "matcher \<Rightarrow> bool \<Rightarrow> recursion_info \<Rightarrow> recursion_info list \<Rightarrow> nat \<Rightarrow> match_data \<Rightarrow> frame \<Rightarrow> outcome option"
where
  [code]: "recurse_loop rm cbegroup ri prevrec callpat md fr = do {
     (rrc, md) \<leftarrow> RMATCH rm (set_cbegroup cbegroup md) (fr\<lparr>ecode := callpat + op_length (op_at md callpat)\<rparr>);
     let md = restore_recursion ri prevrec md;
     if rrc = MATCH_MATCH \<or> rrc = MATCH_ACCEPT
     then Some (Cont (fr\<lparr>eptr := end_match_ptr md, mstart := start_match_ptr md\<rparr>) md)
     else if MATCH_BACKTRACK_MIN \<le> rrc \<and> rrc \<le> MATCH_BACKTRACK_MAX then Some (Ret MATCH_NOMATCH md)
     else if rrc \<noteq> MATCH_NOMATCH then Some (Ret rrc md)
     else
       let md = md\<lparr>recursive := ri # prevrec\<rparr>;
           callpat = callpat + link_at md callpat 1
       in if op_at md callpat = OP_ALT then recurse_loop rm cbegroup ri prevrec callpat md fr
          else Some (Ret MATCH_NOMATCH (md\<lparr>recursive := prevrec\<rparr>)) }"

definition case_RECURSE :: "matcher \<Rightarrow> match_data \<Rightarrow> frame \<Rightarrow> outcome option" where
  "case_RECURSE rm md fr =
    (let callpat = link_at md (ecode fr) 1;
         recno = (if callpat = 0 then 0 else GET2 (start_code md) callpat (1 + LINK_SIZE)) in
     if list_ex (\<lambda>ri. recno = group_num ri \<and> eptr fr = subject_position ri) (recursive md)
     then Some (Ret PCRE_ERROR_RECURSELOOP md)
     else
       let prevrec = recursive md;
           ri = \<lparr>group_num = recno, offset_save = offset_vector md,
                 saved_capture_last = capture_last md, subject_position = eptr fr\<rparr>;
           md = md\<lparr>recursive := ri # prevrec\<rparr>
       in if offset_end md > 30 \<and> \<not> malloc_ok md (offset_end md * 4)
          then Some (Ret PCRE_ERROR_NOMEMORY md)
          else recurse_loop rm (op_at md callpat \<ge> OP_SBRA) ri prevrec callpat md
                 (fr\<lparr>ecode := ecode fr + 1 + LINK_SIZE\<rparr>))"

subsection \<open>Alternation and zero repeats\<close>

definition case_ALT :: "match_data \<Rightarrow> frame \<Rightarrow> outcome option" where
  "case_ALT md fr = do {
     ket \<leftarrow> skip_alts (start_code md) (ecode fr);
     Some (Cont (fr\<lparr>ecode := ket\<rparr>) md) }"

definition case_BRAZERO :: "matcher \<Rightarrow> match_data \<Rightarrow> frame \<Rightarrow> outcome option" where
  "case_BRAZERO rm md fr = do {
     let next = ecode fr + 1;
     (rrc, md) \<leftarrow> RMATCH rm md (fr\<lparr>ecode := next\<rparr>);
     if rrc \<noteq> MATCH_NOMATCH then Some (Ret rrc md)
     else do {
       ket \<leftarrow> skip_alts (start_code md) next;
       Some (Cont (fr\<lparr>ecode := ket + 1 + LINK_SIZE\<rparr>) md) } }"

definition case_BRAMINZERO :: "matcher \<Rightarrow> match_data \<Rightarrow> frame \<Rightarrow> outcome option" where
  "case_BRAMINZERO rm md fr = do {
     ket \<leftarrow> skip_alts (start_code md) (ecode fr + 1);
     (rrc, md) \<leftarrow> RMATCH rm md (fr\<lparr>ecode := ket + 1 + LINK_SIZE\<rparr>);
     Some (if rrc \<noteq> MATCH_NOMATCH then Ret rrc md else Cont (fr\<lparr>ecode := ecode fr + 1\<rparr>) md) }"

definition case_SKIPZERO :: "match_data \<Rightarrow> frame \<Rightarrow> outcome option" where
  "case_SKIPZERO md fr = do {
     ket \<leftarrow> skip_alts (start_code md) (ecode fr + 1);
     Some (Cont (fr\<lparr>ecode := ket + 1 + LINK_SIZE\<rparr>) md) }"

definition case_BRAPOSZERO :: "matcher \<Rightarrow> match_data \<Rightarrow> frame \<Rightarrow> outcome option" where
  "case_BRAPOSZERO rm md fr =
    (let fr = fr\<lparr>ecode := ecode fr + 1\<rparr>; op = op_at md (ecode fr) in
     if op = OP_CBRAPOS \<or> op = OP_SCBRAPOS then possessive_capture rm True op md fr
     else possessive_non_capture rm True op md fr)"

subsection \<open>Group ends\<close>

text \<open>The capture of a group at its end: the new block and \<open>offset_top\<close>.\<close>

definition ket_capture :: "nat \<Rightarrow> match_data \<Rightarrow> frame \<Rightarrow> match_data \<times> nat" where
  "ket_capture number md fr =
    (let offset = 2 * number; md = mark_capture number md in
     if offset \<ge> offset_max md then (md, offset_top fr)
     else
       let md = (if offset > offset_top fr then unset_range (offset_top fr) offset md else md);
           md = set_ov (offset + 1) (int (eptr fr)) (set_ov offset (ov md (offset_end md - number)) md)
       in (md, if offset_top fr \<le> offset then offset + 2 else offset_top fr))"

text \<open>The ways on from a ket, after the capture; \<open>saved_eptr\<close> is the subject start of the group.\<close>

definition ket_repeat :: "matcher \<Rightarrow> nat \<Rightarrow> nat option \<Rightarrow> match_data \<Rightarrow> frame \<Rightarrow> outcome option" where
  "ket_repeat rm prev saved_eptr md fr =
    (let pop = op_at md prev;
         op = op_at md (ecode fr);
         after = fr\<lparr>ecode := ecode fr + 1 + LINK_SIZE\<rparr>;
         once = (\<lambda>md. Ret MATCH_ONCE (md\<lparr>once_target := Some prev\<rparr>))
     in if op = OP_KETRPOS then
          Some (Ret MATCH_KETRPOS
            (md\<lparr>start_match_ptr := mstart fr, end_match_ptr := eptr fr, end_offset_top := offset_top fr\<rparr>))
        else if op = OP_KET \<or> saved_eptr = Some (eptr fr) then
          (if pop = OP_ONCE then do {
             (rrc, md) \<leftarrow> RMATCH rm md after;
             Some (if rrc \<noteq> MATCH_NOMATCH then Ret rrc md else once md) }
           else Some (Cont after md))
        else if op = OP_KETRMIN then do {
          (rrc, md) \<leftarrow> RMATCH rm md after;
          if rrc \<noteq> MATCH_NOMATCH then Some (Ret rrc md)
          else if pop = OP_ONCE then do {
            (rrc, md) \<leftarrow> RMATCH rm md (fr\<lparr>ecode := prev\<rparr>);
            Some (if rrc \<noteq> MATCH_NOMATCH then Ret rrc md else once md) }
          else if pop \<ge> OP_SBRA then do {
            (rrc, md) \<leftarrow> RMATCH rm md (fr\<lparr>ecode := prev\<rparr>);
            Some (Ret rrc md) }
          else Some (Tail (fr\<lparr>ecode := prev\<rparr>) md) }
        else do {
          (rrc, md) \<leftarrow> RMATCH rm md (fr\<lparr>ecode := prev\<rparr>);
          let rrc = (if rrc = MATCH_ONCE \<and> once_target md = Some prev then MATCH_NOMATCH else rrc);
          if rrc \<noteq> MATCH_NOMATCH then Some (Ret rrc md)
          else if pop = OP_ONCE then do {
            (rrc, md) \<leftarrow> RMATCH rm md after;
            Some (if rrc \<noteq> MATCH_NOMATCH then Ret rrc md else once md) }
          else Some (Tail after md) })"

text \<open>What happens at a ket before the repeat, once the chain of subject pointers is taken up.\<close>

definition ket_body :: "matcher \<Rightarrow> nat \<Rightarrow> nat option \<Rightarrow> match_data \<Rightarrow> frame \<Rightarrow> outcome option" where
  "ket_body rm prev saved_eptr md fr =
    (let pop = op_at md prev in
     if (pop \<ge> OP_ASSERT \<and> pop \<le> OP_ASSERTBACK_NOT) \<or> pop = OP_ONCE_NC then
       Some (Ret MATCH_MATCH
         (md\<lparr>end_match_ptr := eptr fr, end_offset_top := offset_top fr, start_match_ptr := mstart fr\<rparr>))
     else if pop = OP_CBRA \<or> pop = OP_SCBRA \<or> pop = OP_CBRAPOS \<or> pop = OP_SCBRAPOS then
       (let number = GET2 (start_code md) prev (1 + LINK_SIZE) in
        if recursing_into md number then
          Some (Ret MATCH_MATCH (md\<lparr>end_match_ptr := eptr fr, start_match_ptr := mstart fr\<rparr>))
        else
          let (md, otop) = ket_capture number md fr in
          ket_repeat rm prev saved_eptr md (fr\<lparr>offset_top := otop\<rparr>))
     else ket_repeat rm prev saved_eptr md fr)"

definition case_KET :: "matcher \<Rightarrow> match_data \<Rightarrow> frame \<Rightarrow> outcome option" where
  "case_KET rm md fr =
    (let prev = ecode fr - link_at md (ecode fr) 1; pop = op_at md prev in
     if pop \<ge> OP_SBRA \<or> pop = OP_ONCE then
       (case eptrb fr of
          [] \<Rightarrow> None
        | saved # chain \<Rightarrow> ket_body rm prev (Some saved) md (fr\<lparr>eptrb := chain\<rparr>))
     else ket_body rm prev None md fr)"

end
