(* ===== verification/ExecChars.thy ===== *)
theory ExecChars
  imports ExecState
begin

text \<open>
  The codes of \<open>match()\<close> that look at the subject once: line and word assertions, the single
  characters and character types, and the comparison \<open>match_ref\<close> with a captured string.
\<close>

subsection \<open>Subject and line assertions\<close>

definition next_op :: "frame \<Rightarrow> frame" where
  "next_op fr = fr\<lparr>ecode := ecode fr + 1\<rparr>"

definition case_SOD :: "match_data \<Rightarrow> frame \<Rightarrow> outcome option" where
  "case_SOD md fr =
    Some (if eptr fr \<noteq> 0 then Ret MATCH_NOMATCH md else Cont (next_op fr) md)"

definition case_CIRC :: "match_data \<Rightarrow> frame \<Rightarrow> outcome option" where
  "case_CIRC md fr =
    (if notbol md \<and> eptr fr = 0 then Some (Ret MATCH_NOMATCH md) else case_SOD md fr)"

definition case_CIRCM :: "match_data \<Rightarrow> frame \<Rightarrow> outcome option" where
  "case_CIRCM md fr =
    (if notbol md \<and> eptr fr = 0 then Some (Ret MATCH_NOMATCH md)
     else if eptr fr \<noteq> 0 then
       (if eptr fr = end_subject md then Some (Ret MATCH_NOMATCH md)
        else
          let (was, md) = md_was_newline md (eptr fr) in
          Some (if \<not> was then Ret MATCH_NOMATCH md else Cont (next_op fr) md))
     else Some (Cont (next_op fr) md))"

definition case_SOM :: "match_data \<Rightarrow> frame \<Rightarrow> outcome option" where
  "case_SOM md fr =
    Some (if eptr fr \<noteq> start_offset md then Ret MATCH_NOMATCH md else Cont (next_op fr) md)"

definition case_SET_SOM :: "match_data \<Rightarrow> frame \<Rightarrow> outcome option" where
  "case_SET_SOM md fr = Some (Cont (next_op (fr\<lparr>mstart := eptr fr\<rparr>)) md)"

text \<open>The first byte of a two-byte fixed newline at the end of a partial subject.\<close>

definition partial_newline :: "match_data \<Rightarrow> nat \<Rightarrow> match_data \<times> bool" where
  "partial_newline md e =
    (if partial md \<noteq> 0 \<and> e + 1 \<ge> end_subject md \<and> nltype md = NLTYPE_FIXED \<and> nllen md = 2 \<and>
        rd (start_subject md) e = rd (nl md) 0
     then (md\<lparr>hitend := True\<rparr>, partial md > 1) else (md, False))"

definition case_DOLLM :: "match_data \<Rightarrow> frame \<Rightarrow> outcome option" where
  "case_DOLLM md fr =
    (if eptr fr < end_subject md then
       (let (is_nl, md) = md_is_newline md (eptr fr) in
        Some (if \<not> is_nl then partial_fail (partial_newline md (eptr fr)) else Cont (next_op fr) md))
     else if noteol md then Some (Ret MATCH_NOMATCH md)
     else Some (partial_cont (scheck_partial md (eptr fr)) (next_op fr)))"

definition case_EOD :: "match_data \<Rightarrow> frame \<Rightarrow> outcome option" where
  "case_EOD md fr =
    Some (if eptr fr < end_subject md then Ret MATCH_NOMATCH md
          else partial_cont (scheck_partial md (eptr fr)) (next_op fr))"

text \<open>In the test for a newline that ends the subject, \<open>nllen\<close> is that of the newline just seen.\<close>

definition case_EODN :: "match_data \<Rightarrow> frame \<Rightarrow> outcome option" where
  "case_EODN md fr =
    (if eptr fr < end_subject md then
       (let (is_nl, md) = md_is_newline md (eptr fr) in
        Some (if \<not> is_nl \<or> eptr fr + nllen md \<noteq> end_subject md
              then partial_fail (partial_newline md (eptr fr))
              else partial_cont (scheck_partial md (eptr fr)) (next_op fr)))
     else Some (partial_cont (scheck_partial md (eptr fr)) (next_op fr)))"

definition case_DOLL :: "match_data \<Rightarrow> frame \<Rightarrow> outcome option" where
  "case_DOLL md fr =
    (if noteol md then Some (Ret MATCH_NOMATCH md)
     else if \<not> endonly md then case_EODN md fr
     else case_EOD md fr)"

subsection \<open>Word boundaries\<close>

definition is_word :: "match_data \<Rightarrow> cchar \<Rightarrow> bool" where
  "is_word md c \<longleftrightarrow>
    (if use_ucp md then
       c = CHAR_UNDERSCORE \<or> UCD_CATEGORY (ucd md) c = ucp_L \<or> UCD_CATEGORY (ucd md) c = ucp_N
     else has_ctype md ctype_word c)"

definition char_at :: "match_data \<Rightarrow> nat \<Rightarrow> cchar" where
  "char_at md e = fst (getcharlentest (utf md) (start_subject md) e)"

definition prev_is_word :: "match_data \<Rightarrow> nat \<Rightarrow> bool \<times> match_data" where
  "prev_is_word md e =
    (if e = 0 then (False, md)
     else if utf md then
       (let lastptr = backchar (start_subject md) (e - 1);
            md = (if lastptr < start_used_ptr md then md\<lparr>start_used_ptr := lastptr\<rparr> else md)
        in (is_word md (char_at md lastptr), md))
     else
       (let md = (if e \<le> start_used_ptr md then md\<lparr>start_used_ptr := e - 1\<rparr> else md)
        in (is_word md (char_at md (e - 1)), md)))"

definition case_WORD_BOUNDARY :: "match_data \<Rightarrow> frame \<Rightarrow> outcome option" where
  "case_WORD_BOUNDARY md fr =
    (let op = op_at md (ecode fr);
         (prev, md) = prev_is_word md (eptr fr);
         (md, stop) = (if eptr fr \<ge> end_subject md then scheck_partial md (eptr fr) else (md, False));
         cur = (eptr fr < end_subject md \<and> is_word md (char_at md (eptr fr)))
     in Some (if stop then Ret PCRE_ERROR_PARTIAL md
              else if (if op = OP_WORD_BOUNDARY then cur = prev else cur \<noteq> prev)
              then Ret MATCH_NOMATCH md else Cont (next_op fr) md))"

subsection \<open>Any character\<close>

definition case_ALLANY :: "match_data \<Rightarrow> frame \<Rightarrow> outcome option" where
  "case_ALLANY md fr =
    Some (if eptr fr \<ge> end_subject md then partial_fail (scheck_partial md (eptr fr))
          else
            let e = eptr fr + 1;
                e = (if utf md then acrosschar (start_subject md) (end_subject md) e else e)
            in Cont (next_op (fr\<lparr>eptr := e\<rparr>)) md)"

definition case_ANY :: "match_data \<Rightarrow> frame \<Rightarrow> outcome option" where
  "case_ANY md fr =
    (let (is_nl, md) = md_is_newline md (eptr fr) in
     if is_nl then Some (Ret MATCH_NOMATCH md)
     else
       let (md, stop) =
         (if eptr fr + 1 = end_subject md then partial_newline md (eptr fr) else (md, False))
       in if stop then Some (Ret PCRE_ERROR_PARTIAL md) else case_ALLANY md fr)"

definition case_ANYBYTE :: "match_data \<Rightarrow> frame \<Rightarrow> outcome option" where
  "case_ANYBYTE md fr =
    Some (if eptr fr \<ge> end_subject md then partial_fail (scheck_partial md (eptr fr))
          else Cont (next_op (fr\<lparr>eptr := eptr fr + 1\<rparr>)) md)"

subsection \<open>Character types\<close>

text \<open>\<open>GETCHARINCTEST(c, eptr)\<close> after the test for the end of the subject.\<close>

definition with_char :: "match_data \<Rightarrow> frame \<Rightarrow> (cchar \<Rightarrow> frame \<Rightarrow> outcome) \<Rightarrow> outcome option" where
  "with_char md fr k =
    Some (if eptr fr \<ge> end_subject md then partial_fail (scheck_partial md (eptr fr))
          else
            let (c, e) = getcharinctest (utf md) (start_subject md) (eptr fr)
            in k c (fr\<lparr>eptr := e\<rparr>))"

definition type_test :: "match_data \<Rightarrow> nat \<Rightarrow> cchar \<Rightarrow> bool" where
  "type_test md op c \<longleftrightarrow>
    (if op = OP_NOT_DIGIT then \<not> has_ctype md ctype_digit c
     else if op = OP_DIGIT then has_ctype md ctype_digit c
     else if op = OP_NOT_WHITESPACE then \<not> has_ctype md ctype_space c
     else if op = OP_WHITESPACE then has_ctype md ctype_space c
     else if op = OP_NOT_WORDCHAR then \<not> has_ctype md ctype_word c
     else has_ctype md ctype_word c)"

definition case_TYPE :: "match_data \<Rightarrow> frame \<Rightarrow> outcome option" where
  "case_TYPE md fr = with_char md fr (\<lambda>c fr.
    if \<not> type_test md (op_at md (ecode fr)) c then Ret MATCH_NOMATCH md else Cont (next_op fr) md)"

definition case_ANYNL :: "match_data \<Rightarrow> frame \<Rightarrow> outcome option" where
  "case_ANYNL md fr = with_char md fr (\<lambda>c fr.
    if c = CHAR_CR then
      (if eptr fr \<ge> end_subject md then partial_cont (scheck_partial md (eptr fr)) (next_op fr)
       else if unat (rd (start_subject md) (eptr fr)) = CHAR_LF
       then Cont (next_op (fr\<lparr>eptr := eptr fr + 1\<rparr>)) md
       else Cont (next_op fr) md)
    else if c = CHAR_LF then Cont (next_op fr) md
    else if c \<in> {CHAR_VT, CHAR_FF, CHAR_NEL, 0x2028, 0x2029} then
      (if bsr_anycrlf md then Ret MATCH_NOMATCH md else Cont (next_op fr) md)
    else Ret MATCH_NOMATCH md)"

definition space_test :: "nat \<Rightarrow> cchar \<Rightarrow> bool" where
  "space_test op c \<longleftrightarrow>
    (if op = OP_NOT_HSPACE then \<not> is_hspace c
     else if op = OP_HSPACE then is_hspace c
     else if op = OP_NOT_VSPACE then \<not> is_vspace c
     else is_vspace c)"

definition case_HVSPACE :: "match_data \<Rightarrow> frame \<Rightarrow> outcome option" where
  "case_HVSPACE md fr = with_char md fr (\<lambda>c fr.
    if \<not> space_test (op_at md (ecode fr)) c then Ret MATCH_NOMATCH md else Cont (next_op fr) md)"

text \<open>
  The property that \<open>\<open>\p\<close>\<close> tests, before the negation of \<open>\<open>\P\<close>\<close>; \<open>None\<close> is the default case,
  an internal error.
\<close>

definition prop_value :: "ucd_tables \<Rightarrow> nat \<Rightarrow> nat \<Rightarrow> cchar \<Rightarrow> bool option" where
  "prop_value T pt pv c =
    (let prop = GET_UCD T c; ct = chartype prop; gen = nth_default 0 ucp_gentype ct in
     if pt = PT_ANY then Some True
     else if pt = PT_LAMP then Some (ct = ucp_Lu \<or> ct = ucp_Ll \<or> ct = ucp_Lt)
     else if pt = PT_GC then Some (pv = gen)
     else if pt = PT_PC then Some (pv = ct)
     else if pt = PT_SC then Some (pv = script prop)
     else if pt = PT_ALNUM then Some (gen = ucp_L \<or> gen = ucp_N)
     else if pt = PT_SPACE \<or> pt = PT_PXSPACE then
       Some (if is_hspace c \<or> is_vspace c then True else gen = ucp_Z)
     else if pt = PT_WORD then Some (gen = ucp_L \<or> gen = ucp_N \<or> c = CHAR_UNDERSCORE)
     else if pt = PT_CLIST then Some (in_caseless_set T c pv)
     else if pt = PT_UCNC then
       Some (c = CHAR_DOLLAR_SIGN \<or> c = CHAR_COMMERCIAL_AT \<or> c = CHAR_GRAVE_ACCENT \<or>
             (c \<ge> 0xa0 \<and> c \<le> 0xd7ff) \<or> c \<ge> 0xe000)
     else None)"

definition case_PROP :: "match_data \<Rightarrow> frame \<Rightarrow> outcome option" where
  "case_PROP md fr = with_char md fr (\<lambda>c fr.
    case prop_value (ucd md) (op_at md (ecode fr + 1)) (op_at md (ecode fr + 2)) c of
      None \<Rightarrow> Ret PCRE_ERROR_INTERNAL md
    | Some v \<Rightarrow>
        if v = (op_at md (ecode fr) = OP_NOTPROP) then Ret MATCH_NOMATCH md
        else Cont (fr\<lparr>ecode := ecode fr + 3\<rparr>) md)"

text \<open>The rest of an extended grapheme cluster, after a character with the property \<open>lgb\<close>.\<close>

function extuni_loop :: "match_data \<Rightarrow> nat \<Rightarrow> nat \<Rightarrow> nat" where
  "extuni_loop md lgb e =
    (if e < end_subject md then
       (let (c, len) = getcharlentest (utf md) (start_subject md) e;
            rgb = UCD_GRAPHBREAK (ucd md) c
        in if \<not> gb_no_break lgb rgb then e else extuni_loop md rgb (e + len))
     else e)"
  by pat_completeness auto
termination
  by (relation "measure (\<lambda>(md, lgb, e). end_subject md - e)")
    (auto simp: getcharlentest_def Let_def split: if_splits)

declare extuni_loop.simps [simp del]

definition case_EXTUNI :: "match_data \<Rightarrow> frame \<Rightarrow> outcome option" where
  "case_EXTUNI md fr = with_char md fr (\<lambda>c fr.
    let e = extuni_loop md (UCD_GRAPHBREAK (ucd md) c) (eptr fr)
    in partial_cont (check_partial md e) (next_op (fr\<lparr>eptr := e\<rparr>)))"

subsection \<open>Single characters\<close>

text \<open>The comparison of \<open>length\<close> bytes of the code with the subject.\<close>

fun same_bytes :: "byte list \<Rightarrow> nat \<Rightarrow> byte list \<Rightarrow> nat \<Rightarrow> nat \<Rightarrow> bool" where
  "same_bytes s e t p 0 = True"
| "same_bytes s e t p (Suc n) = (if rd t p \<noteq> rd s e then False else same_bytes s (e + 1) t (p + 1) n)"

definition case_CHAR :: "match_data \<Rightarrow> frame \<Rightarrow> outcome option" where
  "case_CHAR md fr =
    Some (if utf md then
       (let ec = ecode fr + 1; len = snd (getcharlentest True (start_code md) ec) in
        if len > end_subject md - eptr fr then partial_fail (check_partial md (eptr fr))
        else if \<not> same_bytes (start_subject md) (eptr fr) (start_code md) ec len then Ret MATCH_NOMATCH md
        else Cont (fr\<lparr>ecode := ec + len, eptr := eptr fr + len\<rparr>) md)
     else if end_subject md - eptr fr < 1 then partial_fail (scheck_partial md (eptr fr))
     else if rd (start_code md) (ecode fr + 1) \<noteq> rd (start_subject md) (eptr fr) then Ret MATCH_NOMATCH md
     else Cont (fr\<lparr>ecode := ecode fr + 2, eptr := eptr fr + 1\<rparr>) md)"

definition case_CHARI :: "match_data \<Rightarrow> frame \<Rightarrow> outcome option" where
  "case_CHARI md fr =
    Some (if eptr fr \<ge> end_subject md then partial_fail (scheck_partial md (eptr fr))
     else if utf md then
       (let ec = ecode fr + 1; (fc, len) = getcharlentest True (start_code md) ec in
        if fc < 128 then
          (if unat (rd (lcc md) fc) \<noteq> table_get (lcc md) (unat (rd (start_subject md) (eptr fr)))
           then Ret MATCH_NOMATCH md
           else Cont (fr\<lparr>ecode := ec + 1, eptr := eptr fr + 1\<rparr>) md)
        else
          (let (dc, e) = getcharinc (start_subject md) (eptr fr) in
           if fc \<noteq> dc \<and> dc \<noteq> UCD_OTHERCASE (ucd md) fc then Ret MATCH_NOMATCH md
           else Cont (fr\<lparr>ecode := ec + len, eptr := e\<rparr>) md))
     else if table_get (lcc md) (unat (rd (start_code md) (ecode fr + 1))) \<noteq>
             table_get (lcc md) (unat (rd (start_subject md) (eptr fr))) then Ret MATCH_NOMATCH md
     else Cont (fr\<lparr>ecode := ecode fr + 2, eptr := eptr fr + 1\<rparr>) md)"

definition case_NOT :: "match_data \<Rightarrow> frame \<Rightarrow> outcome option" where
  "case_NOT md fr =
    Some (if eptr fr \<ge> end_subject md then partial_fail (scheck_partial md (eptr fr))
     else if utf md then
       (let (ch, ec) = getcharinc (start_code md) (ecode fr + 1);
            (c, e) = getcharinc (start_subject md) (eptr fr);
            och = (if ch > 127 then UCD_OTHERCASE (ucd md) ch else table_get (fcc md) ch)
        in if (if op_at md (ecode fr) = OP_NOT then ch = c else ch = c \<or> och = c)
           then Ret MATCH_NOMATCH md else Cont (fr\<lparr>ecode := ec, eptr := e\<rparr>) md)
     else
       (let ch = op_at md (ecode fr + 1); c = unat (rd (start_subject md) (eptr fr)) in
        if ch = c \<or> (op_at md (ecode fr) = OP_NOTI \<and> table_get (fcc md) ch = c)
        then Ret MATCH_NOMATCH md
        else Cont (fr\<lparr>ecode := ecode fr + 2, eptr := eptr fr + 1\<rparr>) md))"

subsection \<open>Back references\<close>

text \<open>
  \<open>match_ref\<close>: the new subject pointer, or -1 for no match and -2 for the end of the subject.
\<close>

function ref_loop_utf :: "match_data \<Rightarrow> nat \<Rightarrow> nat \<Rightarrow> nat \<Rightarrow> int + nat" where
  "ref_loop_utf md p endptr e =
    (if p < endptr then
       (if e \<ge> end_subject md then Inl (-2)
        else
          let (c, e') = getcharinc (start_subject md) e;
              (d, p') = getcharinc (start_subject md) p
          in if c \<noteq> d \<and> c \<noteq> UCD_OTHERCASE (ucd md) d \<and>
                \<not> in_caseless_set (ucd md) c (caseset (GET_UCD (ucd md) d))
             then Inl (-1) else ref_loop_utf md p' endptr e')
     else Inr e)"
  by pat_completeness auto
termination
  by (relation "measure (\<lambda>(md, p, endptr, e). endptr - p)")
    (auto simp: getcharinc_def getcharinctest_def getcharlentest_def Let_def split: if_splits)

declare ref_loop_utf.simps [simp del]

fun ref_loop_caseless :: "match_data \<Rightarrow> nat \<Rightarrow> nat \<Rightarrow> nat \<Rightarrow> int + nat" where
  "ref_loop_caseless md p 0 e = Inr e"
| "ref_loop_caseless md p (Suc n) e =
     (if e \<ge> end_subject md then Inl (-2)
      else if table_get (lcc md) (unat (rd (start_subject md) p)) \<noteq>
              table_get (lcc md) (unat (rd (start_subject md) e)) then Inl (-1)
      else ref_loop_caseless md (p + 1) n (e + 1))"

fun ref_loop_caseful :: "match_data \<Rightarrow> nat \<Rightarrow> nat \<Rightarrow> nat \<Rightarrow> int + nat" where
  "ref_loop_caseful md p 0 e = Inr e"
| "ref_loop_caseful md p (Suc n) e =
     (if e \<ge> end_subject md then Inl (-2)
      else if rd (start_subject md) p \<noteq> rd (start_subject md) e then Inl (-1)
      else ref_loop_caseful md (p + 1) n (e + 1))"

definition match_ref :: "match_data \<Rightarrow> nat \<Rightarrow> nat \<Rightarrow> int \<Rightarrow> bool \<Rightarrow> int + nat" where
  "match_ref md offset e len caseless =
    (let p = nat (ov md offset) in
     if len < 0 then Inl (-1)
     else if caseless then
       (if utf md then ref_loop_utf md p (p + nat len) e else ref_loop_caseless md p (nat len) e)
     else ref_loop_caseful md p (nat len) e)"

end
