(* ===== verification/ExecRepeat.thy ===== *)
theory ExecRepeat
  imports ExecChars
begin

text \<open>
  The repeats of \<open>match()\<close>: back references, classes, single characters and negated characters.
  The source writes the same three loops (the minimum, minimizing, maximizing) and the backing
  off once for every kind of item and for every width of character; here the loops are functions of
  the step that tries one item, and each opcode supplies its step. A step advances over one item
  (\<open>Adv\<close>, and \<open>Last\<close> where the code also leaves the maximizing loop), finds that there is none
  (\<open>Stop\<close>), or makes \<open>match()\<close> return (\<open>Quit\<close>).
\<close>

datatype step_result =
  Adv match_data nat | Last match_data nat | Stop match_data | Quit int match_data

definition stop_partial :: "match_data \<times> bool \<Rightarrow> step_result" where
  "stop_partial r = (case r of (md, stop) \<Rightarrow> if stop then Quit PCRE_ERROR_PARTIAL md else Stop md)"

type_synonym stepper = "match_data \<Rightarrow> nat \<Rightarrow> step_result option"

subsection \<open>The loops\<close>

text \<open>\<open>for (i = 1; i <= min; i++)\<close>: all items must be there.\<close>

fun rep_min_loop :: "stepper \<Rightarrow> nat \<Rightarrow> match_data \<Rightarrow> nat \<Rightarrow> (outcome + (match_data \<times> nat)) option" where
  "rep_min_loop stp 0 md e = Some (Inr (md, e))"
| "rep_min_loop stp (Suc n) md e = do {
     r \<leftarrow> stp md e;
     (case r of
        Adv md e \<Rightarrow> rep_min_loop stp n md e
      | Last md e \<Rightarrow> rep_min_loop stp n md e
      | Stop md \<Rightarrow> Some (Inl (Ret MATCH_NOMATCH md))
      | Quit rrc md \<Rightarrow> Some (Inl (Ret rrc md))) }"

text \<open>\<open>for (fi = min;; fi++)\<close>: the rest of the pattern first, then one more item.\<close>

function rep_lazy :: "matcher \<Rightarrow> stepper \<Rightarrow> nat \<Rightarrow> nat \<Rightarrow> match_data \<Rightarrow> frame \<Rightarrow> outcome option" where
  "rep_lazy rm stp fi mx md fr = do {
     (rrc, md) \<leftarrow> RMATCH rm md fr;
     if rrc \<noteq> MATCH_NOMATCH then Some (Ret rrc md)
     else if fi \<ge> mx then Some (Ret MATCH_NOMATCH md)
     else do {
       r \<leftarrow> stp md (eptr fr);
       (case r of
          Adv md e \<Rightarrow> rep_lazy rm stp (fi + 1) mx md (fr\<lparr>eptr := e\<rparr>)
        | Last md e \<Rightarrow> rep_lazy rm stp (fi + 1) mx md (fr\<lparr>eptr := e\<rparr>)
        | Stop md \<Rightarrow> Some (Ret MATCH_NOMATCH md)
        | Quit rrc md \<Rightarrow> Some (Ret rrc md)) } }"
  by pat_completeness auto
termination
  by (relation "measure (\<lambda>(rm, stp, fi, mx, md, fr). mx - fi)") auto

declare rep_lazy.simps [simp del]

text \<open>\<open>for (i = min; i < max; i++)\<close>: as many items as there are.\<close>

function rep_greedy :: "stepper \<Rightarrow> nat \<Rightarrow> nat \<Rightarrow> match_data \<Rightarrow> nat \<Rightarrow> (outcome + (match_data \<times> nat)) option" where
  "rep_greedy stp i mx md e =
    (if i < mx then do {
       r \<leftarrow> stp md e;
       (case r of
          Adv md e \<Rightarrow> rep_greedy stp (i + 1) mx md e
        | Last md e \<Rightarrow> Some (Inr (md, e))
        | Stop md \<Rightarrow> Some (Inr (md, e))
        | Quit rrc md \<Rightarrow> Some (Inl (Ret rrc md))) }
     else Some (Inr (md, e)))"
  by pat_completeness auto
termination
  by (relation "measure (\<lambda>(stp, i, mx, md, e). mx - i)") auto

declare rep_greedy.simps [simp del]

text \<open>
  Backing off one character, one byte where all the items are single bytes, or one newline
  sequence. Classes also try the first position with a recursive call; characters leave it to a
  tail recursion.
\<close>

datatype back_mode = Back_byte | Back_char | Back_newline

definition back_one :: "back_mode \<Rightarrow> match_data \<Rightarrow> nat \<Rightarrow> nat \<Rightarrow> nat" where
  "back_one m md pp e =
    (let s = start_subject md;
         e' = (if utf md \<and> m \<noteq> Back_byte then backchar s (e - 1) else e - 1)
     in if m = Back_newline \<and> e' > pp \<and> unat (rd s e') = CHAR_LF \<and> unat (rd s (e' - 1)) = CHAR_CR
        then e' - 1 else e')"

lemma back_one_less: "0 < e \<Longrightarrow> back_one m md pp e < e"
  using backchar_le [of "start_subject md" "e - 1"] by (auto simp: back_one_def Let_def)

function back_class :: "matcher \<Rightarrow> nat \<Rightarrow> match_data \<Rightarrow> frame \<Rightarrow> outcome option" where
  "back_class rm pp md fr = do {
     (rrc, md) \<leftarrow> RMATCH rm md fr;
     if rrc \<noteq> MATCH_NOMATCH then Some (Ret rrc md)
     else if eptr fr \<le> pp then Some (Ret MATCH_NOMATCH md)
     else back_class rm pp md (fr\<lparr>eptr := back_one Back_char md pp (eptr fr)\<rparr>) }"
  by pat_completeness auto
termination
  by (relation "measure (\<lambda>(rm, pp, md, fr). eptr fr)") (auto intro: back_one_less)

declare back_class.simps [simp del]

function back_tail :: "matcher \<Rightarrow> back_mode \<Rightarrow> nat \<Rightarrow> match_data \<Rightarrow> frame \<Rightarrow> outcome option" where
  "back_tail rm m pp md fr =
    (if eptr fr \<le> pp then Some (Tail fr md)
     else do {
       (rrc, md) \<leftarrow> RMATCH rm md fr;
       if rrc \<noteq> MATCH_NOMATCH then Some (Ret rrc md)
       else back_tail rm m pp md (fr\<lparr>eptr := back_one m md pp (eptr fr)\<rparr>) })"
  by pat_completeness auto
termination
  by (relation "measure (\<lambda>(rm, m, pp, md, fr). eptr fr)") (auto intro: back_one_less)

declare back_tail.simps [simp del]

text \<open>The whole repeat of an item, from the frame after the item.\<close>

definition repeat_item ::
  "matcher \<Rightarrow> stepper \<Rightarrow> (nat \<Rightarrow> match_data \<Rightarrow> frame \<Rightarrow> outcome option) \<Rightarrow>
     bool \<Rightarrow> bool \<Rightarrow> nat \<Rightarrow> nat \<Rightarrow> match_data \<Rightarrow> frame \<Rightarrow> outcome option"
where
  "repeat_item rm stp back possessive minimize mn mx md fr = do {
     r \<leftarrow> rep_min_loop stp mn md (eptr fr);
     (case r of
        Inl out \<Rightarrow> Some out
      | Inr (md, e) \<Rightarrow>
          let fr = fr\<lparr>eptr := e\<rparr> in
          if mn = mx then Some (Cont fr md)
          else if minimize then rep_lazy rm stp mn mx md fr
          else do {
            r \<leftarrow> rep_greedy stp mn mx md e;
            (case r of
               Inl out \<Rightarrow> Some out
             | Inr (md, e') \<Rightarrow>
                 let fr = fr\<lparr>eptr := e'\<rparr> in
                 if possessive then Some (Cont fr md) else back e md fr) }) }"

subsection \<open>Quantifiers\<close>

definition rep_min :: "nat list" where
  "rep_min = [0, 0, 1, 1, 0, 0, 0, 0, 0, 1, 0]"

definition rep_max :: "nat list" where
  "rep_max = [0, 0, 0, 0, 1, 1, 0, 0, 0, 0, 1]"

definition rep_bounds :: "nat \<Rightarrow> nat \<times> nat" where
  "rep_bounds c =
    (let mx = nth_default 0 rep_max c in (nth_default 0 rep_min c, if mx = 0 then INT_MAX else mx))"

text \<open>
  The quantifier of a repeated character, from its place \<open>rel\<close> in its family of thirteen opcodes:
  possessive, minimize, the bounds, and the code after it.
\<close>

definition quantifier :: "match_data \<Rightarrow> nat \<Rightarrow> nat \<Rightarrow> bool \<times> bool \<times> nat \<times> nat \<times> nat" where
  "quantifier md rel ec =
    (let n = GET2 (start_code md) ec 1; long = ec + 1 + IMM2_SIZE in
     if rel < 6 then (case rep_bounds rel of (mn, mx) \<Rightarrow> (False, rel AND 1 \<noteq> 0, mn, mx, ec + 1))
     else if rel = 6 then (False, False, 0, n, long)
     else if rel = 7 then (False, True, 0, n, long)
     else if rel = 8 then (False, False, n, n, long)
     else if rel = 9 then (True, False, 0, INT_MAX, ec + 1)
     else if rel = 10 then (True, False, 1, INT_MAX, ec + 1)
     else if rel = 11 then (True, False, 0, 1, ec + 1)
     else (True, False, 0, n, long))"

text \<open>The quantifier after a class or a back reference, if there is one.\<close>

definition cr_quantifier :: "match_data \<Rightarrow> nat \<Rightarrow> (bool \<times> bool \<times> nat \<times> nat \<times> nat) option" where
  "cr_quantifier md ec =
    (let op = op_at md ec; c = op - OP_CRSTAR;
         mx = GET2 (start_code md) ec (1 + IMM2_SIZE)
     in if op \<in> {OP_CRSTAR, OP_CRMINSTAR, OP_CRPLUS, OP_CRMINPLUS, OP_CRQUERY, OP_CRMINQUERY,
                  OP_CRPOSSTAR, OP_CRPOSPLUS, OP_CRPOSQUERY} then
          (case rep_bounds c of (mn, mx) \<Rightarrow>
             Some (\<not> c < OP_CRPOSSTAR - OP_CRSTAR, c < OP_CRPOSSTAR - OP_CRSTAR \<and> c AND 1 \<noteq> 0, mn, mx, ec + 1))
        else if op = OP_CRRANGE \<or> op = OP_CRMINRANGE \<or> op = OP_CRPOSRANGE then
          Some (op = OP_CRPOSRANGE, op = OP_CRMINRANGE, GET2 (start_code md) ec 1,
                if mx = 0 then INT_MAX else mx, ec + 1 + 2 * IMM2_SIZE)
        else None)"

subsection \<open>Back references\<close>

text \<open>A failed comparison: at the end of the subject \<open>eptr\<close> is moved there for the partial test.\<close>

definition ref_step :: "nat \<Rightarrow> int \<Rightarrow> bool \<Rightarrow> stepper" where
  "ref_step offset len caseless md e =
    Some (case match_ref md offset e len caseless of
       Inr e' \<Rightarrow> Adv md e'
     | Inl k \<Rightarrow> stop_partial (check_partial md (if k = -2 then end_subject md else e)))"

text \<open>In the maximizing loop \<open>eptr\<close> stays where it is.\<close>

definition ref_step_max :: "nat \<Rightarrow> int \<Rightarrow> bool \<Rightarrow> stepper" where
  "ref_step_max offset len caseless md e =
    Some (case match_ref md offset e len caseless of
       Inr e' \<Rightarrow> Adv md e'
     | Inl k \<Rightarrow>
         if k = -2 \<and> partial md \<noteq> 0 \<and> end_subject md > start_used_ptr md
         then stop_partial (md\<lparr>hitend := True\<rparr>, partial md > 1) else Stop md)"

text \<open>\<open>while (eptr >= pp)\<close>, backing off by the length of the reference.\<close>

function back_ref :: "matcher \<Rightarrow> nat \<Rightarrow> nat \<Rightarrow> match_data \<Rightarrow> frame \<Rightarrow> outcome option" where
  "back_ref rm len pp md fr = do {
     (rrc, md) \<leftarrow> RMATCH rm md fr;
     if rrc \<noteq> MATCH_NOMATCH then Some (Ret rrc md)
     else if eptr fr < pp + len \<or> len = 0 then Some (Ret MATCH_NOMATCH md)
     else back_ref rm len pp md (fr\<lparr>eptr := eptr fr - len\<rparr>) }"
  by pat_completeness auto
termination
  by (relation "measure (\<lambda>(rm, len, pp, md, fr). eptr fr)") auto

declare back_ref.simps [simp del]

definition ref_once :: "nat \<Rightarrow> int \<Rightarrow> bool \<Rightarrow> match_data \<Rightarrow> frame \<Rightarrow> outcome" where
  "ref_once offset len caseless md fr =
    (case match_ref md offset (eptr fr) len caseless of
       Inr e \<Rightarrow> Cont (fr\<lparr>eptr := e\<rparr>) md
     | Inl k \<Rightarrow> partial_fail (check_partial md (if k = -2 then end_subject md else eptr fr)))"

definition ref_repeat :: "matcher \<Rightarrow> nat \<Rightarrow> int \<Rightarrow> bool \<Rightarrow> match_data \<Rightarrow> frame \<Rightarrow> outcome option" where
  "ref_repeat rm offset len caseless md fr =
    (case (if op_at md (ecode fr) \<in> {OP_CRPOSSTAR, OP_CRPOSPLUS, OP_CRPOSQUERY, OP_CRPOSRANGE} then None
           else cr_quantifier md (ecode fr)) of
       None \<Rightarrow> Some (ref_once offset len caseless md fr)
     | Some (_, minimize, mn, mx, ec) \<Rightarrow>
         let fr = fr\<lparr>ecode := ec\<rparr>; stp = ref_step offset len caseless in
         if len = 0 \<or> (len < 0 \<and> mn = 0) then Some (Cont fr md)
         else do {
           r \<leftarrow> rep_min_loop stp mn md (eptr fr);
           (case r of
              Inl out \<Rightarrow> Some out
            | Inr (md, e) \<Rightarrow>
                let fr = fr\<lparr>eptr := e\<rparr> in
                if mn = mx then Some (Cont fr md)
                else if minimize then rep_lazy rm stp mn mx md fr
                else do {
                  r \<leftarrow> rep_greedy (ref_step_max offset len caseless) mn mx md e;
                  (case r of
                     Inl out \<Rightarrow> Some out
                   | Inr (md, e') \<Rightarrow> back_ref rm (nat len) e md (fr\<lparr>eptr := e'\<rparr>)) }) })"

definition ref_length :: "match_data \<Rightarrow> nat \<Rightarrow> int" where
  "ref_length md offset = ov md (offset + 1) - ov md offset"

definition case_REF :: "matcher \<Rightarrow> match_data \<Rightarrow> frame \<Rightarrow> outcome option" where
  "case_REF rm md fr =
    (let caseless = (op_at md (ecode fr) = OP_REFI);
         offset = 2 * GET2 (start_code md) (ecode fr) 1;
         len = (if offset \<ge> offset_top fr \<or> ov md offset < 0
                then if jscript_compat md then 0 else -1 else ref_length md offset)
     in ref_repeat rm offset len caseless md (fr\<lparr>ecode := ecode fr + 1 + IMM2_SIZE\<rparr>))"

text \<open>The scan for the first set group of a duplicate name; the last offset tried is kept.\<close>

fun dnref_scan :: "match_data \<Rightarrow> nat \<Rightarrow> nat \<Rightarrow> nat \<Rightarrow> nat \<Rightarrow> nat \<times> int" where
  "dnref_scan md otop 0 slot offset = (offset, if jscript_compat md then 0 else -1)"
| "dnref_scan md otop (Suc count) slot offset0 =
     (let offset = 2 * GET2 (name_table md) slot 0 in
      if offset < otop \<and> ov md offset \<ge> 0 then (offset, ref_length md offset)
      else dnref_scan md otop count (slot + name_entry_size md) offset)"

definition case_DNREF :: "matcher \<Rightarrow> match_data \<Rightarrow> frame \<Rightarrow> outcome option" where
  "case_DNREF rm md fr =
    (let caseless = (op_at md (ecode fr) = OP_DNREFI);
         count = GET2 (start_code md) (ecode fr) (1 + IMM2_SIZE);
         slot = GET2 (start_code md) (ecode fr) 1 * name_entry_size md;
         (offset, len) = dnref_scan md (offset_top fr) count slot 0
     in ref_repeat rm offset len caseless md (fr\<lparr>ecode := ecode fr + 1 + 2 * IMM2_SIZE\<rparr>))"

subsection \<open>Classes\<close>

text \<open>A step that reads one character: at the end of the subject it is \<open>SCHECK_PARTIAL\<close>.\<close>

definition char_step :: "(cchar \<Rightarrow> bool option) \<Rightarrow> stepper" where
  "char_step test md e =
    (if e \<ge> end_subject md then
       Some (stop_partial (scheck_partial md e))
     else
       let (c, e') = getcharinctest (utf md) (start_subject md) e in
       do {
         ok \<leftarrow> test c;
         Some (if ok then Adv md e' else Stop md) })"

definition class_test :: "match_data \<Rightarrow> nat \<Rightarrow> nat \<Rightarrow> cchar \<Rightarrow> bool option" where
  "class_test md op data c =
    Some (if c > 255 then op \<noteq> OP_CLASS else bitmap_bit (start_code md) data c)"

definition case_CLASS :: "matcher \<Rightarrow> match_data \<Rightarrow> frame \<Rightarrow> outcome option" where
  "case_CLASS rm md fr =
    (let op = op_at md (ecode fr); data = ecode fr + 1; ec = ecode fr + 1 + 32;
         (possessive, minimize, mn, mx, ec') =
           (case cr_quantifier md ec of None \<Rightarrow> (False, False, 1, 1, ec) | Some q \<Rightarrow> q)
     in repeat_item rm (char_step (class_test md op data)) (back_class rm)
          possessive minimize mn mx md (fr\<lparr>ecode := ec'\<rparr>))"

definition case_XCLASS :: "matcher \<Rightarrow> match_data \<Rightarrow> frame \<Rightarrow> outcome option" where
  "case_XCLASS rm md fr =
    (let data = ecode fr + 1 + LINK_SIZE; ec = ecode fr + link_at md (ecode fr) 1;
         (possessive, minimize, mn, mx, ec') =
           (case cr_quantifier md ec of None \<Rightarrow> (False, False, 1, 1, ec) | Some q \<Rightarrow> q)
     in repeat_item rm (char_step (\<lambda>c. xclass (ucd md) (start_code md) c data)) (back_class rm)
          possessive minimize mn mx md (fr\<lparr>ecode := ec'\<rparr>))"

subsection \<open>Repeated characters\<close>

text \<open>A step that reads one byte.\<close>

definition byte_step :: "(nat \<Rightarrow> bool) \<Rightarrow> stepper" where
  "byte_step test md e =
    Some (if e \<ge> end_subject md then stop_partial (scheck_partial md e)
          else if test (unat (rd (start_subject md) e)) then Adv md (e + 1) else Stop md)"

text \<open>A step over a character of several bytes, at \<open>charptr\<close> in the code, or its other case.\<close>

definition multibyte_step :: "nat \<Rightarrow> nat \<Rightarrow> byte list \<Rightarrow> stepper" where
  "multibyte_step charptr len occhars md e =
    Some (if e + len \<le> end_subject md \<and> same_bytes (start_subject md) e (start_code md) charptr len
          then Adv md (e + len)
          else if length occhars > 0 \<and> e + length occhars \<le> end_subject md \<and>
                  same_bytes (start_subject md) e occhars 0 (length occhars)
          then Adv md (e + length occhars)
          else stop_partial (check_partial md e))"

definition case_REPEATCHAR :: "matcher \<Rightarrow> match_data \<Rightarrow> frame \<Rightarrow> outcome option" where
  "case_REPEATCHAR rm md fr =
    (let op = op_at md (ecode fr); caseless = (op \<ge> OP_STARI);
         (possessive, minimize, mn, mx, ec) =
           quantifier md (op - (if caseless then OP_STARI else OP_STAR)) (ecode fr);
         (fc, len) = getcharlentest (utf md) (start_code md) ec;
         fr = fr\<lparr>ecode := ec + len\<rparr>
     in if utf md \<and> len > 1 then
          (let othercase = UCD_OTHERCASE (ucd md) fc;
               occhars = (if caseless \<and> othercase \<noteq> fc then ord2utf othercase else [])
           in repeat_item rm (multibyte_step ec len occhars) (back_tail rm Back_char)
                possessive minimize mn mx md fr)
        else
          (let foc = unat (rd (fcc md) fc) in
           repeat_item rm (byte_step (\<lambda>cc. fc = cc \<or> (caseless \<and> foc = cc))) (back_tail rm Back_byte)
             possessive minimize mn mx md fr))"

definition case_REPEATNOT :: "matcher \<Rightarrow> match_data \<Rightarrow> frame \<Rightarrow> outcome option" where
  "case_REPEATNOT rm md fr =
    (let op = op_at md (ecode fr); caseless = (op \<ge> OP_NOTSTARI);
         (possessive, minimize, mn, mx, ec) =
           quantifier md (op - (if caseless then OP_NOTSTARI else OP_NOTSTAR)) (ecode fr);
         (fc, ec') = getcharinctest (utf md) (start_code md) ec;
         foc = (if utf md \<and> fc > 127 then UCD_OTHERCASE (ucd md) fc else table_get (fcc md) fc)
     in repeat_item rm (char_step (\<lambda>d. Some (\<not> (fc = d \<or> (caseless \<and> foc = d))))) (back_tail rm Back_char)
          possessive minimize mn mx md (fr\<lparr>ecode := ec'\<rparr>))"

end
