(* ===== verification/ExecTypes.thy ===== *)
theory ExecTypes
  imports ExecRepeat
begin

text \<open>
  The repeated character types of \<open>match()\<close> (\<open>REPEATTYPE\<close>): properties, extended grapheme
  clusters and the one-character types. The source has separate code for the minimum, the
  minimizing and the maximizing loop, which do not test the types in quite the same way, so the
  steps of the three loops are separate definitions.
\<close>

subsection \<open>Properties and clusters\<close>

text \<open>A step by a property \<open>pt\<close> of value \<open>pv\<close>, negated by \<open>fail\<close>.\<close>

definition prop_step :: "nat \<Rightarrow> nat \<Rightarrow> bool \<Rightarrow> match_data \<Rightarrow> nat \<Rightarrow> step_result option" where
  "prop_step pt pv fail md e =
    Some (if e \<ge> end_subject md then stop_partial (scheck_partial md e)
          else
            let (c, e') = getcharinctest (utf md) (start_subject md) e in
            (case prop_value (ucd md) pt pv c of
               None \<Rightarrow> Quit PCRE_ERROR_INTERNAL md
             | Some v \<Rightarrow> if v = fail then Stop md else Adv md e'))"

text \<open>In the minimum loop a negated \<open>PT_ANY\<close> fails before anything is read.\<close>

definition prop_step_min :: "nat \<Rightarrow> nat \<Rightarrow> bool \<Rightarrow> match_data \<Rightarrow> nat \<Rightarrow> step_result option" where
  "prop_step_min pt pv fail md e =
    (if pt = PT_ANY \<and> fail then Some (Stop md) else prop_step pt pv fail md e)"

definition extuni_step :: "match_data \<Rightarrow> nat \<Rightarrow> step_result option" where
  "extuni_step md e =
    Some (if e \<ge> end_subject md then stop_partial (scheck_partial md e)
          else
            let (c, e') = getcharinctest (utf md) (start_subject md) e;
                e'' = extuni_loop md (UCD_GRAPHBREAK (ucd md) c) e';
                (md, stop) = check_partial md e''
            in if stop then Quit PCRE_ERROR_PARTIAL md else Adv md e'')"

text \<open>
  Backing off over a cluster: back over the characters between which no break is permitted, but
  not before \<open>pp\<close>.
\<close>

definition prev_char :: "match_data \<Rightarrow> nat \<Rightarrow> nat" where
  "prev_char md e = (if utf md then backchar (start_subject md) (e - 1) else e - 1)"

lemma prev_char_less: "0 < e \<Longrightarrow> prev_char md e < e"
  using backchar_le [of "start_subject md" "e - 1"] by (auto simp: prev_char_def)

function extuni_back :: "match_data \<Rightarrow> nat \<Rightarrow> nat \<Rightarrow> nat \<Rightarrow> nat" where
  "extuni_back md pp rgb e =
    (if e \<le> pp then e
     else
       let fptr = prev_char md e; lgb = UCD_GRAPHBREAK (ucd md) (char_at md fptr) in
       if \<not> gb_no_break lgb rgb then e else extuni_back md pp lgb fptr)"
  by pat_completeness auto
termination
  by (relation "measure (\<lambda>(md, pp, rgb, e). e)") (auto intro: prev_char_less)

declare extuni_back.simps [simp del]

lemma extuni_back_le: "extuni_back md pp rgb e \<le> e"
proof (induction md pp rgb e rule: extuni_back.induct)
  case (1 md pp rgb e)
  show ?case
  proof (cases "e \<le> pp")
    case False
    then have "prev_char md e < e" by (intro prev_char_less) simp
    with 1 False show ?thesis
      by (subst extuni_back.simps) (fastforce simp: Let_def)
  qed (simp add: extuni_back.simps)
qed

lemma extuni_back_less: "\<not> e \<le> pp \<Longrightarrow> extuni_back md pp rgb (prev_char md' e) < e"
  using prev_char_less [of e md'] extuni_back_le [of md pp rgb "prev_char md' e"] by simp

function back_extuni :: "matcher \<Rightarrow> nat \<Rightarrow> match_data \<Rightarrow> frame \<Rightarrow> outcome option" where
  "back_extuni rm pp md fr =
    (if eptr fr \<le> pp then Some (Tail fr md)
     else do {
       (rrc, md) \<leftarrow> RMATCH rm md fr;
       if rrc \<noteq> MATCH_NOMATCH then Some (Ret rrc md)
       else
         let e = prev_char md (eptr fr);
             rgb = UCD_GRAPHBREAK (ucd md) (char_at md e)
         in back_extuni rm pp md (fr\<lparr>eptr := extuni_back md pp rgb e\<rparr>) })"
  by pat_completeness auto
termination
  by (relation "measure (\<lambda>(rm, pp, md, fr). eptr fr)") (auto intro: extuni_back_less)

declare back_extuni.simps [simp del]

subsection \<open>The minimum loops\<close>

text \<open>A newline sequence of \<open>\<open>\R\<close>\<close>, once its first character \<open>c\<close> has been read.\<close>

definition newline_step :: "match_data \<Rightarrow> cchar \<Rightarrow> nat \<Rightarrow> step_result" where
  "newline_step md c e =
    (if c = CHAR_CR then
       (if e < end_subject md \<and> unat (rd (start_subject md) e) = CHAR_LF then Adv md (e + 1) else Adv md e)
     else if c = CHAR_LF then Adv md e
     else if c \<in> {CHAR_VT, CHAR_FF, CHAR_NEL, 0x2028, 0x2029} then
       (if bsr_anycrlf md then Stop md else Adv md e)
     else Stop md)"

text \<open>Any character but a newline, with the care for a partial two-byte newline.\<close>

definition any_step :: "match_data \<Rightarrow> nat \<Rightarrow> step_result" where
  "any_step md e =
    (let (is_nl, md) = md_is_newline md e in
     if is_nl then Stop md
     else
       let (md, stop) = partial_newline md e in
       if stop then Quit PCRE_ERROR_PARTIAL md
       else Adv md (if utf md then acrosschar (start_subject md) (end_subject md) (e + 1) else e + 1))"

definition ctype_bit :: "nat \<Rightarrow> nat" where
  "ctype_bit ctype =
    (if ctype = OP_NOT_DIGIT \<or> ctype = OP_DIGIT then ctype_digit
     else if ctype = OP_NOT_WHITESPACE \<or> ctype = OP_WHITESPACE then ctype_space
     else ctype_word)"

text \<open>In UTF mode, where \<open>GETCHARINCTEST\<close> is \<open>GETCHARINC\<close>: only the characters below 128 are looked up,
  by their first byte.\<close>

definition type_step_min_utf :: "nat \<Rightarrow> match_data \<Rightarrow> nat \<Rightarrow> step_result option" where
  "type_step_min_utf ctype md e =
    Some (if e \<ge> end_subject md then stop_partial (scheck_partial md e)
     else
       let (c, e') = getcharinctest (utf md) (start_subject md) e;
           cc = unat (rd (start_subject md) e);
           across = acrosschar (start_subject md) (end_subject md) (e + 1)
       in if ctype = OP_ANY then any_step md e
          else if ctype = OP_ALLANY then Adv md across
          else if ctype = OP_ANYNL then newline_step md c e'
          else if ctype \<in> {OP_NOT_HSPACE, OP_HSPACE, OP_NOT_VSPACE, OP_VSPACE} then
            (if space_test ctype c then Adv md e' else Stop md)
          else if ctype = OP_NOT_DIGIT then
            (if c < 128 \<and> has_ctype md ctype_digit c then Stop md else Adv md e')
          else if ctype = OP_DIGIT \<or> ctype = OP_WHITESPACE \<or> ctype = OP_WORDCHAR then
            (if cc \<ge> 128 \<or> \<not> has_ctype md (ctype_bit ctype) cc then Stop md else Adv md (e + 1))
          else (if cc < 128 \<and> has_ctype md (ctype_bit ctype) cc then Stop md else Adv md across))"

definition type_step_min_byte :: "nat \<Rightarrow> match_data \<Rightarrow> nat \<Rightarrow> step_result option" where
  "type_step_min_byte ctype md e =
    Some (if e \<ge> end_subject md then stop_partial (scheck_partial md e)
     else
       let c = unat (rd (start_subject md) e) in
       if ctype = OP_ANY then any_step md e
       else if ctype = OP_ANYNL then newline_step md c (e + 1)
       else if ctype \<in> {OP_NOT_HSPACE, OP_HSPACE, OP_NOT_VSPACE, OP_VSPACE} then
         (if space_test ctype c then Adv md (e + 1) else Stop md)
       else (if type_test md ctype c then Adv md (e + 1) else Stop md))"

definition known_type :: "nat \<Rightarrow> bool" where
  "known_type ctype \<longleftrightarrow>
    ctype \<in> {OP_NOT_DIGIT, OP_DIGIT, OP_NOT_WHITESPACE, OP_WHITESPACE, OP_NOT_WORDCHAR, OP_WORDCHAR,
      OP_ANY, OP_ALLANY, OP_ANYBYTE, OP_ANYNL, OP_NOT_HSPACE, OP_HSPACE, OP_NOT_VSPACE, OP_VSPACE}"

text \<open>
  The minimum of a type that is not a property: fixed numbers of bytes are skipped at once, with
  a test for a partial match except for bytes in UTF mode.
\<close>

definition type_min :: "nat \<Rightarrow> nat \<Rightarrow> match_data \<Rightarrow> nat \<Rightarrow> (outcome + (match_data \<times> nat)) option" where
  "type_min ctype mn md e =
    (if mn = 0 then Some (Inr (md, e))
     else if \<not> known_type ctype then Some (Inl (Ret PCRE_ERROR_INTERNAL md))
     else if ctype = OP_ANYBYTE \<or> (ctype = OP_ALLANY \<and> \<not> utf md) then
       Some (if e + mn > end_subject md
             then Inl (if utf md then Ret MATCH_NOMATCH md else partial_fail (scheck_partial md e))
             else Inr (md, e + mn))
     else if utf md then rep_min_loop (type_step_min_utf ctype) mn md e
     else rep_min_loop (type_step_min_byte ctype) mn md e)"

subsection \<open>The minimizing loop\<close>

text \<open>
  In UTF mode the loop reads a whole character before it looks at the type, also for
  \<open>OP_ANYBYTE\<close>.
\<close>

definition type_step_lazy :: "nat \<Rightarrow> match_data \<Rightarrow> nat \<Rightarrow> step_result option" where
  "type_step_lazy ctype md e =
    Some (if e \<ge> end_subject md then stop_partial (scheck_partial md e)
     else
       let (is_nl, md) = (if ctype = OP_ANY then md_is_newline md e else (False, md)) in
       if is_nl then Stop md
       else
         let (c, e') = getcharinctest (utf md) (start_subject md) e in
         if ctype = OP_ANY then
           (if partial md \<noteq> 0 \<and> e' \<ge> end_subject md \<and> nltype md = NLTYPE_FIXED \<and> nllen md = 2 \<and>
               c = unat (rd (nl md) 0)
            then (if partial md > 1 then Quit PCRE_ERROR_PARTIAL (md\<lparr>hitend := True\<rparr>)
                  else Adv (md\<lparr>hitend := True\<rparr>) e')
            else Adv md e')
         else if ctype = OP_ALLANY \<or> ctype = OP_ANYBYTE then Adv md e'
         else if ctype = OP_ANYNL then newline_step md c e'
         else if ctype \<in> {OP_NOT_HSPACE, OP_HSPACE, OP_NOT_VSPACE, OP_VSPACE} then
           (if space_test ctype c then Adv md e' else Stop md)
         else if known_type ctype then (if type_test md ctype c then Adv md e' else Stop md)
         else Quit PCRE_ERROR_INTERNAL md)"

subsection \<open>The maximizing loop\<close>

definition newline_step_max :: "match_data \<Rightarrow> cchar \<Rightarrow> nat \<Rightarrow> nat \<Rightarrow> step_result" where
  "newline_step_max md c len e =
    (if c = CHAR_CR then
       (if e + 1 \<ge> end_subject md then Last md (e + 1)
        else if unat (rd (start_subject md) (e + 1)) = CHAR_LF then Adv md (e + 2)
        else Adv md (e + 1))
     else if c \<noteq> CHAR_LF \<and>
             (bsr_anycrlf md \<or> c \<notin> {CHAR_VT, CHAR_FF, CHAR_NEL, 0x2028, 0x2029}) then Stop md
     else Adv md (e + len))"

definition type_step_max :: "nat \<Rightarrow> match_data \<Rightarrow> nat \<Rightarrow> step_result option" where
  "type_step_max ctype md e =
    Some (if e \<ge> end_subject md then stop_partial (scheck_partial md e)
     else
       let (c, len) = getcharlentest (utf md) (start_subject md) e in
       if ctype = OP_ANY then any_step md e
       else if ctype = OP_ALLANY then
         Adv md (acrosschar (start_subject md) (end_subject md) (e + 1))
       else if ctype = OP_ANYNL then newline_step_max md c len e
       else if ctype \<in> {OP_NOT_HSPACE, OP_HSPACE, OP_NOT_VSPACE, OP_VSPACE} then
         (if space_test ctype c then Adv md (e + len) else Stop md)
       else (if type_test md ctype c then Adv md (e + len) else Stop md))"

text \<open>A jump to the end of the subject, where the code then tests for a partial match.\<close>

definition max_to_end :: "match_data \<Rightarrow> outcome + (match_data \<times> nat)" where
  "max_to_end md =
    (case scheck_partial md (end_subject md) of
       (md, stop) \<Rightarrow> if stop then Inl (Ret PCRE_ERROR_PARTIAL md) else Inr (md, end_subject md))"

definition type_max :: "nat \<Rightarrow> nat \<Rightarrow> nat \<Rightarrow> match_data \<Rightarrow> nat \<Rightarrow> (outcome + (match_data \<times> nat)) option" where
  "type_max ctype mn mx md e =
    (if \<not> known_type ctype then Some (Inl (Ret PCRE_ERROR_INTERNAL md))
     else if ctype = OP_ANYBYTE \<or> (ctype = OP_ALLANY \<and> \<not> utf md) then
       Some (if mx - mn > end_subject md - e then max_to_end md else Inr (md, e + (mx - mn)))
     else if ctype = OP_ALLANY \<and> mx \<ge> INT_MAX then Some (max_to_end md)
     else rep_greedy (type_step_max ctype) mn mx md e)"

subsection \<open>The opcode\<close>

text \<open>After the maximum run: on at once if possessive, or backing off.\<close>

definition after_run ::
  "(match_data \<Rightarrow> frame \<Rightarrow> outcome option) \<Rightarrow> bool \<Rightarrow> frame \<Rightarrow> outcome + (match_data \<times> nat) \<Rightarrow> outcome option"
where
  "after_run back possessive fr r =
    (case r of
       Inl out \<Rightarrow> Some out
     | Inr (md, e) \<Rightarrow>
         if possessive then Some (Cont (fr\<lparr>eptr := e\<rparr>) md) else back md (fr\<lparr>eptr := e\<rparr>))"

text \<open>The loops of a property and of the clusters.\<close>

definition repeat_prop ::
  "matcher \<Rightarrow> nat \<Rightarrow> nat \<Rightarrow> bool \<Rightarrow> bool \<Rightarrow> bool \<Rightarrow> nat \<Rightarrow> nat \<Rightarrow> match_data \<Rightarrow> frame \<Rightarrow> outcome option"
where
  "repeat_prop rm pt pv fail possessive minimize mn mx md fr = do {
     r \<leftarrow> (if mn > 0 \<and> pt > PT_UCNC then Some (Inl (Ret PCRE_ERROR_INTERNAL md))
          else rep_min_loop (prop_step_min pt pv fail) mn md (eptr fr));
     (case r of
        Inl out \<Rightarrow> Some out
      | Inr (md, e) \<Rightarrow>
          let fr = fr\<lparr>eptr := e\<rparr> in
          if mn = mx then Some (Cont fr md)
          else if pt > PT_UCNC then Some (Ret PCRE_ERROR_INTERNAL md)
          else if minimize then rep_lazy rm (prop_step pt pv fail) mn mx md fr
          else do {
            r \<leftarrow> rep_greedy (prop_step pt pv fail) mn mx md e;
            after_run (back_tail rm Back_char e) possessive fr r }) }"

definition repeat_extuni ::
  "matcher \<Rightarrow> bool \<Rightarrow> bool \<Rightarrow> nat \<Rightarrow> nat \<Rightarrow> match_data \<Rightarrow> frame \<Rightarrow> outcome option"
where
  "repeat_extuni rm possessive minimize mn mx md fr = do {
     r \<leftarrow> rep_min_loop extuni_step mn md (eptr fr);
     (case r of
        Inl out \<Rightarrow> Some out
      | Inr (md, e) \<Rightarrow>
          let fr = fr\<lparr>eptr := e\<rparr> in
          if mn = mx then Some (Cont fr md)
          else if minimize then rep_lazy rm extuni_step mn mx md fr
          else do {
            r \<leftarrow> rep_greedy extuni_step mn mx md e;
            after_run (back_extuni rm e) possessive fr r }) }"

definition repeat_type ::
  "matcher \<Rightarrow> nat \<Rightarrow> bool \<Rightarrow> bool \<Rightarrow> nat \<Rightarrow> nat \<Rightarrow> match_data \<Rightarrow> frame \<Rightarrow> outcome option"
where
  "repeat_type rm ctype possessive minimize mn mx md fr = do {
     r \<leftarrow> type_min ctype mn md (eptr fr);
     (case r of
        Inl out \<Rightarrow> Some out
      | Inr (md, e) \<Rightarrow>
          let fr = fr\<lparr>eptr := e\<rparr> in
          if mn = mx then Some (Cont fr md)
          else if minimize then rep_lazy rm (type_step_lazy ctype) mn mx md fr
          else do {
            r \<leftarrow> type_max ctype mn mx md e;
            after_run (back_tail rm (if ctype = OP_ANYNL then Back_newline else Back_char) e)
              possessive fr r }) }"

definition case_REPEATTYPE :: "matcher \<Rightarrow> match_data \<Rightarrow> frame \<Rightarrow> outcome option" where
  "case_REPEATTYPE rm md fr =
    (let op = op_at md (ecode fr);
         (possessive, minimize, mn, mx, ec) = quantifier md (op - OP_TYPESTAR) (ecode fr);
         ctype = op_at md ec
     in if ctype = OP_PROP \<or> ctype = OP_NOTPROP then
          repeat_prop rm (op_at md (ec + 1)) (op_at md (ec + 2)) (ctype = OP_NOTPROP)
            possessive minimize mn mx md (fr\<lparr>ecode := ec + 3\<rparr>)
        else if ctype = OP_EXTUNI then
          repeat_extuni rm possessive minimize mn mx md (fr\<lparr>ecode := ec + 1\<rparr>)
        else repeat_type rm ctype possessive minimize mn mx md (fr\<lparr>ecode := ec + 1\<rparr>))"

end
