(* ===== verification/Exec.thy ===== *)
theory Exec
  imports ExecFlow ExecTypes
begin

text \<open>
  The function \<open>match()\<close> of \<open>pcre_exec.c\<close>: the dispatch on the opcode, the main loop with its
  tail recursion, the checks of the two limits on entry, and the recursion itself. The
  recursion is on the number of levels that \<open>match_limit_recursion\<close> leaves: at the limit every
  call returns before it could make another one.
\<close>

definition step :: "matcher \<Rightarrow> match_data \<Rightarrow> frame \<Rightarrow> outcome option" where
  "step rm md fr =
    (let op = op_at md (ecode fr) in
     if ecode fr \<ge> length (start_code md) then None
     else if op = OP_MARK then case_MARK rm md fr
     else if op = OP_FAIL then Some (Ret MATCH_NOMATCH md)
     else if op = OP_COMMIT then case_COMMIT rm md fr
     else if op = OP_PRUNE then case_PRUNE rm md fr
     else if op = OP_PRUNE_ARG then case_PRUNE_ARG rm md fr
     else if op = OP_SKIP then case_SKIP rm md fr
     else if op = OP_SKIP_ARG then case_SKIP_ARG rm md fr
     else if op = OP_THEN then case_THEN rm md fr
     else if op = OP_THEN_ARG then case_THEN_ARG rm md fr
     else if op = OP_ONCE_NC then case_ONCE_NC rm md fr
     else if op = OP_CBRA \<or> op = OP_SCBRA then case_CBRA rm md fr
     else if op = OP_ONCE \<or> op = OP_BRA \<or> op = OP_SBRA then case_BRA rm md fr
     else if op = OP_CBRAPOS \<or> op = OP_SCBRAPOS then possessive_capture rm False op md fr
     else if op = OP_BRAPOS \<or> op = OP_SBRAPOS then possessive_non_capture rm False op md fr
     else if op = OP_COND \<or> op = OP_SCOND then case_COND rm md fr
     else if op = OP_CLOSE then case_CLOSE md fr
     else if op = OP_END \<or> op = OP_ACCEPT \<or> op = OP_ASSERT_ACCEPT then case_END md fr
     else if op = OP_ASSERT \<or> op = OP_ASSERTBACK then case_ASSERT rm md fr
     else if op = OP_ASSERT_NOT \<or> op = OP_ASSERTBACK_NOT then case_ASSERT_NOT rm md fr
     else if op = OP_REVERSE then case_REVERSE md fr
     else if op = OP_CALLOUT then case_CALLOUT md fr
     else if op = OP_RECURSE then case_RECURSE rm md fr
     else if op = OP_ALT then case_ALT md fr
     else if op = OP_BRAZERO then case_BRAZERO rm md fr
     else if op = OP_BRAMINZERO then case_BRAMINZERO rm md fr
     else if op = OP_SKIPZERO then case_SKIPZERO md fr
     else if op = OP_BRAPOSZERO then case_BRAPOSZERO rm md fr
     else if OP_KET \<le> op \<and> op \<le> OP_KETRPOS then case_KET rm md fr
     else if op = OP_CIRC then case_CIRC md fr
     else if op = OP_SOD then case_SOD md fr
     else if op = OP_CIRCM then case_CIRCM md fr
     else if op = OP_SOM then case_SOM md fr
     else if op = OP_SET_SOM then case_SET_SOM md fr
     else if op = OP_DOLLM then case_DOLLM md fr
     else if op = OP_DOLL then case_DOLL md fr
     else if op = OP_EOD then case_EOD md fr
     else if op = OP_EODN then case_EODN md fr
     else if op = OP_NOT_WORD_BOUNDARY \<or> op = OP_WORD_BOUNDARY then case_WORD_BOUNDARY md fr
     else if op = OP_ANY then case_ANY md fr
     else if op = OP_ALLANY then case_ALLANY md fr
     else if op = OP_ANYBYTE then case_ANYBYTE md fr
     else if OP_NOT_DIGIT \<le> op \<and> op \<le> OP_WORDCHAR then case_TYPE md fr
     else if op = OP_ANYNL then case_ANYNL md fr
     else if OP_NOT_HSPACE \<le> op \<and> op \<le> OP_VSPACE then case_HVSPACE md fr
     else if op = OP_PROP \<or> op = OP_NOTPROP then case_PROP md fr
     else if op = OP_EXTUNI then case_EXTUNI md fr
     else if op = OP_DNREF \<or> op = OP_DNREFI then case_DNREF rm md fr
     else if op = OP_REF \<or> op = OP_REFI then case_REF rm md fr
     else if op = OP_NCLASS \<or> op = OP_CLASS then case_CLASS rm md fr
     else if op = OP_XCLASS then case_XCLASS rm md fr
     else if op = OP_CHAR then case_CHAR md fr
     else if op = OP_CHARI then case_CHARI md fr
     else if OP_STAR \<le> op \<and> op \<le> OP_POSUPTOI then case_REPEATCHAR rm md fr
     else if op = OP_NOT \<or> op = OP_NOTI then case_NOT md fr
     else if OP_NOTSTAR \<le> op \<and> op \<le> OP_NOTPOSUPTOI then case_REPEATNOT rm md fr
     else if OP_TYPESTAR \<le> op \<and> op \<le> OP_TYPEPOSUPTO then case_REPEATTYPE rm md fr
     else Some (Ret PCRE_ERROR_UNKNOWN_OPCODE md))"

text \<open>
  Entry, at the call and at \<open>TAIL_RECURSE\<close>: the limits, then the subject pointer of a group that
  may match an empty string is saved.
\<close>

definition enter :: "match_data \<Rightarrow> frame \<Rightarrow> outcome" where
  "enter md fr =
    (let count = match_call_count md; md = md\<lparr>match_call_count := count + 1\<rparr> in
     if count \<ge> match_limit md then Ret PCRE_ERROR_MATCHLIMIT md
     else if rdepth fr \<ge> match_limit_recursion md then Ret PCRE_ERROR_RECURSIONLIMIT md
     else if match_function_type md = MATCH_CBEGROUP
     then Cont (fr\<lparr>eptrb := eptr fr # eptrb fr\<rparr>) (md\<lparr>match_function_type := 0\<rparr>)
     else Cont fr md)"

partial_function (option) match_loop ::
  "matcher \<Rightarrow> bool \<Rightarrow> match_data \<Rightarrow> frame \<Rightarrow> (int \<times> match_data) option"
where
  [code]: "match_loop rm entering md fr = do {
     out \<leftarrow> (if entering then Some (enter md fr) else step rm md fr);
     (case out of
        Ret rrc md \<Rightarrow> Some (rrc, md)
      | Cont fr md \<Rightarrow> match_loop rm False md fr
      | Tail fr md \<Rightarrow> match_loop rm True md fr) }"

primrec match_at :: "nat \<Rightarrow> matcher" where
  "match_at 0 md fr = match_loop (\<lambda>_ _. None) True md fr"
| "match_at (Suc d) md fr = match_loop (match_at d) True md fr"

definition match :: "matcher" where
  "match md fr = match_at (match_limit_recursion md - rdepth fr) md fr"

end
