(* ===== verification/ExecLaws.thy ===== *)
theory ExecLaws
  imports Exec
begin

text \<open>
  What every call of \<open>match()\<close> keeps, as the contract between an opcode and the recursive calls
  it makes: the locale \<open>match_contract\<close> fixes a matcher that keeps the laws, the code of every
  opcode is shown to keep them inside the locale, and the interpretation at the end shows that
  \<open>match()\<close> itself is such a matcher.
\<close>

subsection \<open>The laws\<close>

text \<open>The fields of the block that no opcode changes, as the block with all others reset.\<close>

definition consts_of :: "match_data \<Rightarrow> match_data" where
  "consts_of md = md\<lparr>nllen := 0, match_call_count := 0, offset_vector := [], skip_arg_count := 0,
     hitend := False, start_match_ptr := 0, end_match_ptr := 0, start_used_ptr := 0,
     end_offset_top := 0, capture_last := 0, match_function_type := 0, recursive := [],
     mark := None, nomatch_mark := None, once_target := None\<rparr>"

text \<open>Offsets into the subject, or unset.\<close>

definition offsets_ok :: "nat \<Rightarrow> int list \<Rightarrow> bool" where
  "offsets_ok n vs \<longleftrightarrow> (\<forall>v \<in> set vs. -1 \<le> v \<and> v \<le> int n)"

definition subject_ok :: "match_data \<Rightarrow> bool" where
  "subject_ok md \<longleftrightarrow> end_subject md = length (start_subject md) \<and>
     (utf md \<longrightarrow> valid_utf (start_subject md) (int (length (start_subject md))) = (0, None))"

definition md_ok :: "match_data \<Rightarrow> bool" where
  "md_ok md \<longleftrightarrow> subject_ok md \<and> end_match_ptr md \<le> end_subject md \<and>
     offsets_ok (end_subject md) (offset_vector md)"

definition fr_ok :: "match_data \<Rightarrow> frame \<Rightarrow> bool" where
  "fr_ok md fr \<longleftrightarrow> eptr fr \<le> end_subject md"

text \<open>
  A step of the block: the constants stay, the subject pointers stay inside the subject, the
  counters only grow, the chain of recursions is as before, and the call count has not passed the
  limit.
\<close>

definition grows :: "match_data \<Rightarrow> match_data \<Rightarrow> bool" where
  "grows md md' \<longleftrightarrow> consts_of md' = consts_of md \<and>
     length (offset_vector md') = length (offset_vector md) \<and>
     match_call_count md \<le> match_call_count md' \<and> start_used_ptr md' \<le> start_used_ptr md \<and>
     (hitend md \<longrightarrow> hitend md') \<and> (hitend md' \<longrightarrow> hitend md \<or> 0 < partial md) \<and> md_ok md'"

definition step_law :: "match_data \<Rightarrow> match_data \<Rightarrow> bool" where
  "step_law md md' \<longleftrightarrow> grows md md' \<and> recursive md' = recursive md \<and>
     (match_call_count md \<le> match_limit md \<longrightarrow> match_call_count md' \<le> match_limit md)"

text \<open>
  The code MATCH\_SKIP\_ARG is returned only where the pattern has the verb, or the callout function
  returns it.
\<close>

definition may_skip_arg :: "match_data \<Rightarrow> bool" where
  "may_skip_arg md \<longleftrightarrow> to_byte OP_SKIP_ARG \<in> set (start_code md) \<or> callout md \<noteq> None"

definition ret_law :: "match_data \<Rightarrow> int \<Rightarrow> match_data \<Rightarrow> bool" where
  "ret_law md rrc md' \<longleftrightarrow> grows md md' \<and> (rrc \<noteq> PCRE_ERROR_NOMEMORY \<longrightarrow> recursive md' = recursive md) \<and>
     (match_call_count md \<le> match_limit md \<longrightarrow>
        match_call_count md' \<le> match_limit md \<or>
        (match_call_count md' = match_limit md + 1 \<and> rrc = PCRE_ERROR_MATCHLIMIT)) \<and>
     (rrc = MATCH_SKIP_ARG \<longrightarrow> may_skip_arg md)"

fun out_law :: "match_data \<Rightarrow> outcome \<Rightarrow> bool" where
  "out_law md (Ret rrc md') = ret_law md rrc md'"
| "out_law md (Cont fr md') = (step_law md md' \<and> fr_ok md' fr)"
| "out_law md (Tail fr md') = (step_law md md' \<and> fr_ok md' fr)"

subsection \<open>Working with the laws\<close>

lemma consts_of_simps [simp]:
  "consts_of (md\<lparr>nllen := a1\<rparr>) = consts_of md"
  "consts_of (md\<lparr>match_call_count := a2\<rparr>) = consts_of md"
  "consts_of (md\<lparr>offset_vector := a3\<rparr>) = consts_of md"
  "consts_of (md\<lparr>skip_arg_count := a2\<rparr>) = consts_of md"
  "consts_of (md\<lparr>hitend := a4\<rparr>) = consts_of md"
  "consts_of (md\<lparr>start_match_ptr := a2\<rparr>) = consts_of md"
  "consts_of (md\<lparr>end_match_ptr := a2\<rparr>) = consts_of md"
  "consts_of (md\<lparr>start_used_ptr := a2\<rparr>) = consts_of md"
  "consts_of (md\<lparr>end_offset_top := a2\<rparr>) = consts_of md"
  "consts_of (md\<lparr>capture_last := a2\<rparr>) = consts_of md"
  "consts_of (md\<lparr>match_function_type := a2\<rparr>) = consts_of md"
  "consts_of (md\<lparr>recursive := a5\<rparr>) = consts_of md"
  "consts_of (md\<lparr>mark := a6\<rparr>) = consts_of md"
  "consts_of (md\<lparr>nomatch_mark := a6\<rparr>) = consts_of md"
  "consts_of (md\<lparr>once_target := a6\<rparr>) = consts_of md"
  by (simp_all add: consts_of_def)

lemma consts_ofD:
  assumes "consts_of md' = consts_of md"
  shows "match_limit md' = match_limit md" "end_subject md' = end_subject md"
    "start_subject md' = start_subject md" "start_code md' = start_code md" "utf md' = utf md"
    "offset_end md' = offset_end md" "offset_max md' = offset_max md"
    "match_limit_recursion md' = match_limit_recursion md" "name_table md' = name_table md"
    "ucd md' = ucd md" "partial md' = partial md" "callout md' = callout md"
proof -
  note eq = arg_cong [OF assms]
  show "match_limit md' = match_limit md" using eq [of match_limit] by (simp add: consts_of_def)
  show "end_subject md' = end_subject md" using eq [of end_subject] by (simp add: consts_of_def)
  show "start_subject md' = start_subject md" using eq [of start_subject] by (simp add: consts_of_def)
  show "start_code md' = start_code md" using eq [of start_code] by (simp add: consts_of_def)
  show "utf md' = utf md" using eq [of utf] by (simp add: consts_of_def)
  show "offset_end md' = offset_end md" using eq [of offset_end] by (simp add: consts_of_def)
  show "offset_max md' = offset_max md" using eq [of offset_max] by (simp add: consts_of_def)
  show "match_limit_recursion md' = match_limit_recursion md"
    using eq [of match_limit_recursion] by (simp add: consts_of_def)
  show "name_table md' = name_table md" using eq [of name_table] by (simp add: consts_of_def)
  show "ucd md' = ucd md" using eq [of ucd] by (simp add: consts_of_def)
  show "partial md' = partial md" using eq [of partial] by (simp add: consts_of_def)
  show "callout md' = callout md" using eq [of callout] by (simp add: consts_of_def)
qed

lemma may_skip_arg_recursive [simp]: "may_skip_arg (md\<lparr>recursive := x\<rparr>) = may_skip_arg md"
  by (simp add: may_skip_arg_def)

lemma may_skip_arg_at: "op_at md p = OP_SKIP_ARG \<Longrightarrow> may_skip_arg md"
proof -
  assume "op_at md p = OP_SKIP_ARG"
  then have u: "unat (rd (start_code md) p) = 153" by (simp add: op_at_def opc_def)
  then have "p < length (start_code md)" by (auto simp: rd_def split: if_splits)
  moreover from this u have "start_code md ! p = to_byte 153" by (simp add: rd_def byte_eq_iff_unat)
  ultimately show ?thesis unfolding may_skip_arg_def by (metis nth_mem)
qed

lemma may_skip_arg_consts: "consts_of md' = consts_of md \<Longrightarrow> may_skip_arg md' = may_skip_arg md"
  using consts_ofD(4,12) [of md' md] by (simp add: may_skip_arg_def)

lemma md_ok_simps [simp]:
  "md_ok (md\<lparr>nllen := a1\<rparr>) = md_ok md"
  "md_ok (md\<lparr>match_call_count := a2\<rparr>) = md_ok md"
  "md_ok (md\<lparr>skip_arg_count := a2\<rparr>) = md_ok md"
  "md_ok (md\<lparr>hitend := a4\<rparr>) = md_ok md"
  "md_ok (md\<lparr>start_match_ptr := a2\<rparr>) = md_ok md"
  "md_ok (md\<lparr>start_used_ptr := a2\<rparr>) = md_ok md"
  "md_ok (md\<lparr>end_offset_top := a2\<rparr>) = md_ok md"
  "md_ok (md\<lparr>capture_last := a2\<rparr>) = md_ok md"
  "md_ok (md\<lparr>match_function_type := a2\<rparr>) = md_ok md"
  "md_ok (md\<lparr>recursive := a5\<rparr>) = md_ok md"
  "md_ok (md\<lparr>mark := a6\<rparr>) = md_ok md"
  "md_ok (md\<lparr>nomatch_mark := a6\<rparr>) = md_ok md"
  "md_ok (md\<lparr>once_target := a6\<rparr>) = md_ok md"
  by (simp_all add: md_ok_def subject_ok_def)

lemma subject_ok_simps [simp]:
  "subject_ok (md\<lparr>end_match_ptr := e\<rparr>) = subject_ok md"
  "subject_ok (md\<lparr>offset_vector := vs\<rparr>) = subject_ok md"
  by (simp_all add: subject_ok_def)

text \<open>Updates of the fields that the laws leave free.\<close>

lemma step_law_free [simp]:
  "step_law md (md'\<lparr>nllen := a1\<rparr>) = step_law md md'"
  "step_law md (md'\<lparr>skip_arg_count := a2\<rparr>) = step_law md md'"
  "step_law md (md'\<lparr>start_match_ptr := a2\<rparr>) = step_law md md'"
  "step_law md (md'\<lparr>end_offset_top := a2\<rparr>) = step_law md md'"
  "step_law md (md'\<lparr>capture_last := a2\<rparr>) = step_law md md'"
  "step_law md (md'\<lparr>match_function_type := a2\<rparr>) = step_law md md'"
  "step_law md (md'\<lparr>mark := a6\<rparr>) = step_law md md'"
  "step_law md (md'\<lparr>nomatch_mark := a6\<rparr>) = step_law md md'"
  "step_law md (md'\<lparr>once_target := a6\<rparr>) = step_law md md'"
  by (simp_all add: step_law_def grows_def)

lemma ret_law_free [simp]:
  "ret_law md r (md'\<lparr>nllen := a1\<rparr>) = ret_law md r md'"
  "ret_law md r (md'\<lparr>start_match_ptr := a2\<rparr>) = ret_law md r md'"
  "ret_law md r (md'\<lparr>end_offset_top := a2\<rparr>) = ret_law md r md'"
  "ret_law md r (md'\<lparr>capture_last := a2\<rparr>) = ret_law md r md'"
  "ret_law md r (md'\<lparr>match_function_type := a2\<rparr>) = ret_law md r md'"
  "ret_law md r (md'\<lparr>mark := a6\<rparr>) = ret_law md r md'"
  "ret_law md r (md'\<lparr>nomatch_mark := a6\<rparr>) = ret_law md r md'"
  "ret_law md r (md'\<lparr>once_target := a6\<rparr>) = ret_law md r md'"
  by (simp_all add: ret_law_def grows_def)

lemma step_law_refl: "md_ok md \<Longrightarrow> step_law md md"
  by (simp add: step_law_def grows_def)

lemma grows_trans: "grows md md1 \<Longrightarrow> grows md1 md2 \<Longrightarrow> grows md md2"
  using consts_ofD(11) [of md1 md] by (auto simp: grows_def)

lemma step_law_trans: "step_law md md1 \<Longrightarrow> step_law md1 md2 \<Longrightarrow> step_law md md2"
  using consts_ofD(1,11) [of md1 md] unfolding step_law_def
  by (auto simp: grows_def intro: grows_trans)

lemma step_ret_trans: "step_law md md1 \<Longrightarrow> ret_law md1 r md2 \<Longrightarrow> ret_law md r md2"
  using consts_ofD(1,11) [of md1 md] may_skip_arg_consts [of md1 md] unfolding step_law_def ret_law_def
  by (auto simp: grows_def intro: grows_trans)

lemma step_out_trans: "step_law md md1 \<Longrightarrow> out_law md1 out \<Longrightarrow> out_law md out"
  by (cases out) (auto intro: step_law_trans step_ret_trans)

text \<open>A return that is neither of the two special errors is a step, and every step is a return.\<close>

lemma step_imp_ret: "step_law md md' \<Longrightarrow> r \<noteq> MATCH_SKIP_ARG \<or> may_skip_arg md \<Longrightarrow> ret_law md r md'"
  by (auto simp: step_law_def ret_law_def)

lemma ret_law_imp_step: "r \<noteq> PCRE_ERROR_NOMEMORY \<Longrightarrow> r \<noteq> PCRE_ERROR_MATCHLIMIT \<Longrightarrow> ret_law md r md' \<Longrightarrow> step_law md md'"
  by (auto simp: step_law_def ret_law_def)

lemma ret_law_step:
  "r \<noteq> PCRE_ERROR_NOMEMORY \<Longrightarrow> r \<noteq> PCRE_ERROR_MATCHLIMIT \<Longrightarrow> r \<noteq> MATCH_SKIP_ARG \<Longrightarrow>
     ret_law md r md' = step_law md md'"
  by (auto simp: step_law_def ret_law_def)

lemma ret_law_numeral [simp]:
  "ret_law md 1 md' = step_law md md'" "ret_law md 0 md' = step_law md md'"
  "ret_law md (-12) md' = step_law md md'" "ret_law md (-14) md' = step_law md md'"
  "ret_law md (-999) md' = step_law md md'" "ret_law md (-998) md' = step_law md md'"
  "ret_law md (-997) md' = step_law md md'" "ret_law md (-996) md' = step_law md md'"
  "ret_law md (-995) md' = step_law md md'" "ret_law md (-994) md' = step_law md md'"
  "ret_law md (-993) md' = (step_law md md' \<and> may_skip_arg md)"
  "ret_law md (-992) md' = step_law md md'"
  "ret_law md (-5) md' = step_law md md'" "ret_law md (-26) md' = step_law md md'"
  by (auto simp: ret_law_def step_law_def)

lemma ret_law_then [simp]: "ret_law md (then_in_branch md'' ec r) md' = ret_law md r md'"
  by (auto simp: then_in_branch_def Let_def)

lemma step_law_md_ok: "step_law md md' \<Longrightarrow> md_ok md'"
  by (simp add: step_law_def grows_def)

lemma ret_law_md_ok: "ret_law md r md' \<Longrightarrow> md_ok md'"
  by (simp add: ret_law_def grows_def)

lemma step_law_end: "step_law md md' \<Longrightarrow> end_subject md' = end_subject md"
  using consts_ofD(2) [of md' md] by (simp add: step_law_def grows_def)

lemma ret_law_end: "ret_law md r md' \<Longrightarrow> end_subject md' = end_subject md"
  using consts_ofD(2) [of md' md] by (simp add: ret_law_def grows_def)

lemma fr_ok_step: "step_law md md' \<Longrightarrow> fr_ok md fr \<Longrightarrow> fr_ok md' fr"
  by (simp add: fr_ok_def step_law_end)

lemma fr_ok_simps [simp]:
  "fr_ok (md\<lparr>nllen := a1\<rparr>) fr = fr_ok md fr" "fr_ok (md\<lparr>mark := a6\<rparr>) fr = fr_ok md fr"
  "fr_ok (md\<lparr>nomatch_mark := a6\<rparr>) fr = fr_ok md fr" "fr_ok (md\<lparr>hitend := a4\<rparr>) fr = fr_ok md fr"
  "fr_ok (md\<lparr>skip_arg_count := a2\<rparr>) fr = fr_ok md fr"
  "fr_ok (md\<lparr>capture_last := a2\<rparr>) fr = fr_ok md fr"
  "fr_ok (md\<lparr>match_function_type := a2\<rparr>) fr = fr_ok md fr"
  "fr_ok (md\<lparr>start_used_ptr := a2\<rparr>) fr = fr_ok md fr"
  "fr_ok (md\<lparr>recursive := a5\<rparr>) fr = fr_ok md fr"
  "fr_ok (md\<lparr>match_call_count := a2\<rparr>) fr = fr_ok md fr"
  "fr_ok (set_ov i v md) fr = fr_ok md fr"
  "fr_ok md (fr\<lparr>ecode := a2\<rparr>) = fr_ok md fr" "fr_ok md (fr\<lparr>mstart := a2\<rparr>) = fr_ok md fr"
  "fr_ok md (fr\<lparr>offset_top := a2\<rparr>) = fr_ok md fr" "fr_ok md (fr\<lparr>eptrb := a7\<rparr>) = fr_ok md fr"
  "fr_ok md (fr\<lparr>rdepth := a2\<rparr>) = fr_ok md fr" "fr_ok md (after_op md' fr) = fr_ok md fr"
  "fr_ok md (after_arg md' fr) = fr_ok md fr" "fr_ok md (next_op fr) = fr_ok md fr"
  "fr_ok md (fr\<lparr>eptr := e\<rparr>) = (e \<le> end_subject md)"
  by (simp_all add: fr_ok_def after_op_def after_arg_def next_op_def set_ov_def)

text \<open>The updates that have to respect the laws.\<close>

lemma step_law_hitend [simp]:
  "step_law md md' \<Longrightarrow> 0 < partial md' \<Longrightarrow> step_law md (md'\<lparr>hitend := True\<rparr>)"
  using consts_ofD(11) [of md' md] by (simp add: step_law_def grows_def)

lemma step_law_used: "step_law md md' \<Longrightarrow> e \<le> start_used_ptr md' \<Longrightarrow> step_law md (md'\<lparr>start_used_ptr := e\<rparr>)"
  by (simp add: step_law_def grows_def)

lemma step_law_end_match:
  assumes "step_law md md'" "e \<le> end_subject md"
  shows "step_law md (md'\<lparr>end_match_ptr := e\<rparr>)"
proof -
  have "e \<le> end_subject md'" using assms by (simp add: step_law_end)
  with assms(1) show ?thesis by (simp add: step_law_def grows_def md_ok_def)
qed

lemma offsets_ok_update: "offsets_ok n vs \<Longrightarrow> -1 \<le> v \<Longrightarrow> v \<le> int n \<Longrightarrow> offsets_ok n (vs[i := v])"
  unfolding offsets_ok_def using set_update_subset_insert [of vs i v] by fastforce

lemma ov_ok: "md_ok md \<Longrightarrow> -1 \<le> ov md i \<and> ov md i \<le> int (end_subject md)"
  by (cases "i < length (offset_vector md)")
    (simp_all add: md_ok_def offsets_ok_def ov_def nth_default_def)

lemma step_law_set_ov:
  assumes "step_law md md'" "-1 \<le> v" "v \<le> int (end_subject md)"
  shows "step_law md (set_ov i v md')"
proof -
  have e: "end_subject md' = end_subject md" using assms(1) by (rule step_law_end)
  then have "offsets_ok (end_subject md') ((offset_vector md')[i := v])"
    using assms by (intro offsets_ok_update) (simp_all add: step_law_def grows_def md_ok_def)
  with assms show ?thesis
    by (simp add: set_ov_def step_law_def grows_def md_ok_def)
qed

lemma end_subject_set_ov [simp]: "end_subject (set_ov i v md) = end_subject md"
  by (simp add: set_ov_def)

end
