(* ===== verification/ExecContract.thy ===== *)
theory ExecContract
  imports ExecLaws
begin

text \<open>
  The contract between the code of an opcode and the recursive calls that it makes: a matcher that
  keeps the laws. The code of every opcode keeps them too, whatever the matcher, and so does the
  main loop; the interpretation at the end gives the laws for \<open>match()\<close> itself.
\<close>

subsection \<open>Codes without recursive calls\<close>

lemma partial_laws:
  "step_law md md' \<Longrightarrow> step_law md (fst (check_partial md' e))"
  "step_law md md' \<Longrightarrow> step_law md (fst (scheck_partial md' e))"
  "step_law md md' \<Longrightarrow> step_law md (fst (partial_newline md' e))"
  by (simp_all add: check_partial_def scheck_partial_def partial_newline_def)

lemma partial_out_laws:
  assumes "step_law md md'"
  shows "out_law md (partial_fail (check_partial md' e))"
    "out_law md (partial_fail (scheck_partial md' e))"
    "out_law md (partial_fail (partial_newline md' e))"
    "fr_ok md' fr \<Longrightarrow> out_law md (partial_cont (check_partial md' e) fr)"
    "fr_ok md' fr \<Longrightarrow> out_law md (partial_cont (scheck_partial md' e) fr)"
  using assms
  by (auto simp: partial_fail_def partial_cont_def check_partial_def scheck_partial_def partial_newline_def)

lemmas step_law_refl [simp]

lemma partial_out_laws_here [simp]:
  "md_ok md \<Longrightarrow> out_law md (partial_fail (check_partial md e))"
  "md_ok md \<Longrightarrow> out_law md (partial_fail (scheck_partial md e))"
  "md_ok md \<Longrightarrow> out_law md (partial_fail (partial_newline md e))"
  "md_ok md \<Longrightarrow> fr_ok md fr \<Longrightarrow> out_law md (partial_cont (check_partial md e) fr)"
  "md_ok md \<Longrightarrow> fr_ok md fr \<Longrightarrow> out_law md (partial_cont (scheck_partial md e) fr)"
  by (simp_all add: partial_out_laws)

lemma step_law_used_here [simp]:
  "md_ok md \<Longrightarrow> e \<le> start_used_ptr md \<Longrightarrow> step_law md (md\<lparr>start_used_ptr := e\<rparr>)"
  by (simp add: step_law_used)

lemma step_law_end_match_here [simp]:
  "md_ok md \<Longrightarrow> e \<le> end_subject md \<Longrightarrow> step_law md (md\<lparr>end_match_ptr := e\<rparr>)"
  by (simp add: step_law_end_match)

lemma newline_laws:
  "step_law md md' \<Longrightarrow> step_law md (snd (md_is_newline md' e))"
  "step_law md md' \<Longrightarrow> step_law md (snd (md_was_newline md' e))"
  by (simp_all add: md_is_newline_def md_was_newline_def split: prod.split)

lemma newline_laws_here [simp]:
  "md_ok md \<Longrightarrow> step_law md (snd (md_is_newline md e))"
  "md_ok md \<Longrightarrow> step_law md (snd (md_was_newline md e))"
  by (simp_all add: newline_laws)

lemma newline_end [simp]:
  "end_subject (snd (md_is_newline md e)) = end_subject md"
  "end_subject (snd (md_was_newline md e)) = end_subject md"
  by (simp_all add: md_is_newline_def md_was_newline_def split: prod.split)

lemma char_bound:
  assumes "md_ok md" "e < end_subject md" "getcharinctest (utf md) (start_subject md) e = (c, e')"
  shows "e < e' \<and> e' \<le> end_subject md"
  using assms getcharinctest_bound [of "utf md" "start_subject md" e c e']
  by (simp add: md_ok_def subject_ok_def)

lemma charlen_bound:
  assumes "md_ok md" "e < end_subject md" "getcharlentest (utf md) (start_subject md) e = (c, len)"
  shows "0 < len \<and> e + len \<le> end_subject md"
  using char_bound [OF assms(1,2), of c "e + len"] assms(3) by (simp add: getcharinctest_def)

lemma across_bound:
  "e \<le> end_subject md \<Longrightarrow> acrosschar s (end_subject md) e \<le> end_subject md"
  by (rule acrosschar_bound)

lemma with_char_law:
  assumes "md_ok md" "fr_ok md fr"
    and "\<And>c e. eptr fr < e \<Longrightarrow> e \<le> end_subject md \<Longrightarrow> out_law md (k c (fr\<lparr>eptr := e\<rparr>))"
    and "with_char md fr k = Some out"
  shows "out_law md out"
proof (cases "eptr fr \<ge> end_subject md")
  case True
  then show ?thesis
    using assms(1,4) by (auto simp: with_char_def intro: partial_out_laws step_law_refl)
next
  case False
  obtain c e where ce: "getcharinctest (utf md) (start_subject md) (eptr fr) = (c, e)"
    by fastforce
  with False have "eptr fr < e" "e \<le> end_subject md"
    using char_bound [OF assms(1) _ ce] by auto
  with assms(3,4) False ce show ?thesis by (auto simp: with_char_def)
qed

lemma extuni_loop_bound: "md_ok md \<Longrightarrow> e \<le> end_subject md \<Longrightarrow> extuni_loop md lgb e \<le> end_subject md"
proof (induction md lgb e rule: extuni_loop.induct)
  case (1 md lgb e)
  show ?case
  proof (cases "e < end_subject md")
    case True
    obtain c len where cl: "getcharlentest (utf md) (start_subject md) e = (c, len)" by fastforce
    with True "1.prems"(1) have "e + len \<le> end_subject md" using charlen_bound by blast
    with True cl 1 show ?thesis by (subst extuni_loop.simps) (simp add: Let_def)
  next
    case False
    with "1.prems" show ?thesis by (subst extuni_loop.simps) simp
  qed
qed

lemma reverse_utf_le: "reverse_utf s n e = Some e' \<Longrightarrow> e' \<le> e"
proof (induction s n e rule: reverse_utf.induct)
  case (2 s n e)
  then have "e' \<le> backchar s (e - 1)" by (auto split: if_splits)
  then show ?case using backchar_le [of s "e - 1"] by simp
qed simp

text \<open>The codes one by one: assertions.\<close>

lemma case_SOD_law: "md_ok md \<Longrightarrow> fr_ok md fr \<Longrightarrow> case_SOD md fr = Some out \<Longrightarrow> out_law md out"
  by (auto simp: case_SOD_def step_law_refl)

lemma case_CIRC_law: "md_ok md \<Longrightarrow> fr_ok md fr \<Longrightarrow> case_CIRC md fr = Some out \<Longrightarrow> out_law md out"
  by (auto simp: case_CIRC_def step_law_refl case_SOD_law split: if_splits)

lemma case_CIRCM_law: "md_ok md \<Longrightarrow> fr_ok md fr \<Longrightarrow> case_CIRCM md fr = Some out \<Longrightarrow> out_law md out"
  using newline_laws(2) [OF step_law_refl]
  by (auto simp: case_CIRCM_def step_law_refl Let_def split_beta fr_ok_def next_op_def split: if_splits)

lemma case_SOM_law: "md_ok md \<Longrightarrow> fr_ok md fr \<Longrightarrow> case_SOM md fr = Some out \<Longrightarrow> out_law md out"
  by (auto simp: case_SOM_def step_law_refl)

lemma case_SET_SOM_law: "md_ok md \<Longrightarrow> fr_ok md fr \<Longrightarrow> case_SET_SOM md fr = Some out \<Longrightarrow> out_law md out"
  by (auto simp: case_SET_SOM_def step_law_refl)

lemma case_DOLLM_law: "md_ok md \<Longrightarrow> fr_ok md fr \<Longrightarrow> case_DOLLM md fr = Some out \<Longrightarrow> out_law md out"
  by (auto simp: case_DOLLM_def Let_def split_beta fr_ok_def next_op_def
      intro!: partial_out_laws split: if_splits)

lemma case_EOD_law: "md_ok md \<Longrightarrow> fr_ok md fr \<Longrightarrow> case_EOD md fr = Some out \<Longrightarrow> out_law md out"
  by (auto simp: case_EOD_def step_law_refl)

lemma case_EODN_law: "md_ok md \<Longrightarrow> fr_ok md fr \<Longrightarrow> case_EODN md fr = Some out \<Longrightarrow> out_law md out"
  by (auto simp: case_EODN_def Let_def split_beta fr_ok_def next_op_def
      intro!: partial_out_laws split: if_splits)

lemma case_DOLL_law: "md_ok md \<Longrightarrow> fr_ok md fr \<Longrightarrow> case_DOLL md fr = Some out \<Longrightarrow> out_law md out"
  by (auto simp: case_DOLL_def step_law_refl case_EOD_law case_EODN_law split: if_splits)

lemma prev_is_word_law: "md_ok md \<Longrightarrow> step_law md (snd (prev_is_word md e))"
  by (auto simp: prev_is_word_def Let_def step_law_refl intro: step_law_used)

lemma prev_is_word_end [simp]: "end_subject (snd (prev_is_word md e)) = end_subject md"
  by (auto simp: prev_is_word_def Let_def)

lemma case_WORD_BOUNDARY_law:
  "md_ok md \<Longrightarrow> fr_ok md fr \<Longrightarrow> case_WORD_BOUNDARY md fr = Some out \<Longrightarrow> out_law md out"
  using prev_is_word_law [of md "eptr fr"]
  by (auto simp: case_WORD_BOUNDARY_def Let_def split_beta scheck_partial_def fr_ok_def next_op_def)

text \<open>Characters.\<close>

lemma case_ALLANY_law: "md_ok md \<Longrightarrow> fr_ok md fr \<Longrightarrow> case_ALLANY md fr = Some out \<Longrightarrow> out_law md out"
  by (auto simp: case_ALLANY_def Let_def not_le Suc_le_eq across_bound)

lemma case_ANY_law:
  assumes "md_ok md" "fr_ok md fr" "case_ANY md fr = Some out"
  shows "out_law md out"
proof -
  let ?md = "snd (md_is_newline md (eptr fr))"
  let ?p = "if eptr fr + 1 = end_subject ?md then partial_newline ?md (eptr fr) else (?md, False)"
  have s: "step_law md ?md" using assms(1) by (intro newline_laws step_law_refl)
  then have p: "step_law md (fst ?p)" by (simp add: partial_laws)
  have fr: "fr_ok (fst ?p) fr" using assms(2) p by (rule fr_ok_step [rotated])
  show ?thesis
    using assms(3) s p case_ALLANY_law [OF step_law_md_ok [OF p] fr, of out]
    by (auto simp: case_ANY_def Let_def split_beta split: if_splits intro: step_out_trans)
qed

lemma case_ANYBYTE_law: "md_ok md \<Longrightarrow> fr_ok md fr \<Longrightarrow> case_ANYBYTE md fr = Some out \<Longrightarrow> out_law md out"
  by (auto simp: case_ANYBYTE_def not_le Suc_le_eq)

lemma case_TYPE_law: "md_ok md \<Longrightarrow> fr_ok md fr \<Longrightarrow> case_TYPE md fr = Some out \<Longrightarrow> out_law md out"
  unfolding case_TYPE_def by (erule (1) with_char_law [rotated 3]) (auto simp: step_law_refl)

lemma case_ANYNL_law: "md_ok md \<Longrightarrow> fr_ok md fr \<Longrightarrow> case_ANYNL md fr = Some out \<Longrightarrow> out_law md out"
  unfolding case_ANYNL_def
  by (rule with_char_law) (auto simp: step_law_refl)

lemma case_HVSPACE_law: "md_ok md \<Longrightarrow> fr_ok md fr \<Longrightarrow> case_HVSPACE md fr = Some out \<Longrightarrow> out_law md out"
  unfolding case_HVSPACE_def by (rule with_char_law) (auto simp: step_law_refl)

lemma case_PROP_law: "md_ok md \<Longrightarrow> fr_ok md fr \<Longrightarrow> case_PROP md fr = Some out \<Longrightarrow> out_law md out"
  unfolding case_PROP_def
  by (rule with_char_law) (auto simp: step_law_refl split: option.split)

lemma case_EXTUNI_law: "md_ok md \<Longrightarrow> fr_ok md fr \<Longrightarrow> case_EXTUNI md fr = Some out \<Longrightarrow> out_law md out"
  unfolding case_EXTUNI_def
  by (rule with_char_law)
    (auto simp: Let_def extuni_loop_bound)

lemma case_CHAR_law: "md_ok md \<Longrightarrow> fr_ok md fr \<Longrightarrow> case_CHAR md fr = Some out \<Longrightarrow> out_law md out"
  by (auto simp: case_CHAR_def Let_def fr_ok_def split: if_splits)

lemma getcharinc_bound [simp]:
  assumes "md_ok md" "utf md" "e < end_subject md"
  shows "e < snd (getcharinc (start_subject md) e)"
    and "snd (getcharinc (start_subject md) e) \<le> end_subject md"
  using char_bound [OF assms(1,3) surjective_pairing] assms(2) by (simp_all add: getcharinc_def)

lemma case_CHARI_law: "md_ok md \<Longrightarrow> fr_ok md fr \<Longrightarrow> case_CHARI md fr = Some out \<Longrightarrow> out_law md out"
  unfolding case_CHARI_def Let_def split_beta
  by (simp add: not_le Suc_le_eq split: if_splits) (auto simp: Suc_le_eq)

lemma case_NOT_law: "md_ok md \<Longrightarrow> fr_ok md fr \<Longrightarrow> case_NOT md fr = Some out \<Longrightarrow> out_law md out"
  unfolding case_NOT_def Let_def split_beta
  by (simp add: not_le Suc_le_eq split: if_splits) (auto simp: Suc_le_eq)

text \<open>Ends, lookbehind, callouts and jumps.\<close>

lemma mark_capture_laws [simp]:
  "step_law md (mark_capture n md') = step_law md md'" "end_subject (mark_capture n md') = end_subject md'"
  "fr_ok (mark_capture n md') fr = fr_ok md' fr" "md_ok (mark_capture n md') = md_ok md'"
  by (simp_all add: mark_capture_def Let_def fr_ok_def)

lemma unset_from_law: "step_law md md' \<Longrightarrow> step_law md (unset_from i n md')"
  by (induction i n md' rule: unset_from.induct) (simp_all add: step_law_set_ov)

lemma unset_range_law: "step_law md md' \<Longrightarrow> step_law md (unset_range i j md')"
  by (simp add: unset_range_def unset_from_law)

lemma ov_law: "step_law md md' \<Longrightarrow> -1 \<le> ov md' i \<and> ov md' i \<le> int (end_subject md)"
  using ov_ok [of md' i] step_law_md_ok step_law_end by fastforce

lemma case_CLOSE_law:
  assumes "md_ok md" "fr_ok md fr" "case_CLOSE md fr = Some out"
  shows "out_law md out"
proof -
  let ?n = "GET2 (start_code md) (ecode fr) 1"
  let ?md = "mark_capture ?n md"
  let ?md' = "set_ov (2 * ?n + 1) (int (eptr fr)) (set_ov (2 * ?n) (ov ?md (offset_end ?md - ?n)) ?md)"
  have m: "step_law md ?md" using assms(1) by (simp add: step_law_refl)
  then have m': "step_law md ?md'"
    using assms(2) ov_law [OF m] by (intro step_law_set_ov) (simp_all add: fr_ok_def)
  note u = unset_range_law [OF m']
  show ?thesis
    using assms m m' u fr_ok_step [OF u assms(2)]
    by (auto simp: case_CLOSE_def Let_def split: if_splits)
qed

lemma case_END_law: "md_ok md \<Longrightarrow> fr_ok md fr \<Longrightarrow> case_END md fr = Some out \<Longrightarrow> out_law md out"
  by (auto simp: case_END_def Let_def step_law_refl fr_ok_def split: if_splits)

lemma case_REVERSE_law: "md_ok md \<Longrightarrow> fr_ok md fr \<Longrightarrow> case_REVERSE md fr = Some out \<Longrightarrow> out_law md out"
  by (auto simp: case_REVERSE_def Let_def step_law_refl fr_ok_def
      split: if_splits option.splits dest!: reverse_utf_le)

lemma do_callout_skip: "do_callout md fr ec \<noteq> 0 \<Longrightarrow> may_skip_arg md"
  by (auto simp: do_callout_def may_skip_arg_def split: option.splits)

lemma case_CALLOUT_law: "md_ok md \<Longrightarrow> fr_ok md fr \<Longrightarrow> case_CALLOUT md fr = Some out \<Longrightarrow> out_law md out"
  using do_callout_skip [of md fr "ecode fr"]
  by (auto simp: case_CALLOUT_def Let_def step_law_refl step_imp_ret split: if_splits)

lemma case_ALT_law: "md_ok md \<Longrightarrow> fr_ok md fr \<Longrightarrow> case_ALT md fr = Some out \<Longrightarrow> out_law md out"
  by (auto simp: case_ALT_def step_law_refl bind_eq_Some_conv)

lemma case_SKIPZERO_law: "md_ok md \<Longrightarrow> fr_ok md fr \<Longrightarrow> case_SKIPZERO md fr = Some out \<Longrightarrow> out_law md out"
  by (auto simp: case_SKIPZERO_def step_law_refl bind_eq_Some_conv)


subsection \<open>Steps over one item\<close>

text \<open>
  The interface between the loops of a repeat and its item: a step keeps the laws and stays
  inside the subject.
\<close>

fun step_result_law :: "match_data \<Rightarrow> step_result \<Rightarrow> bool" where
  "step_result_law md (Adv md' e) = (step_law md md' \<and> e \<le> end_subject md)"
| "step_result_law md (Last md' e) = (step_law md md' \<and> e \<le> end_subject md)"
| "step_result_law md (Stop md') = step_law md md'"
| "step_result_law md (Quit rrc md') = ret_law md rrc md'"

text \<open>What a loop over items leaves: a state to go on with, or the outcome of the opcode.\<close>

fun run_law :: "match_data \<Rightarrow> outcome + (match_data \<times> nat) \<Rightarrow> bool" where
  "run_law md (Inl out) = out_law md out"
| "run_law md (Inr (md', e)) = (step_law md md' \<and> e \<le> end_subject md)"

lemma run_law_trans: "step_law md md1 \<Longrightarrow> run_law md1 r \<Longrightarrow> run_law md r"
  by (induction md1 r rule: run_law.induct)
    (auto intro: step_out_trans step_law_trans simp: step_law_end)

locale item_step =
  fixes stp :: stepper
  assumes step: "md_ok md \<Longrightarrow> e \<le> end_subject md \<Longrightarrow> stp md e = Some r \<Longrightarrow> step_result_law md r"
begin

lemma min_loop:
  "md_ok md \<Longrightarrow> e \<le> end_subject md \<Longrightarrow> rep_min_loop stp n md e = Some r \<Longrightarrow> run_law md r"
proof (induction n arbitrary: md e)
  case (Suc n)
  then obtain q where q: "stp md e = Some q" by (auto simp: bind_eq_Some_conv)
  note l = step [OF Suc.prems(1,2) q]
  show ?case
  proof (cases q)
    case (Adv md' e')
    with l have l': "step_law md md'" "e' \<le> end_subject md'" using step_law_end [of md md'] by simp_all
    have "run_law md' r"
      using Suc.IH [OF step_law_md_ok [OF l'(1)] l'(2)] Suc.prems(3) q Adv by simp
    with l' show ?thesis by (auto intro: run_law_trans)
  next
    case (Last md' e')
    with l have l': "step_law md md'" "e' \<le> end_subject md'" using step_law_end [of md md'] by simp_all
    have "run_law md' r"
      using Suc.IH [OF step_law_md_ok [OF l'(1)] l'(2)] Suc.prems(3) q Last by simp
    with l' show ?thesis by (auto intro: run_law_trans)
  qed (use l q Suc.prems in auto)
qed auto

lemma greedy:
  "md_ok md \<Longrightarrow> e \<le> end_subject md \<Longrightarrow> rep_greedy stp i mx md e = Some r \<Longrightarrow> run_law md r"
proof (induction "mx - i" arbitrary: i md e)
  case 0
  then show ?case by (subst (asm) rep_greedy.simps) auto
next
  case (Suc n)
  then have i: "i < mx" by simp
  with Suc.prems(3) obtain q where q: "stp md e = Some q"
    by (subst (asm) rep_greedy.simps) (auto simp: bind_eq_Some_conv)
  note l = step [OF Suc.prems(1,2) q]
  show ?case
  proof (cases q)
    case (Adv md' e')
    with l have l': "step_law md md'" "e' \<le> end_subject md'" using step_law_end [of md md'] by simp_all
    have "rep_greedy stp (i + 1) mx md' e' = Some r"
      using Suc.prems(3) q Adv i by (subst (asm) rep_greedy.simps) simp
    then have "run_law md' r"
      using Suc.hyps(2) by (intro Suc.hyps(1) [OF _ step_law_md_ok [OF l'(1)] l'(2)]) simp_all
    with l' show ?thesis by (auto intro: run_law_trans)
  qed (use l q i Suc.prems in \<open>(subst (asm) rep_greedy.simps, auto)+\<close>)
qed

end

text \<open>The steps of the opcodes are such steps.\<close>

lemma stop_partial_law [simp]:
  "md_ok md \<Longrightarrow> step_result_law md (stop_partial (check_partial md e))"
  "md_ok md \<Longrightarrow> step_result_law md (stop_partial (scheck_partial md e))"
  by (auto simp: stop_partial_def check_partial_def scheck_partial_def)

lemma ref_loop_caseless_bound:
  "e \<le> end_subject md \<Longrightarrow> ref_loop_caseless md p n e = Inr e' \<Longrightarrow> e' \<le> end_subject md"
  by (induction md p n e rule: ref_loop_caseless.induct) (auto split: if_splits)

lemma ref_loop_caseful_bound:
  "e \<le> end_subject md \<Longrightarrow> ref_loop_caseful md p n e = Inr e' \<Longrightarrow> e' \<le> end_subject md"
  by (induction md p n e rule: ref_loop_caseful.induct) (auto split: if_splits)

lemma ref_loop_utf_bound:
  assumes "md_ok md" "utf md"
  shows "e \<le> end_subject md \<Longrightarrow> ref_loop_utf md p q e = Inr e' \<Longrightarrow> e' \<le> end_subject md"
  using assms
proof (induction md p q e rule: ref_loop_utf.induct)
  case (1 md p q e)
  obtain c d k l where g: "getcharinc (start_subject md) e = (c, k)"
    "getcharinc (start_subject md) p = (d, l)" by fastforce
  show ?case
  proof (cases "p < q \<and> e < end_subject md")
    case True
    let ?b = "c \<noteq> d \<and> c \<noteq> UCD_OTHERCASE (ucd md) d \<and>
      \<not> in_caseless_set (ucd md) c (caseset (GET_UCD (ucd md) d))"
    have r: "(if ?b then Inl (-1) else ref_loop_utf md l q k) = Inr e'"
      using "1.prems"(2) True g by (subst (asm) ref_loop_utf.simps) simp
    then have "\<not> ?b" "ref_loop_utf md l q k = Inr e'" by (auto split: if_splits)
    moreover have "k \<le> end_subject md"
      using getcharinc_bound(2) [of md e] True g(1) "1.prems" by simp
    ultimately show ?thesis
      using "1.IH" [OF _ _ g(1) [symmetric] refl g(2) [symmetric] refl] True "1.prems" by simp
  next
    case False
    with "1.prems" show ?thesis by (subst (asm) ref_loop_utf.simps) (auto split: if_splits)
  qed
qed

lemma match_ref_bound:
  "md_ok md \<Longrightarrow> e \<le> end_subject md \<Longrightarrow> match_ref md offset e len caseless = Inr e' \<Longrightarrow> e' \<le> end_subject md"
  by (auto simp: match_ref_def Let_def split: if_splits
      intro: ref_loop_utf_bound ref_loop_caseless_bound ref_loop_caseful_bound)

interpretation ref_item: item_step "ref_step offset len caseless" for offset len caseless
  by unfold_locales (auto simp: ref_step_def split: sum.splits dest: match_ref_bound)

interpretation ref_max_item: item_step "ref_step_max offset len caseless" for offset len caseless
  by unfold_locales
    (auto simp: ref_step_max_def stop_partial_def split: sum.splits if_splits dest: match_ref_bound)

interpretation char_item: item_step "char_step test" for test
proof unfold_locales
  fix md e r assume a: "md_ok md" "char_step test md e = Some r"
  show "step_result_law md r"
  proof (cases "e < end_subject md")
    case True
    obtain c e' where "getcharinctest (utf md) (start_subject md) e = (c, e')" by fastforce
    with a True char_bound [OF a(1) True this] show ?thesis
      by (auto simp: char_step_def bind_eq_Some_conv split: if_splits)
  qed (use a in \<open>auto simp: char_step_def\<close>)
qed

interpretation byte_item: item_step "byte_step test" for test
  by unfold_locales (auto simp: byte_step_def not_le Suc_le_eq split: if_splits)

interpretation multibyte_item: item_step "multibyte_step charptr len occhars" for charptr len occhars
  by unfold_locales (auto simp: multibyte_step_def split: if_splits)

interpretation prop_item: item_step "prop_step pt pv fail" for pt pv fail
proof unfold_locales
  fix md e r assume a: "md_ok md" "prop_step pt pv fail md e = Some r"
  show "step_result_law md r"
  proof (cases "e < end_subject md")
    case True
    obtain c e' where "getcharinctest (utf md) (start_subject md) e = (c, e')" by fastforce
    with a True char_bound [OF a(1) True this] show ?thesis
      by (auto simp: prop_step_def split: if_splits option.splits)
  qed (use a in \<open>auto simp: prop_step_def\<close>)
qed

interpretation prop_min_item: item_step "prop_step_min pt pv fail" for pt pv fail
  by unfold_locales (auto simp: prop_step_min_def split: if_splits intro: prop_item.step)

lemma newline_step_law:
  "md_ok md \<Longrightarrow> step_law md0 md \<Longrightarrow> e \<le> end_subject md0 \<Longrightarrow> step_result_law md0 (newline_step md c e)"
  using step_law_end [of md0 md] by (auto simp: newline_step_def)

lemma any_step_law:
  assumes "md_ok md" "e < end_subject md"
  shows "step_result_law md (any_step md e)"
proof -
  let ?m = "snd (md_is_newline md e)"
  have "step_law md (fst (partial_newline ?m e))"
    using assms by (intro partial_laws) simp
  then show ?thesis
    using assms step_law_end [of md "fst (partial_newline ?m e)"]
      across_bound [of "Suc e" md]
    by (auto simp: any_step_def Let_def split_beta)
qed

interpretation extuni_item: item_step extuni_step
proof unfold_locales
  fix md e r assume a: "md_ok md" "extuni_step md e = Some r"
  show "step_result_law md r"
  proof (cases "e < end_subject md")
    case True
    obtain c e' where c: "getcharinctest (utf md) (start_subject md) e = (c, e')" by fastforce
    from char_bound [OF a(1) True c]
    have "extuni_loop md (UCD_GRAPHBREAK (ucd md) c) e' \<le> end_subject md"
      using a(1) by (simp add: extuni_loop_bound)
    with a True c show ?thesis
      by (auto simp: extuni_step_def check_partial_def Let_def split: if_splits)
  qed (use a in \<open>auto simp: extuni_step_def\<close>)
qed

lemma type_step_min_utf_law:
  assumes "md_ok md" "e < end_subject md" "type_step_min_utf ctype md e = Some r"
  shows "step_result_law md r"
proof -
  obtain c e' where c: "getcharinctest (utf md) (start_subject md) e = (c, e')" by fastforce
  note e' = char_bound [OF assms(1,2) c]
  have "acrosschar (start_subject md) (end_subject md) (e + 1) \<le> end_subject md"
    using assms(2) by (intro across_bound) simp
  moreover have "step_result_law md (newline_step md c e')" "step_result_law md (any_step md e)"
    using assms(1,2) e' by (auto intro: newline_step_law any_step_law)
  ultimately show ?thesis
    using assms e' by (auto simp: type_step_min_utf_def c Let_def split: if_splits)
qed

interpretation type_min_utf_item: item_step "type_step_min_utf ctype" for ctype
proof unfold_locales
  fix md e r assume a: "md_ok md" "type_step_min_utf ctype md e = Some r"
  show "step_result_law md r"
    using a type_step_min_utf_law [OF a(1) _ a(2)]
    by (cases "e < end_subject md") (auto simp: type_step_min_utf_def)
qed

lemma type_step_min_byte_law:
  assumes "md_ok md" "e < end_subject md" "type_step_min_byte ctype md e = Some r"
  shows "step_result_law md r"
proof -
  have "step_result_law md (newline_step md c (e + 1))" "step_result_law md (any_step md e)" for c
    using assms(1,2) by (auto intro: newline_step_law any_step_law)
  then show ?thesis
    using assms by (auto simp: type_step_min_byte_def Let_def split: if_splits)
qed

interpretation type_min_byte_item: item_step "type_step_min_byte ctype" for ctype
proof unfold_locales
  fix md e r assume a: "md_ok md" "type_step_min_byte ctype md e = Some r"
  show "step_result_law md r"
    using a type_step_min_byte_law [OF a(1) _ a(2)]
    by (cases "e < end_subject md") (auto simp: type_step_min_byte_def)
qed

lemma type_step_lazy_law:
  assumes "md_ok md" "e < end_subject md" "type_step_lazy ctype md e = Some r"
  shows "step_result_law md r"
proof -
  let ?m = "snd (if ctype = OP_ANY then md_is_newline md e else (False, md))"
  have m: "step_law md ?m" using assms(1) by simp
  have same: "utf ?m = utf md" "start_subject ?m = start_subject md" "end_subject ?m = end_subject md"
    using m consts_ofD [of ?m md] by (simp_all add: step_law_def grows_def)
  obtain c e' where c: "getcharinctest (utf md) (start_subject md) e = (c, e')" by fastforce
  note e' = char_bound [OF assms(1,2) c]
  have "step_result_law md (newline_step ?m c e')"
    using m e' by (intro newline_step_law step_law_md_ok [OF m]) auto
  then show ?thesis
    using assms m e' c same
    by (auto simp: type_step_lazy_def Let_def split_beta split: if_splits)
qed

interpretation type_lazy_item: item_step "type_step_lazy ctype" for ctype
proof unfold_locales
  fix md e r assume a: "md_ok md" "type_step_lazy ctype md e = Some r"
  show "step_result_law md r"
    using a type_step_lazy_law [OF a(1) _ a(2)]
    by (cases "e < end_subject md") (auto simp: type_step_lazy_def)
qed

lemma type_step_max_law:
  assumes "md_ok md" "e < end_subject md" "type_step_max ctype md e = Some r"
  shows "step_result_law md r"
proof -
  obtain c len where c: "getcharlentest (utf md) (start_subject md) e = (c, len)" by fastforce
  note len = charlen_bound [OF assms(1,2) c]
  have "acrosschar (start_subject md) (end_subject md) (e + 1) \<le> end_subject md"
    using assms(2) by (intro across_bound) simp
  moreover have "step_result_law md (newline_step_max md c len e)"
    using assms(1,2) len by (auto simp: newline_step_max_def)
  moreover have "step_result_law md (any_step md e)"
    using assms(1,2) by (rule any_step_law)
  ultimately show ?thesis
    using assms len by (auto simp: type_step_max_def c Let_def split: if_splits)
qed

interpretation type_max_item: item_step "type_step_max ctype" for ctype
proof unfold_locales
  fix md e r assume a: "md_ok md" "type_step_max ctype md e = Some r"
  show "step_result_law md r"
    using a type_step_max_law [OF a(1) _ a(2)]
    by (cases "e < end_subject md") (auto simp: type_step_max_def)
qed

lemma type_min_law:
  assumes "md_ok md" "e \<le> end_subject md" "type_min ctype mn md e = Some r"
  shows "run_law md r"
  using assms type_min_utf_item.min_loop [OF assms(1,2), of ctype mn r]
    type_min_byte_item.min_loop [OF assms(1,2), of ctype mn r]
  by (auto simp: type_min_def split: if_splits)

lemma max_to_end_law: "md_ok md \<Longrightarrow> run_law md (max_to_end md)"
  by (auto simp: max_to_end_def scheck_partial_def)

lemma type_max_law:
  assumes "md_ok md" "e \<le> end_subject md" "type_max ctype mn mx md e = Some r"
  shows "run_law md r"
  using assms type_max_item.greedy [OF assms(1,2), of ctype mn mx r] max_to_end_law [OF assms(1)]
  by (auto simp: type_max_def split: if_splits)

subsection \<open>Codes that call the matcher\<close>

lemma back_one_le: "back_one m md pp e \<le> e"
  using back_one_less [of e m md pp] by (cases e) (auto simp: back_one_def Let_def)

text \<open>Restoring the slots of a group, and of all groups after a recursion.\<close>

lemma saved_slots_law:
  "md_ok md \<Longrightarrow> saved_slots n md = (s1, s2, s3) \<Longrightarrow> \<forall>s \<in> {s1, s2, s3}. -1 \<le> s \<and> s \<le> int (end_subject md)"
  using ov_ok [of md] by (auto simp: saved_slots_def)

lemma restore_slots_law:
  assumes "md_ok md" "step_law md md'"
  shows "step_law md (restore_slots n (saved_slots n md) md')"
proof -
  obtain s1 s2 s3 where s: "saved_slots n md = (s1, s2, s3)" by (cases "saved_slots n md")
  show ?thesis
    using assms(2) saved_slots_law [OF assms(1) s]
    by (auto simp: restore_slots_def s intro!: step_law_set_ov)
qed

lemma set_mark_laws [simp]:
  "ret_law md r (set_mark name r' md') = ret_law md r md'"
  "step_law md (set_mark name r' md') = step_law md md'"
  by (simp_all add: set_mark_def)

lemma set_cbegroup_laws [simp]:
  "step_law md (set_cbegroup b md') = step_law md md'" "fr_ok (set_cbegroup b md') fr = fr_ok md' fr"
  by (simp_all add: set_cbegroup_def)

locale match_contract =
  fixes rm :: matcher
  assumes law: "md_ok md \<Longrightarrow> fr_ok md fr \<Longrightarrow> rm md fr = Some (rrc, md') \<Longrightarrow> ret_law md rrc md'"
begin

lemma call:
  "RMATCH rm md fr = Some (rrc, md') \<Longrightarrow> md_ok md \<Longrightarrow> fr_ok md fr \<Longrightarrow> ret_law md rrc md'"
  unfolding RMATCH_def by (rule law) simp_all

text \<open>A call after a change of fields that the laws leave free.\<close>

lemma call_after:
  "RMATCH rm md1 fr = Some (rrc, md') \<Longrightarrow> step_law md md1 \<Longrightarrow> fr_ok md fr \<Longrightarrow> ret_law md rrc md'"
  by (rule step_ret_trans, assumption, rule call)
    (auto intro: step_law_md_ok fr_ok_step)

text \<open>The rule for a call and what is done with its result.\<close>

lemma bind_call:
  assumes "RMATCH rm md1 fr1 \<bind> case_prod k = Some out" "step_law md md1" "fr_ok md fr1"
    and "\<And>rrc md'. ret_law md rrc md' \<Longrightarrow> k rrc md' = Some out \<Longrightarrow> P"
  shows P
proof -
  obtain rrc md' where r: "RMATCH rm md1 fr1 = Some (rrc, md')" "k rrc md' = Some out"
    using assms(1) by (auto simp: bind_eq_Some_conv)
  from assms(4) [OF call_after [OF r(1) assms(2,3)] r(2)] show P .
qed

text \<open>A call whose failure lets the code go on.\<close>

lemma bind_try:
  assumes "RMATCH rm md1 fr1 \<bind> case_prod (\<lambda>rrc md. if rrc \<noteq> MATCH_NOMATCH then Some (Ret rrc md) else k md) = Some out"
    and "step_law md md1" "fr_ok md fr1"
    and "\<And>md'. step_law md md' \<Longrightarrow> md_ok md' \<Longrightarrow> k md' = Some out \<Longrightarrow> out_law md' out"
  shows "out_law md out"
  using assms(1-3)
proof (rule bind_call)
  fix rrc md'
  assume l: "ret_law md rrc md'"
    and k: "(if rrc \<noteq> MATCH_NOMATCH then Some (Ret rrc md') else k md') = Some out"
  show "out_law md out"
  proof (cases "rrc = MATCH_NOMATCH")
    case True
    with l have s: "step_law md md'" by simp
    from True k assms(4) [OF s step_law_md_ok [OF s]] have "out_law md' out" by simp
    with s show ?thesis by (rule step_out_trans)
  qed (use l k in auto)
qed

lemma MARK_law: "md_ok md \<Longrightarrow> fr_ok md fr \<Longrightarrow> case_MARK rm md fr = Some out \<Longrightarrow> out_law md out"
  unfolding case_MARK_def Let_def by (erule bind_call) (auto split: if_splits)

lemma COMMIT_law: "md_ok md \<Longrightarrow> fr_ok md fr \<Longrightarrow> case_COMMIT rm md fr = Some out \<Longrightarrow> out_law md out"
  unfolding case_COMMIT_def Let_def by (erule bind_call) (auto split: if_splits)

lemma PRUNE_law: "md_ok md \<Longrightarrow> fr_ok md fr \<Longrightarrow> case_PRUNE rm md fr = Some out \<Longrightarrow> out_law md out"
  unfolding case_PRUNE_def Let_def by (erule bind_call) (auto split: if_splits)

lemma PRUNE_ARG_law: "md_ok md \<Longrightarrow> fr_ok md fr \<Longrightarrow> case_PRUNE_ARG rm md fr = Some out \<Longrightarrow> out_law md out"
  unfolding case_PRUNE_ARG_def Let_def by (erule bind_call) (auto split: if_splits)

lemma SKIP_law: "md_ok md \<Longrightarrow> fr_ok md fr \<Longrightarrow> case_SKIP rm md fr = Some out \<Longrightarrow> out_law md out"
  unfolding case_SKIP_def Let_def by (erule bind_call) (auto split: if_splits)

lemma THEN_law: "md_ok md \<Longrightarrow> fr_ok md fr \<Longrightarrow> case_THEN rm md fr = Some out \<Longrightarrow> out_law md out"
  unfolding case_THEN_def Let_def by (erule bind_call) (auto split: if_splits)

lemma THEN_ARG_law: "md_ok md \<Longrightarrow> fr_ok md fr \<Longrightarrow> case_THEN_ARG rm md fr = Some out \<Longrightarrow> out_law md out"
  unfolding case_THEN_ARG_def Let_def by (erule bind_call) (auto split: if_splits)

lemma SKIP_ARG_law:
  "may_skip_arg md \<Longrightarrow> md_ok md \<Longrightarrow> fr_ok md fr \<Longrightarrow> case_SKIP_ARG rm md fr = Some out \<Longrightarrow> out_law md out"
  unfolding case_SKIP_ARG_def Let_def
  by (simp split: if_splits) (auto elim!: bind_call split: if_splits)

end

text \<open>What the loops over alternatives leave.\<close>

fun alts_law :: "match_data \<Rightarrow> (int \<times> match_data) + (match_data \<times> frame) \<Rightarrow> bool" where
  "alts_law md (Inl (rrc, md')) = ret_law md rrc md'"
| "alts_law md (Inr (md', fr)) = (step_law md md' \<and> fr_ok md' fr)"

fun cbra_law :: "match_data \<Rightarrow> (int \<times> match_data) + (int \<times> match_data) \<Rightarrow> bool" where
  "cbra_law md (Inl (rrc, md')) = ret_law md rrc md'"
| "cbra_law md (Inr (rrc, md')) = (step_law md md' \<and> rrc \<noteq> MATCH_SKIP_ARG)"

fun pos_law :: "match_data \<Rightarrow> (int \<times> match_data) + (bool \<times> match_data \<times> frame) \<Rightarrow> bool" where
  "pos_law md (Inl (rrc, md')) = ret_law md rrc md'"
| "pos_law md (Inr (b, md', fr)) = (step_law md md' \<and> fr_ok md' fr)"

lemma alts_law_trans: "step_law md md1 \<Longrightarrow> alts_law md1 r \<Longrightarrow> alts_law md r"
  by (induction md1 r rule: alts_law.induct) (auto intro: step_ret_trans step_law_trans)

lemma cbra_law_trans: "step_law md md1 \<Longrightarrow> cbra_law md1 r \<Longrightarrow> cbra_law md r"
  by (induction md1 r rule: cbra_law.induct) (auto intro: step_ret_trans step_law_trans)

lemma pos_law_trans: "step_law md md1 \<Longrightarrow> pos_law md1 r \<Longrightarrow> pos_law md r"
  by (induction md1 r rule: pos_law.induct) (auto intro: step_ret_trans step_law_trans)

text \<open>A branch that failed leaves a step, also if it failed at a \<open>THEN\<close>.\<close>

lemma failed_branch:
  "then_in_branch md'' ec rrc = k \<Longrightarrow> k \<noteq> PCRE_ERROR_NOMEMORY \<Longrightarrow> k \<noteq> PCRE_ERROR_MATCHLIMIT \<Longrightarrow>
     ret_law md rrc md' \<Longrightarrow> step_law md md'"
  using ret_law_then [of md md'' ec rrc md'] ret_law_imp_step [of k md md'] by simp

lemma matched_end: "step_law md md' \<Longrightarrow> end_match_ptr md' \<le> end_subject md'"
  using step_law_md_ok [of md md'] by (simp add: md_ok_def)

lemma once_nc_loop_law:
  assumes "once_nc_loop rm sm md fr = Some r"
  shows "match_contract rm \<Longrightarrow> md_ok md \<Longrightarrow> fr_ok md fr \<Longrightarrow> alts_law md r"
proof (induction rule: once_nc_loop.raw_induct [OF _ assms, consumes 0])
  case (1 loop rm sm md fr r)
  note IH = "1.IH" [OF _ "1.prems"(1)]
  from "1.hyps" show ?case
    by (rule match_contract.bind_call [OF "1.prems"(1)])
      (use "1.prems"(2,3) in \<open>auto simp: Let_def bind_eq_Some_conv split: if_splits dest!: failed_branch IH
        intro: fr_ok_step step_law_md_ok elim!: alts_law_trans [rotated]\<close>)
qed

lemma assert_loop_law:
  assumes "assert_loop rm sm md fr = Some r"
  shows "match_contract rm \<Longrightarrow> md_ok md \<Longrightarrow> fr_ok md fr \<Longrightarrow> alts_law md r"
proof (induction rule: assert_loop.raw_induct [OF _ assms, consumes 0])
  case (1 loop rm sm md fr r)
  note IH = "1.IH" [OF _ "1.prems"(1)]
  from "1.hyps" show ?case
    by (rule match_contract.bind_call [OF "1.prems"(1)])
      (use "1.prems"(2,3) in \<open>auto simp: Let_def bind_eq_Some_conv split: if_splits dest!: failed_branch IH
        intro: fr_ok_step step_law_md_ok elim!: alts_law_trans [rotated]\<close>)
qed

lemma assert_not_loop_law:
  assumes "assert_not_loop rm sm md fr = Some r"
  shows "match_contract rm \<Longrightarrow> md_ok md \<Longrightarrow> fr_ok md fr \<Longrightarrow> alts_law md r"
proof (induction rule: assert_not_loop.raw_induct [OF _ assms, consumes 0])
  case (1 loop rm sm md fr r)
  note IH = "1.IH" [OF _ "1.prems"(1)]
  from "1.hyps" show ?case
    by (rule match_contract.bind_call [OF "1.prems"(1)])
      (use "1.prems"(2,3) in \<open>auto simp: Let_def bind_eq_Some_conv split: if_splits dest!: failed_branch IH
        intro: fr_ok_step step_law_md_ok elim!: alts_law_trans [rotated]\<close>)
qed

lemma cbra_loop_law:
  assumes "cbra_loop rm op cl sm md fr = Some r"
  shows "match_contract rm \<Longrightarrow> md_ok md \<Longrightarrow> fr_ok md fr \<Longrightarrow> cbra_law md r"
proof (induction rule: cbra_loop.raw_induct [OF _ assms, consumes 0])
  case (1 loop rm op cl sm md fr r)
  note IH = "1.IH" [OF _ "1.prems"(1)]
  from "1.hyps" show ?case
    by (rule match_contract.bind_call [OF "1.prems"(1)])
      (use "1.prems"(2,3) in \<open>auto simp: Let_def bind_eq_Some_conv split: if_splits dest!: failed_branch IH
        intro: fr_ok_step step_law_md_ok elim!: cbra_law_trans [rotated]\<close>)
qed

lemma brapos_loop_law:
  assumes "brapos_loop rm op start cl once md fr = Some r"
  shows "match_contract rm \<Longrightarrow> md_ok md \<Longrightarrow> fr_ok md fr \<Longrightarrow> pos_law md r"
proof (induction rule: brapos_loop.raw_induct [OF _ assms, consumes 0])
  case (1 loop rm op start cl once md fr r)
  note IH = "1.IH" [OF _ "1.prems"(1)]
  from "1.hyps" show ?case
    by (rule match_contract.bind_call [OF "1.prems"(1)])
      (use "1.prems"(2,3) in \<open>auto simp: Let_def bind_eq_Some_conv split: if_splits dest!: failed_branch IH
        intro: fr_ok_step step_law_md_ok matched_end elim!: pos_law_trans [rotated]\<close>)
qed

lemma set_slot_law: "md_ok md \<Longrightarrow> fr_ok md fr \<Longrightarrow> step_law md (set_ov i (int (eptr fr)) md)"
  by (intro step_law_set_ov) (simp_all add: fr_ok_def)

lemma cbrapos_loop_law:
  assumes "cbrapos_loop rm op n start cl once md fr = Some r"
  shows "match_contract rm \<Longrightarrow> md_ok md \<Longrightarrow> fr_ok md fr \<Longrightarrow> pos_law md r"
proof (induction rule: cbrapos_loop.raw_induct [OF _ assms, consumes 0])
  case (1 loop rm op n start cl once md fr r)
  note IH = "1.IH" [OF _ "1.prems"(1)]
  from "1.hyps" [unfolded Let_def] show ?case
    by (rule match_contract.bind_call [OF "1.prems"(1)])
      (use "1.prems"(2,3) set_slot_law [OF "1.prems"(2,3)] in \<open>auto simp: bind_eq_Some_conv
        split: if_splits dest!: failed_branch IH intro: fr_ok_step step_law_md_ok matched_end
        elim!: pos_law_trans [rotated]\<close>)
qed

lemma bra_loop_law:
  assumes "bra_loop rm op md fr = Some out"
  shows "match_contract rm \<Longrightarrow> md_ok md \<Longrightarrow> fr_ok md fr \<Longrightarrow> out_law md out"
proof (induction rule: bra_loop.raw_induct [OF _ assms, consumes 0])
  case (1 loop rm op md fr out)
  note IH = "1.IH" [OF _ "1.prems"(1)]
  show ?case
  proof (cases "\<not> (op \<ge> OP_SBRA \<or> op = OP_ONCE) \<and> \<not> hasthen md \<and>
      op_at md (ecode fr + link_at md (ecode fr) 1) \<noteq> OP_ALT")
    case True
    with "1.hyps" "1.prems" show ?thesis by auto
  next
    case False
    from "1.hyps" [unfolded if_not_P [OF False] Let_def] show ?thesis
      by (rule match_contract.bind_call [OF "1.prems"(1)])
        (use "1.prems"(2,3) in \<open>auto simp: Let_def bind_eq_Some_conv split: if_splits
          dest!: failed_branch IH intro: fr_ok_step step_law_md_ok elim!: step_out_trans [rotated]\<close>)
  qed
qed

text \<open>A recursion: the slots are put back and the chain is as before.\<close>

lemma restore_recursion_grows:
  assumes "md_ok md" "grows (md\<lparr>recursive := ri # recursive md\<rparr>) md'" "offset_save ri = offset_vector md"
  shows "grows md (restore_recursion ri (recursive md) md')"
proof -
  have g: "grows md md'" using assms(2) by (simp add: grows_def)
  have e: "end_subject md' = end_subject md"
    using consts_ofD(2) [of md' md] g by (simp add: grows_def)
  let ?vs = "take (offset_end md') (offset_vector md) @ drop (offset_end md') (offset_vector md')"
  have "set ?vs \<subseteq> set (offset_vector md) \<union> set (offset_vector md')"
    by (auto dest: in_set_takeD in_set_dropD)
  then have o: "offsets_ok (end_subject md) ?vs"
    using assms(1) g e unfolding grows_def md_ok_def offsets_ok_def by (metis UnE subset_iff)
  have "length ?vs = length (offset_vector md)"
    using g by (auto simp: grows_def min_def)
  then show ?thesis
    using g e o assms(3) by (simp add: restore_recursion_def grows_def md_ok_def subject_ok_def)
qed

lemma restore_recursion_law:
  assumes "ret_law (md\<lparr>recursive := ri # recursive md\<rparr>) rrc md'" "md_ok md" "offset_save ri = offset_vector md"
  shows "ret_law md rrc (restore_recursion ri (recursive md) md')"
  using assms restore_recursion_grows [of md ri md']
  by (simp add: ret_law_def) (simp add: restore_recursion_def)

lemma recursive_again: "step_law md md' \<Longrightarrow> step_law (md\<lparr>recursive := x\<rparr>) (md'\<lparr>recursive := x\<rparr>)"
  by (simp add: step_law_def grows_def)

lemma recursive_back: "step_law md md' \<Longrightarrow> step_law md (md'\<lparr>recursive := y, recursive := recursive md\<rparr>)"
  by (simp add: step_law_def grows_def)

lemma backtrack_step: "-996 \<le> r \<Longrightarrow> r \<le> -992 \<Longrightarrow> ret_law md r md' \<Longrightarrow> step_law md md'"
  by (rule ret_law_imp_step) simp_all

lemma recurse_loop_law:
  assumes "recurse_loop rm cbe ri prevrec callpat md1 fr = Some out"
  shows "match_contract rm \<Longrightarrow> md_ok md \<Longrightarrow> fr_ok md fr \<Longrightarrow> prevrec = recursive md \<Longrightarrow>
    offset_save ri = offset_vector md \<Longrightarrow> step_law (md\<lparr>recursive := ri # recursive md\<rparr>) md1 \<Longrightarrow> out_law md out"
proof (induction rule: recurse_loop.raw_induct [OF _ assms, consumes 0])
  case (1 loop rm cbe ri prevrec callpat md1 fr out)
  let ?md0 = "md\<lparr>recursive := ri # recursive md\<rparr>"
  note IH = "1.IH" [OF _ "1.prems"(1-5)]
  from "1.hyps" show ?case
  proof (rule match_contract.bind_call [OF "1.prems"(1)])
    show "step_law ?md0 (set_cbegroup cbe md1)" using "1.prems"(6) by simp
    show "fr_ok ?md0 (fr\<lparr>ecode := callpat + op_length (op_at md1 callpat)\<rparr>)"
      using "1.prems"(3) by simp
  next
    fix rrc md2
    let ?md3 = "restore_recursion ri prevrec md2"
    assume r: "ret_law ?md0 rrc md2"
      and k: "(let md = ?md3 in
        if rrc = MATCH_MATCH \<or> rrc = MATCH_ACCEPT
        then Some (Cont (fr\<lparr>eptr := end_match_ptr md, mstart := start_match_ptr md\<rparr>) md)
        else if MATCH_BACKTRACK_MIN \<le> rrc \<and> rrc \<le> MATCH_BACKTRACK_MAX then Some (Ret MATCH_NOMATCH md)
        else if rrc \<noteq> MATCH_NOMATCH then Some (Ret rrc md)
        else let md = md\<lparr>recursive := ri # prevrec\<rparr>; callpat = callpat + link_at md callpat 1
          in if op_at md callpat = OP_ALT then loop rm cbe ri prevrec callpat md fr
            else Some (Ret MATCH_NOMATCH (md\<lparr>recursive := prevrec\<rparr>))) = Some out"
    have r3: "ret_law md rrc ?md3"
      using restore_recursion_law [OF r "1.prems"(2,5)] "1.prems"(4) by simp
    consider "rrc = MATCH_MATCH \<or> rrc = MATCH_ACCEPT \<or> MATCH_BACKTRACK_MIN \<le> rrc \<and> rrc \<le> MATCH_BACKTRACK_MAX"
      | "rrc = MATCH_NOMATCH" | "out = Ret rrc ?md3"
      using k by (auto simp: Let_def split: if_splits)
    then show "out_law md out"
    proof cases
      case 1
      then have "step_law md ?md3" using r3 backtrack_step by auto
      then show ?thesis using 1 k matched_end [of md ?md3]
        by (auto simp: Let_def split: if_splits)
    next
      case 2
      with r3 have s: "step_law md ?md3" by simp
      from recursive_again [OF this, of "ri # recursive md"] recursive_back [OF s]
      show ?thesis using k 2 "1.prems"(4)
        by (auto simp: Let_def split: if_splits intro: IH)
    next
      case 3
      with r3 show ?thesis by simp
    qed
  qed
qed

text \<open>The loops of a repeat.\<close>

context item_step
begin

lemma lazy:
  "match_contract rm \<Longrightarrow> md_ok md \<Longrightarrow> fr_ok md fr \<Longrightarrow> rep_lazy rm stp i mx md fr = Some out \<Longrightarrow> out_law md out"
proof (induction "mx - i" arbitrary: i md fr)
  case 0
  from "0.prems"(4) [unfolded rep_lazy.simps [of rm stp i]] show ?case
    by (rule match_contract.bind_call [OF "0.prems"(1)])
      (use 0 in \<open>auto split: if_splits\<close>)
next
  case (Suc n)
  from Suc.prems(4) [unfolded rep_lazy.simps [of rm stp i]] show ?case
  proof (rule match_contract.bind_call [OF Suc.prems(1)])
    fix rrc md'
    assume l: "ret_law md rrc md'" and k: "(if rrc \<noteq> MATCH_NOMATCH then Some (Ret rrc md')
      else if mx \<le> i then Some (Ret MATCH_NOMATCH md')
      else stp md' (eptr fr) \<bind> (\<lambda>r. case r of
          Adv md e \<Rightarrow> rep_lazy rm stp (i + 1) mx md (fr\<lparr>eptr := e\<rparr>)
        | Last md e \<Rightarrow> rep_lazy rm stp (i + 1) mx md (fr\<lparr>eptr := e\<rparr>)
        | Stop md \<Rightarrow> Some (Ret MATCH_NOMATCH md)
        | Quit rrc md \<Rightarrow> Some (Ret rrc md))) = Some out"
    show "out_law md out"
    proof (cases "rrc = MATCH_NOMATCH \<and> i < mx")
      case True
      with l have s: "step_law md md'" by simp
      from k True obtain q where q: "stp md' (eptr fr) = Some q" by (auto simp: bind_eq_Some_conv)
      have e: "eptr fr \<le> end_subject md'" using fr_ok_step [OF s Suc.prems(3)] by (simp add: fr_ok_def)
      note lq = step [OF step_law_md_ok [OF s] e q]
      have go: "out_law md' out" if "step_law md' md2" "e2 \<le> end_subject md'"
        "rep_lazy rm stp (i + 1) mx md2 (fr\<lparr>eptr := e2\<rparr>) = Some out" for md2 e2
        using Suc.hyps(1) [OF _ Suc.prems(1) step_law_md_ok [OF that(1)] _ that(3)] Suc.hyps(2) True
          that(1,2) step_law_end [OF that(1)] by (auto intro: step_out_trans)
      have "out_law md' out"
        using k True q lq go by (cases q) auto
      with s show ?thesis by (rule step_out_trans)
    next
      case False
      with l k show ?thesis by (auto split: if_splits)
    qed
  qed (use Suc.prems in auto)
qed

end

text \<open>Backing off never leaves the subject.\<close>

lemma fr_ok_back: "step_law md md' \<Longrightarrow> fr_ok md fr \<Longrightarrow> e \<le> eptr fr \<Longrightarrow> fr_ok md' (fr\<lparr>eptr := e\<rparr>)"
  using step_law_end [of md md'] by (simp add: fr_ok_def)

lemma back_class_law:
  "match_contract rm \<Longrightarrow> md_ok md \<Longrightarrow> fr_ok md fr \<Longrightarrow> back_class rm pp md fr = Some out \<Longrightarrow> out_law md out"
proof (induction "eptr fr" arbitrary: md fr rule: less_induct)
  case less
  from less.prems(4) [unfolded back_class.simps [of rm pp md]] show ?case
  proof (rule match_contract.bind_try [OF less.prems(1)])
    fix md'
    assume s: "step_law md md'" "md_ok md'"
      and k: "(if eptr fr \<le> pp then Some (Ret MATCH_NOMATCH md')
        else back_class rm pp md' (fr\<lparr>eptr := back_one Back_char md' pp (eptr fr)\<rparr>)) = Some out"
    show "out_law md' out"
    proof (cases "eptr fr \<le> pp")
      case False
      let ?e = "back_one Back_char md' pp (eptr fr)"
      have "?e < eptr fr" using False by (intro back_one_less) simp
      with False k show ?thesis
        using less.hyps [of "fr\<lparr>eptr := ?e\<rparr>" md'] less.prems s fr_ok_back [OF s(1) less.prems(3), of ?e]
        by simp
    qed (use k s in auto)
  qed (use less.prems in auto)
qed

lemma back_tail_law:
  "match_contract rm \<Longrightarrow> md_ok md \<Longrightarrow> fr_ok md fr \<Longrightarrow> back_tail rm m pp md fr = Some out \<Longrightarrow> out_law md out"
proof (induction "eptr fr" arbitrary: md fr rule: less_induct)
  case less
  show ?case
  proof (cases "eptr fr \<le> pp")
    case True
    with less.prems show ?thesis by (subst (asm) back_tail.simps) auto
  next
    case False
    from less.prems(4) [unfolded back_tail.simps [of rm m pp md] if_not_P [OF False]] show ?thesis
    proof (rule match_contract.bind_try [OF less.prems(1)])
      fix md'
      let ?e = "back_one m md' pp (eptr fr)"
      assume s: "step_law md md'" "md_ok md'"
        and k: "back_tail rm m pp md' (fr\<lparr>eptr := ?e\<rparr>) = Some out"
      have "?e < eptr fr" using False by (intro back_one_less) simp
      with k show "out_law md' out"
        using less.hyps [of "fr\<lparr>eptr := ?e\<rparr>" md'] less.prems s fr_ok_back [OF s(1) less.prems(3), of ?e]
        by simp
    qed (use less.prems in auto)
  qed
qed

lemma back_ref_law:
  "match_contract rm \<Longrightarrow> md_ok md \<Longrightarrow> fr_ok md fr \<Longrightarrow> back_ref rm len pp md fr = Some out \<Longrightarrow> out_law md out"
proof (induction "eptr fr" arbitrary: md fr rule: less_induct)
  case less
  from less.prems(4) [unfolded back_ref.simps [of rm len pp md]] show ?case
  proof (rule match_contract.bind_try [OF less.prems(1)])
    fix md'
    let ?e = "eptr fr - len"
    assume s: "step_law md md'" "md_ok md'"
      and k: "(if eptr fr < pp + len \<or> len = 0 then Some (Ret MATCH_NOMATCH md')
        else back_ref rm len pp md' (fr\<lparr>eptr := ?e\<rparr>)) = Some out"
    show "out_law md' out"
      using less.hyps [of "fr\<lparr>eptr := ?e\<rparr>" md'] less.prems s k fr_ok_back [OF s(1) less.prems(3), of ?e]
      by (auto split: if_splits)
  qed (use less.prems in auto)
qed

lemma back_extuni_law:
  "match_contract rm \<Longrightarrow> md_ok md \<Longrightarrow> fr_ok md fr \<Longrightarrow> back_extuni rm pp md fr = Some out \<Longrightarrow> out_law md out"
proof (induction "eptr fr" arbitrary: md fr rule: less_induct)
  case less
  show ?case
  proof (cases "eptr fr \<le> pp")
    case True
    with less.prems show ?thesis by (subst (asm) back_extuni.simps) auto
  next
    case False
    from less.prems(4) [unfolded back_extuni.simps [of rm pp md] if_not_P [OF False] Let_def] show ?thesis
    proof (rule match_contract.bind_try [OF less.prems(1)])
      fix md'
      let ?rgb = "UCD_GRAPHBREAK (ucd md') (char_at md' (prev_char md' (eptr fr)))"
      let ?e = "extuni_back md' pp ?rgb (prev_char md' (eptr fr))"
      assume s: "step_law md md'" "md_ok md'"
        and k: "back_extuni rm pp md' (fr\<lparr>eptr := ?e\<rparr>) = Some out"
      have "?e < eptr fr" using False by (rule extuni_back_less)
      with k show "out_law md' out"
        using less.hyps [of "fr\<lparr>eptr := ?e\<rparr>" md'] less.prems s fr_ok_back [OF s(1) less.prems(3), of ?e]
        by simp
    qed (use less.prems in auto)
  qed
qed

end
