(* ===== verification/ExecMatch.thy ===== *)
theory ExecMatch
  imports ExecContract
begin

text \<open>
  The codes that call the matcher keep the laws, for every matcher that does; then the dispatch,
  the main loop and \<open>match()\<close> itself.
\<close>

subsection \<open>The codes of the groups\<close>

text \<open>The rules for a loop over alternatives and what is done with its result.\<close>

lemma alts_bind:
  assumes "loop \<bind> case_sum (case_prod (\<lambda>rrc md. Some (Ret rrc md))) (case_prod k) = Some out"
    and "\<And>r. loop = Some r \<Longrightarrow> alts_law md r"
    and "\<And>md' fr'. step_law md md' \<Longrightarrow> md_ok md' \<Longrightarrow> fr_ok md' fr' \<Longrightarrow> k md' fr' = Some out \<Longrightarrow> out_law md' out"
  shows "out_law md out"
proof -
  obtain r where r: "loop = Some r"
    "case_sum (case_prod (\<lambda>rrc md. Some (Ret rrc md))) (case_prod k) r = Some out"
    using assms(1) by (auto simp: bind_eq_Some_conv)
  have "out_law md out" if "step_law md md'" "fr_ok md' fr'" "k md' fr' = Some out" for md' fr'
    using step_out_trans [OF that(1) assms(3) [OF that(1) step_law_md_ok [OF that(1)] that(2,3)]] .
  with assms(2) [OF r(1)] r(2) show ?thesis by (cases r) auto
qed

lemma pos_bind:
  assumes "loop \<bind> case_sum (case_prod (\<lambda>rrc md. Some (Ret rrc md))) (case_prod (\<lambda>b. case_prod (k b))) = Some out"
    and "\<And>r. loop = Some r \<Longrightarrow> pos_law md r"
    and "\<And>b md' fr'. step_law md md' \<Longrightarrow> md_ok md' \<Longrightarrow> fr_ok md' fr' \<Longrightarrow> k b md' fr' = Some out \<Longrightarrow> out_law md out"
  shows "out_law md out"
proof -
  obtain r where r: "loop = Some r"
    "case_sum (case_prod (\<lambda>rrc md. Some (Ret rrc md))) (case_prod (\<lambda>b. case_prod (k b))) r = Some out"
    using assms(1) by (auto simp: bind_eq_Some_conv)
  from assms(2) [OF r(1)] r(2) assms(3) show ?thesis
    by (induction md r rule: pos_law.induct) (auto intro: step_law_md_ok)
qed

lemma md_ok_end_match: "md_ok md \<Longrightarrow> end_match_ptr md \<le> end_subject md"
  by (simp add: md_ok_def)

lemma restore_slots_end [simp]:
  "end_subject (restore_slots n save md) = end_subject md"
  "fr_ok (restore_slots n save md) fr = fr_ok md fr"
  by (simp_all add: restore_slots_def fr_ok_def split: prod.split)

context match_contract
begin

lemma once_nc_after_law:
  "md_ok md \<Longrightarrow> fr_ok md fr \<Longrightarrow> once_nc_after rm prev se md fr = Some out \<Longrightarrow> out_law md out"
  unfolding once_nc_after_def
  by (auto split: if_splits elim!: bind_call intro: fr_ok_step)

lemma ONCE_NC_law:
  assumes "md_ok md" "fr_ok md fr" "case_ONCE_NC rm md fr = Some out"
  shows "out_law md out"
  using assms(3) [unfolded case_ONCE_NC_def Let_def]
proof (rule alts_bind)
  show "alts_law md r" if "once_nc_loop rm (mark md) md fr = Some r" for r
    by (rule once_nc_loop_law [OF that match_contract_axioms assms(1,2)])
qed (auto simp: bind_eq_Some_conv md_ok_end_match split: if_splits dest!: once_nc_after_law [rotated 2])

lemma BRA_law: "md_ok md \<Longrightarrow> fr_ok md fr \<Longrightarrow> case_BRA rm md fr = Some out \<Longrightarrow> out_law md out"
  unfolding case_BRA_def by (rule bra_loop_law [OF _ match_contract_axioms])

lemma CBRA_law:
  assumes "md_ok md" "fr_ok md fr" "case_CBRA rm md fr = Some out"
  shows "out_law md out"
proof -
  let ?n = "GET2 (start_code md) (ecode fr) (1 + LINK_SIZE)"
  let ?md = "set_ov (offset_end md - ?n) (int (eptr fr)) md"
  have s: "step_law md ?md" using assms(1,2) by (rule set_slot_law)
  have "out_law md out"
    if c: "cbra_loop rm (op_at md (ecode fr)) (capture_last md) (mark md) ?md fr = Some r"
      and k: "(case r of Inl (rrc, md) \<Rightarrow> Some (Ret rrc md)
        | Inr (rrc, md') \<Rightarrow> Some (Ret rrc (restore_slots ?n (saved_slots ?n md) md'))) = Some out" for r
  proof -
    have "cbra_law md r"
      using cbra_loop_law [OF c match_contract_axioms step_law_md_ok [OF s]] assms(2)
      by (intro cbra_law_trans [OF s]) simp
    with k show ?thesis
      by (cases r) (auto simp del: One_nat_def intro!: step_imp_ret restore_slots_law assms(1))
  qed
  moreover have "out_law md out"
    if "\<not> 2 * ?n < offset_max md"
    using assms that by (intro BRA_law) (simp_all add: case_CBRA_def)
  ultimately show ?thesis
    using assms(3) [unfolded case_CBRA_def Let_def]
    by (cases "2 * ?n < offset_max md") (simp_all only: if_True if_False bind_eq_Some_conv not_False_eq_True simp_thms, blast+)
qed

lemma possessive_non_capture_law:
  assumes "md_ok md" "fr_ok md fr" "possessive_non_capture rm z op md fr = Some out"
  shows "out_law md out"
  using assms(3) [unfolded possessive_non_capture_def Let_def]
proof (rule pos_bind)
  show "pos_law md r" if "brapos_loop rm op (ecode fr) (capture_last md) False md fr = Some r" for r
    by (rule brapos_loop_law [OF that match_contract_axioms assms(1,2)])
qed (auto split: if_splits)

lemma possessive_capture_law:
  assumes "md_ok md" "fr_ok md fr" "possessive_capture rm z op md fr = Some out"
  shows "out_law md out"
proof (cases "2 * GET2 (start_code md) (ecode fr) (1 + LINK_SIZE) \<ge> offset_max md")
  case True
  then have "possessive_non_capture rm z op md fr = Some out"
    using assms(3) by (simp add: possessive_capture_def)
  with assms(1,2) show ?thesis by (rule possessive_non_capture_law)
next
  case False
  from assms(3) [unfolded possessive_capture_def Let_def if_not_P [OF False]] show ?thesis
  proof (rule pos_bind)
    show "pos_law md r" if "cbrapos_loop rm op (GET2 (start_code md) (ecode fr) (1 + LINK_SIZE))
        (ecode fr) (capture_last md) False md fr = Some r" for r
      by (rule cbrapos_loop_law [OF that match_contract_axioms assms(1,2)])
  qed (auto simp del: One_nat_def split: if_splits intro!: restore_slots_law assms(1))
qed

lemma cond_branch_law:
  "md_ok md \<Longrightarrow> fr_ok md fr \<Longrightarrow> cond_branch rm op c md fr = Some out \<Longrightarrow> out_law md out"
  unfolding cond_branch_def
  by (auto split: if_splits elim!: bind_call)

lemma cond_test_law:
  assumes "md_ok md" "fr_ok md fr" "cond_test rm op ec second md fr = Some out"
  shows "out_law md out"
proof (cases "op_at md ec \<in> {OP_RREF, OP_DNRREF, OP_CREF, OP_DNCREF, OP_DEF, OP_FAIL}")
  case True
  with assms(3) have "\<exists>c p. cond_branch rm op c md (fr\<lparr>ecode := p\<rparr>) = Some out"
    unfolding cond_test_def Let_def if_P [OF True] by blast
  with assms(1,2) show ?thesis by (auto dest: cond_branch_law [rotated 2])
next
  case False
  from assms(3) [unfolded cond_test_def Let_def if_not_P [OF False]] show ?thesis
    by (rule bind_call)
      (use assms(1,2) in \<open>auto simp: bind_eq_Some_conv split: if_splits dest!: cond_branch_law [rotated 2]
        intro: fr_ok_step step_law_md_ok elim!: step_out_trans [rotated]\<close>)
qed

lemma COND_law: "md_ok md \<Longrightarrow> fr_ok md fr \<Longrightarrow> case_COND rm md fr = Some out \<Longrightarrow> out_law md out"
  using do_callout_skip [of md fr "ecode fr + 1 + LINK_SIZE"]
  by (auto simp: case_COND_def Let_def step_imp_ret split: if_splits dest: cond_test_law [rotated 2])

lemma ASSERT_law:
  assumes "md_ok md" "fr_ok md fr" "case_ASSERT rm md fr = Some out"
  shows "out_law md out"
proof -
  let ?md = "if match_function_type md = MATCH_CONDASSERT then md\<lparr>match_function_type := 0\<rparr> else md"
  have s: "step_law md ?md" using assms(1) by simp
  from assms(3) [unfolded case_ASSERT_def Let_def] have "out_law ?md out"
  proof (rule alts_bind)
    show "alts_law ?md r" if "assert_loop rm (mark ?md) ?md fr = Some r" for r
      by (rule assert_loop_law [OF that match_contract_axioms step_law_md_ok [OF s] fr_ok_step [OF s assms(2)]])
  qed (auto simp: bind_eq_Some_conv split: if_splits)
  with s show ?thesis by (rule step_out_trans)
qed

lemma ASSERT_NOT_law:
  assumes "md_ok md" "fr_ok md fr" "case_ASSERT_NOT rm md fr = Some out"
  shows "out_law md out"
proof -
  let ?md = "if match_function_type md = MATCH_CONDASSERT then md\<lparr>match_function_type := 0\<rparr> else md"
  have s: "step_law md ?md" using assms(1) by simp
  from assms(3) [unfolded case_ASSERT_NOT_def Let_def] have "out_law ?md out"
  proof (rule alts_bind)
    show "alts_law ?md r" if "assert_not_loop rm (mark ?md) ?md fr = Some r" for r
      by (rule assert_not_loop_law [OF that match_contract_axioms step_law_md_ok [OF s] fr_ok_step [OF s assms(2)]])
  qed (auto split: if_splits)
  with s show ?thesis by (rule step_out_trans)
qed

lemma RECURSE_law:
  assumes "md_ok md" "fr_ok md fr" "case_RECURSE rm md fr = Some out"
  shows "out_law md out"
proof -
  let ?c = "link_at md (ecode fr) 1"
  let ?n = "if ?c = 0 then 0 else GET2 (start_code md) ?c (1 + LINK_SIZE)"
  let ?ri = "\<lparr>group_num = ?n, offset_save = offset_vector md,
    saved_capture_last = capture_last md, subject_position = eptr fr\<rparr>"
  let ?md = "md\<lparr>recursive := ?ri # recursive md\<rparr>"
  let ?l = "list_ex (\<lambda>ri. ?n = group_num ri \<and> eptr fr = subject_position ri) (recursive md)"
  let ?m = "offset_end ?md > 30 \<and> \<not> malloc_ok ?md (offset_end ?md * 4)"
  note code = assms(3) [unfolded case_RECURSE_def Let_def]
  consider "out = Ret PCRE_ERROR_RECURSELOOP md" | "out = Ret PCRE_ERROR_NOMEMORY ?md"
    | "recurse_loop rm (op_at ?md ?c \<ge> OP_SBRA) ?ri (recursive md) ?c ?md (fr\<lparr>ecode := ecode fr + 1 + LINK_SIZE\<rparr>) = Some out"
  proof (cases ?l)
    case True
    from code [unfolded if_P [OF True]] that(1) show ?thesis by simp
  next
    case no_loop: False
    note code = code [unfolded if_not_P [OF no_loop]]
    show ?thesis
    proof (cases ?m)
      case True
      from code [unfolded if_P [OF True]] that(2) show ?thesis by simp
    next
      case False
      from code [unfolded if_not_P [OF False]] show ?thesis by (rule that(3))
    qed
  qed
  then show ?thesis
  proof cases
    case 3
    show ?thesis
      by (rule recurse_loop_law [OF 3 match_contract_axioms assms(1)])
        (use assms(1,2) in \<open>simp_all add: step_law_def grows_def\<close>)
  qed (use assms(1) in \<open>simp_all add: step_imp_ret ret_law_def grows_def\<close>)
qed

lemma BRAZERO_law: "md_ok md \<Longrightarrow> fr_ok md fr \<Longrightarrow> case_BRAZERO rm md fr = Some out \<Longrightarrow> out_law md out"
  unfolding case_BRAZERO_def Let_def
  by (erule bind_try) (auto simp: bind_eq_Some_conv intro: fr_ok_step)

lemma BRAMINZERO_law:
  "md_ok md \<Longrightarrow> fr_ok md fr \<Longrightarrow> case_BRAMINZERO rm md fr = Some out \<Longrightarrow> out_law md out"
  unfolding case_BRAMINZERO_def
  by (auto simp: bind_eq_Some_conv [of "skip_alts _ _"] elim!: bind_call split: if_splits
      intro: fr_ok_step fr_ok_step [of md _ fr])

lemma BRAPOSZERO_law:
  "md_ok md \<Longrightarrow> fr_ok md fr \<Longrightarrow> case_BRAPOSZERO rm md fr = Some out \<Longrightarrow> out_law md out"
  by (auto simp: case_BRAPOSZERO_def Let_def split: if_splits
      dest: possessive_capture_law [rotated 2] possessive_non_capture_law [rotated 2])

end

text \<open>Group ends.\<close>

lemma ket_capture_law:
  assumes "md_ok md" "fr_ok md fr" "ket_capture n md fr = (md', otop)"
  shows "step_law md md'"
proof -
  let ?m = "mark_capture n md"
  let ?u = "if 2 * n > offset_top fr then unset_range (offset_top fr) (2 * n) ?m else ?m"
  have u: "step_law md ?u" using assms(1) by (simp add: unset_range_law)
  have "step_law md (set_ov (2 * n + 1) (int (eptr fr)) (set_ov (2 * n) (ov ?u (offset_end ?u - n)) ?u))"
    using assms(2) ov_law [OF u] u by (intro step_law_set_ov) (simp_all add: fr_ok_def)
  with u assms(1,3) show ?thesis
    by (auto simp: ket_capture_def Let_def split: if_splits)
qed

context match_contract
begin

lemmas bind_here = bind_call [OF _ step_law_refl]

lemma ket_repeat_law:
  assumes "md_ok md" "fr_ok md fr" "ket_repeat rm prev se md fr = Some out"
  shows "out_law md out"
proof -
  let ?after = "fr\<lparr>ecode := ecode fr + 1 + LINK_SIZE\<rparr>"
  have tried: "out_law md' out"
    if "md_ok md'" "fr_ok md' fr" "fr_ok md' fr1"
      "RMATCH rm md' fr1 \<bind> (\<lambda>(rrc, md). Some (if rrc \<noteq> MATCH_NOMATCH then Ret rrc md
         else Ret MATCH_ONCE (md\<lparr>once_target := Some prev\<rparr>))) = Some out" for md' fr1
    using that(4) by (rule bind_call) (use that in \<open>auto split: if_splits\<close>)
  consider "op_at md (ecode fr) = OP_KETRPOS"
    | "op_at md (ecode fr) \<noteq> OP_KETRPOS" "op_at md (ecode fr) = OP_KET \<or> se = Some (eptr fr)"
    | "op_at md (ecode fr) = OP_KETRMIN" "se \<noteq> Some (eptr fr)"
    | "op_at md (ecode fr) \<notin> {OP_KETRPOS, OP_KET, OP_KETRMIN}" "se \<noteq> Some (eptr fr)"
    by auto
  then show ?thesis
  proof cases
    case 1
    have "eptr fr \<le> end_subject md" using assms(2) by (simp add: fr_ok_def)
    with 1 assms show ?thesis by (auto simp: ket_repeat_def Let_def intro!: step_law_end_match)
  next
    case 2
    with assms tried [OF assms(1,2), of ?after] show ?thesis
      by (auto simp: ket_repeat_def Let_def split: if_splits)
  next
    case 3
    then have "RMATCH rm md ?after \<bind> (\<lambda>(rrc, md1). if rrc \<noteq> MATCH_NOMATCH then Some (Ret rrc md1)
      else if op_at md prev = OP_ONCE then RMATCH rm md1 (fr\<lparr>ecode := prev\<rparr>) \<bind> (\<lambda>(rrc, md).
          Some (if rrc \<noteq> MATCH_NOMATCH then Ret rrc md else Ret MATCH_ONCE (md\<lparr>once_target := Some prev\<rparr>)))
      else if op_at md prev \<ge> OP_SBRA then RMATCH rm md1 (fr\<lparr>ecode := prev\<rparr>) \<bind> (\<lambda>(rrc, md). Some (Ret rrc md))
      else Some (Tail (fr\<lparr>ecode := prev\<rparr>) md1)) = Some out"
      using assms(3) by (simp add: ket_repeat_def Let_def)
    then show ?thesis
      by (rule bind_try)
        (use assms(1,2) in \<open>auto split: if_splits intro: fr_ok_step tried elim!: bind_here\<close>)
  next
    case 4
    then have "RMATCH rm md (fr\<lparr>ecode := prev\<rparr>) \<bind> (\<lambda>(rrc, md1).
      let rrc = (if rrc = MATCH_ONCE \<and> once_target md1 = Some prev then MATCH_NOMATCH else rrc) in
      if rrc \<noteq> MATCH_NOMATCH then Some (Ret rrc md1)
      else if op_at md prev = OP_ONCE then RMATCH rm md1 ?after \<bind> (\<lambda>(rrc, md).
        Some (if rrc \<noteq> MATCH_NOMATCH then Ret rrc md else Ret MATCH_ONCE (md\<lparr>once_target := Some prev\<rparr>)))
      else Some (Tail ?after md1)) = Some out"
      using assms(3) by (simp add: ket_repeat_def Let_def cong: if_cong)
    then show ?thesis
    proof (rule bind_call)
      fix rrc md1
      assume l: "ret_law md rrc md1"
        and k: "(let rrc = (if rrc = MATCH_ONCE \<and> once_target md1 = Some prev then MATCH_NOMATCH else rrc) in
          if rrc \<noteq> MATCH_NOMATCH then Some (Ret rrc md1)
          else if op_at md prev = OP_ONCE then RMATCH rm md1 ?after \<bind> (\<lambda>(rrc, md).
            Some (if rrc \<noteq> MATCH_NOMATCH then Ret rrc md else Ret MATCH_ONCE (md\<lparr>once_target := Some prev\<rparr>)))
          else Some (Tail ?after md1)) = Some out"
      show "out_law md out"
      proof (cases "rrc = MATCH_NOMATCH \<or> rrc = MATCH_ONCE \<and> once_target md1 = Some prev")
        case True
        with l have s: "step_law md md1" by auto
        have "out_law md1 out"
          using k True s fr_ok_step [OF s assms(2)] tried [of md1 ?after] step_law_md_ok [OF s]
          by (auto simp: Let_def split: if_splits)
        with s show ?thesis by (rule step_out_trans)
      next
        case False
        with l k show ?thesis by (auto simp: Let_def split: if_splits)
      qed
    qed (use assms in auto)
  qed
qed

lemma ket_body_law:
  assumes "md_ok md" "fr_ok md fr" "ket_body rm prev se md fr = Some out"
  shows "out_law md out"
proof -
  let ?n = "GET2 (start_code md) prev (1 + LINK_SIZE)"
  obtain md' otop where c: "ket_capture ?n md fr = (md', otop)" by fastforce
  note s = ket_capture_law [OF assms(1,2) c]
  have e: "eptr fr \<le> end_subject md" using assms(2) by (simp add: fr_ok_def)
  have "ket_repeat rm prev se md' (fr\<lparr>offset_top := otop\<rparr>) = Some out \<Longrightarrow> out_law md' out"
    using step_law_md_ok [OF s] fr_ok_step [OF s assms(2)] by (auto dest: ket_repeat_law [rotated 2])
  with s have r: "ket_repeat rm prev se md' (fr\<lparr>offset_top := otop\<rparr>) = Some out \<Longrightarrow> out_law md out"
    by (auto intro: step_out_trans)
  show ?thesis
    using assms(3) [unfolded ket_body_def Let_def c prod.case] ket_repeat_law [OF assms(1,2)] r e assms(1)
    by (auto simp only: option.inject out_law.simps split: if_split_asm) simp_all
qed

lemma KET_law: "md_ok md \<Longrightarrow> fr_ok md fr \<Longrightarrow> case_KET rm md fr = Some out \<Longrightarrow> out_law md out"
  by (auto simp: case_KET_def Let_def split: if_splits list.splits dest: ket_body_law [rotated 2])

end

subsection \<open>The codes of the repeats\<close>

lemma run_bind:
  assumes "loop \<bind> case_sum Some (case_prod k) = Some out"
    and "\<And>r. loop = Some r \<Longrightarrow> run_law md r"
    and "\<And>md' e. step_law md md' \<Longrightarrow> md_ok md' \<Longrightarrow> e \<le> end_subject md' \<Longrightarrow> k md' e = Some out \<Longrightarrow> out_law md' out"
  shows "out_law md out"
proof -
  obtain r where r: "loop = Some r" "case_sum Some (case_prod k) r = Some out"
    using assms(1) by (auto simp: bind_eq_Some_conv)
  have "out_law md out" if "step_law md md'" "e \<le> end_subject md" "k md' e = Some out" for md' e
    using step_out_trans [OF that(1) assms(3) [OF that(1) step_law_md_ok [OF that(1)] _ that(3)]]
      step_law_end [OF that(1)] that(2) by simp
  with assms(2) [OF r(1)] r(2) show ?thesis by (cases r) auto
qed

context item_step
begin

lemma repeat_item_law:
  assumes "match_contract rm" "md_ok md" "fr_ok md fr"
    and bk: "\<And>e md fr out. md_ok md \<Longrightarrow> fr_ok md fr \<Longrightarrow> back e md fr = Some out \<Longrightarrow> out_law md out"
    and "repeat_item rm stp back possessive minimize mn mx md fr = Some out"
  shows "out_law md out"
  using assms(5) [unfolded repeat_item_def]
proof (rule run_bind)
  show "run_law md r" if "rep_min_loop stp mn md (eptr fr) = Some r" for r
    using assms(2,3) that by (intro min_loop [of md "eptr fr"]) (simp_all add: fr_ok_def)
next
  fix md1 e
  assume m: "step_law md md1" "md_ok md1" "e \<le> end_subject md1"
    and k: "(let fr = fr\<lparr>eptr := e\<rparr> in
      if mn = mx then Some (Cont fr md1)
      else if minimize then rep_lazy rm stp mn mx md1 fr
      else do {
        r \<leftarrow> rep_greedy stp mn mx md1 e;
        (case r of
           Inl out \<Rightarrow> Some out
         | Inr (md, e') \<Rightarrow>
             let fr = fr\<lparr>eptr := e'\<rparr> in
             if possessive then Some (Cont fr md) else back e md fr) }) = Some out"
  have fr: "fr_ok md1 (fr\<lparr>eptr := e\<rparr>)" using m by simp
  have lz: "rep_lazy rm stp mn mx md1 (fr\<lparr>eptr := e\<rparr>) = Some out \<Longrightarrow> out_law md1 out"
    by (rule lazy [OF assms(1) m(2) fr])
  have gr: "out_law md1 out"
    if "rep_greedy stp mn mx md1 e \<bind> case_sum Some (case_prod (\<lambda>md e'.
      if possessive then Some (Cont (fr\<lparr>eptr := e'\<rparr>) md)
      else back e md (fr\<lparr>eptr := e'\<rparr>))) = Some out"
    using that
  proof (rule run_bind)
    show "run_law md1 r" if "rep_greedy stp mn mx md1 e = Some r" for r
      by (rule greedy [OF m(2,3) that])
  qed (auto split: if_splits dest: bk [rotated 2])
  show "out_law md1 out"
    using k m fr lz gr by (auto simp: Let_def split: if_splits)
qed

end

text \<open>The minimum, then a minimizing or a maximizing loop, as each kind of item writes it.\<close>

lemma after_run_law:
  assumes "md_ok md" "run_law md r" "after_run bk possessive fr r = Some out"
    and "\<And>md fr. md_ok md \<Longrightarrow> fr_ok md fr \<Longrightarrow> bk md fr = Some out \<Longrightarrow> out_law md out"
  shows "out_law md out"
proof -
  have "after_run bk possessive fr r = Some r \<bind> case_sum Some (case_prod (\<lambda>md e.
      if possessive then Some (Cont (fr\<lparr>eptr := e\<rparr>) md) else bk md (fr\<lparr>eptr := e\<rparr>)))"
    by (simp add: after_run_def split: sum.split)
  with assms(3) have "Some r \<bind> case_sum Some (case_prod (\<lambda>md e.
      if possessive then Some (Cont (fr\<lparr>eptr := e\<rparr>) md) else bk md (fr\<lparr>eptr := e\<rparr>))) = Some out"
    by simp
  then show ?thesis
    by (rule run_bind) (use assms(2) in \<open>auto split: if_splits dest: assms(4) [rotated 2]\<close>)
qed

context match_contract
begin

lemmas back_laws =
  back_class_law [OF match_contract_axioms] back_tail_law [OF match_contract_axioms]
  back_ref_law [OF match_contract_axioms] back_extuni_law [OF match_contract_axioms]

lemma repeat_prop_law:
  assumes "md_ok md" "fr_ok md fr" "repeat_prop rm pt pv fl po mi mn mx md fr = Some out"
  shows "out_law md out"
  using assms(3) [unfolded repeat_prop_def]
proof (rule run_bind)
  show "run_law md r" if "(if mn > 0 \<and> pt > PT_UCNC then Some (Inl (Ret PCRE_ERROR_INTERNAL md))
      else rep_min_loop (prop_step_min pt pv fl) mn md (eptr fr)) = Some r" for r
    using that assms(1,2) prop_min_item.min_loop [of md "eptr fr"]
    by (auto simp: fr_ok_def split: if_splits)
next
  fix md1 e
  assume m: "step_law md md1" "md_ok md1" "e \<le> end_subject md1"
    and k: "(let fr = fr\<lparr>eptr := e\<rparr> in
      if mn = mx then Some (Cont fr md1)
      else if pt > PT_UCNC then Some (Ret PCRE_ERROR_INTERNAL md1)
      else if mi then rep_lazy rm (prop_step pt pv fl) mn mx md1 fr
      else do {
        r \<leftarrow> rep_greedy (prop_step pt pv fl) mn mx md1 e;
        after_run (back_tail rm Back_char e) po fr r }) = Some out"
  have fr: "fr_ok md1 (fr\<lparr>eptr := e\<rparr>)" using m by simp
  show "out_law md1 out"
    using k m fr prop_item.lazy [OF match_contract_axioms m(2) fr]
      after_run_law [OF m(2) prop_item.greedy [OF m(2,3)]] back_laws(2)
    by (auto simp: Let_def bind_eq_Some_conv split: if_splits)
qed

lemma repeat_extuni_law:
  assumes "md_ok md" "fr_ok md fr" "repeat_extuni rm po mi mn mx md fr = Some out"
  shows "out_law md out"
  using assms(3) [unfolded repeat_extuni_def]
proof (rule run_bind)
  show "run_law md r" if "rep_min_loop extuni_step mn md (eptr fr) = Some r" for r
    using that assms(1,2) extuni_item.min_loop [of md "eptr fr"] by (auto simp: fr_ok_def)
next
  fix md1 e
  assume m: "step_law md md1" "md_ok md1" "e \<le> end_subject md1"
    and k: "(let fr = fr\<lparr>eptr := e\<rparr> in
      if mn = mx then Some (Cont fr md1)
      else if mi then rep_lazy rm extuni_step mn mx md1 fr
      else do {
        r \<leftarrow> rep_greedy extuni_step mn mx md1 e;
        after_run (back_extuni rm e) po fr r }) = Some out"
  have fr: "fr_ok md1 (fr\<lparr>eptr := e\<rparr>)" using m by simp
  show "out_law md1 out"
    using k m fr extuni_item.lazy [OF match_contract_axioms m(2) fr]
      after_run_law [OF m(2) extuni_item.greedy [OF m(2,3)]] back_laws(4)
    by (auto simp: Let_def bind_eq_Some_conv split: if_splits)
qed

lemma repeat_type_law:
  assumes "md_ok md" "fr_ok md fr" "repeat_type rm ctype po mi mn mx md fr = Some out"
  shows "out_law md out"
  using assms(3) [unfolded repeat_type_def]
proof (rule run_bind)
  show "run_law md r" if "type_min ctype mn md (eptr fr) = Some r" for r
    using that assms(1,2) by (auto simp: fr_ok_def intro: type_min_law)
next
  fix md1 e
  assume m: "step_law md md1" "md_ok md1" "e \<le> end_subject md1"
    and k: "(let fr = fr\<lparr>eptr := e\<rparr> in
      if mn = mx then Some (Cont fr md1)
      else if mi then rep_lazy rm (type_step_lazy ctype) mn mx md1 fr
      else do {
        r \<leftarrow> type_max ctype mn mx md1 e;
        after_run (back_tail rm (if ctype = OP_ANYNL then Back_newline else Back_char) e) po fr r })
      = Some out"
  have fr: "fr_ok md1 (fr\<lparr>eptr := e\<rparr>)" using m by simp
  show "out_law md1 out"
    using k m fr type_lazy_item.lazy [OF match_contract_axioms m(2) fr]
      after_run_law [OF m(2) type_max_law [OF m(2,3)]] back_laws(2)
    by (auto simp: Let_def bind_eq_Some_conv split: if_splits)
qed

lemma REPEATTYPE_law:
  "md_ok md \<Longrightarrow> fr_ok md fr \<Longrightarrow> case_REPEATTYPE rm md fr = Some out \<Longrightarrow> out_law md out"
  unfolding case_REPEATTYPE_def Let_def split_beta
  by (simp only: split: if_split_asm)
    (auto dest: repeat_prop_law [rotated 2] repeat_extuni_law [rotated 2] repeat_type_law [rotated 2])

lemma CLASS_law: "md_ok md \<Longrightarrow> fr_ok md fr \<Longrightarrow> case_CLASS rm md fr = Some out \<Longrightarrow> out_law md out"
  unfolding case_CLASS_def Let_def split_beta
  by (rule char_item.repeat_item_law [OF match_contract_axioms _ _ back_laws(1)]) auto

lemma XCLASS_law: "md_ok md \<Longrightarrow> fr_ok md fr \<Longrightarrow> case_XCLASS rm md fr = Some out \<Longrightarrow> out_law md out"
  unfolding case_XCLASS_def Let_def split_beta
  by (rule char_item.repeat_item_law [OF match_contract_axioms _ _ back_laws(1)]) auto

lemma REPEATNOT_law: "md_ok md \<Longrightarrow> fr_ok md fr \<Longrightarrow> case_REPEATNOT rm md fr = Some out \<Longrightarrow> out_law md out"
  unfolding case_REPEATNOT_def Let_def split_beta
  by (rule char_item.repeat_item_law [OF match_contract_axioms _ _ back_laws(2)]) auto

lemma char_items_law:
  "md_ok md \<Longrightarrow> fr_ok md fr \<Longrightarrow>
     repeat_item rm (multibyte_step p n occ) (back_tail rm m) po mi mn mx md fr = Some out \<Longrightarrow> out_law md out"
  "md_ok md \<Longrightarrow> fr_ok md fr \<Longrightarrow>
     repeat_item rm (byte_step t) (back_tail rm m) po mi mn mx md fr = Some out \<Longrightarrow> out_law md out"
  by (rule multibyte_item.repeat_item_law [OF match_contract_axioms _ _ back_laws(2)]
      byte_item.repeat_item_law [OF match_contract_axioms _ _ back_laws(2)]; auto)+

lemma REPEATCHAR_law: "md_ok md \<Longrightarrow> fr_ok md fr \<Longrightarrow> case_REPEATCHAR rm md fr = Some out \<Longrightarrow> out_law md out"
  unfolding case_REPEATCHAR_def Let_def split_beta
  by (simp only: split: if_split_asm) (auto dest: char_items_law [rotated 2])

text \<open>Back references.\<close>

lemma ref_once_law: "md_ok md \<Longrightarrow> fr_ok md fr \<Longrightarrow> out_law md (ref_once offset len ci md fr)"
  by (auto simp: ref_once_def fr_ok_def split: sum.split dest: match_ref_bound)

lemma ref_repeat_law:
  assumes "md_ok md" "fr_ok md fr" "ref_repeat rm offset len ci md fr = Some out"
  shows "out_law md out"
proof (cases "if op_at md (ecode fr) \<in> {OP_CRPOSSTAR, OP_CRPOSPLUS, OP_CRPOSQUERY, OP_CRPOSRANGE} then None
    else cr_quantifier md (ecode fr)")
  case None
  with assms(3) have "out = ref_once offset len ci md fr" by (simp add: ref_repeat_def)
  with assms(1,2) show ?thesis by (simp add: ref_once_law)
next
  case (Some q)
  obtain po mi mn mx ec where q: "q = (po, mi, mn, mx, ec)" by (cases q)
  let ?fr = "fr\<lparr>ecode := ec\<rparr>"
  note code = assms(3) [unfolded ref_repeat_def Some q option.case prod.case Let_def]
  show ?thesis
  proof (cases "len = 0 \<or> len < 0 \<and> mn = 0")
    case True
    with code assms(1,2) show ?thesis by auto
  next
    case False
    from code [unfolded if_not_P [OF False]] show ?thesis
    proof (rule run_bind)
      show "run_law md r" if "rep_min_loop (ref_step offset len ci) mn md (eptr ?fr) = Some r" for r
        using that assms(1,2) ref_item.min_loop [of md "eptr fr"] by (auto simp: fr_ok_def)
    next
      fix md1 e
      assume m: "step_law md md1" "md_ok md1" "e \<le> end_subject md1"
        and k: "(if mn = mx then Some (Cont (?fr\<lparr>eptr := e\<rparr>) md1)
          else if mi then rep_lazy rm (ref_step offset len ci) mn mx md1 (?fr\<lparr>eptr := e\<rparr>)
          else do {
            r \<leftarrow> rep_greedy (ref_step_max offset len ci) mn mx md1 e;
            (case r of
               Inl out \<Rightarrow> Some out
             | Inr (md, e') \<Rightarrow> back_ref rm (nat len) e md (?fr\<lparr>eptr := e, eptr := e'\<rparr>)) }) = Some out"
      have fr: "fr_ok md1 (?fr\<lparr>eptr := e\<rparr>)" using m by simp
      have gr: "out_law md1 out"
        if "rep_greedy (ref_step_max offset len ci) mn mx md1 e \<bind> case_sum Some (case_prod (\<lambda>md e'.
          back_ref rm (nat len) e md (?fr\<lparr>eptr := e, eptr := e'\<rparr>))) = Some out"
        using that
      proof (rule run_bind)
        show "run_law md1 r" if "rep_greedy (ref_step_max offset len ci) mn mx md1 e = Some r" for r
          by (rule ref_max_item.greedy [OF m(2,3) that])
      qed (auto dest: back_laws(3) [rotated 2])
      show "out_law md1 out"
      proof (cases "mn = mx \<or> mi")
        case True
        with k m fr ref_item.lazy [OF match_contract_axioms m(2) fr] show ?thesis
          by (auto split: if_splits)
      next
        case False
        then have neg: "\<not> mn = mx" "\<not> mi" by simp_all
        from k [unfolded if_not_P [OF neg(1)] if_not_P [OF neg(2)]] show ?thesis by (rule gr)
      qed
    qed
  qed
qed

lemma REF_law: "md_ok md \<Longrightarrow> fr_ok md fr \<Longrightarrow> case_REF rm md fr = Some out \<Longrightarrow> out_law md out"
  unfolding case_REF_def Let_def by (erule ref_repeat_law [rotated 2]) auto

lemma DNREF_law: "md_ok md \<Longrightarrow> fr_ok md fr \<Longrightarrow> case_DNREF rm md fr = Some out \<Longrightarrow> out_law md out"
  unfolding case_DNREF_def Let_def split_beta by (erule ref_repeat_law [rotated 2]) auto

text \<open>The dispatch.\<close>

lemmas case_laws =
  MARK_law COMMIT_law PRUNE_law PRUNE_ARG_law SKIP_law THEN_law THEN_ARG_law ONCE_NC_law
  CBRA_law BRA_law possessive_capture_law possessive_non_capture_law COND_law case_CLOSE_law
  case_END_law ASSERT_law ASSERT_NOT_law case_REVERSE_law case_CALLOUT_law RECURSE_law case_ALT_law
  BRAZERO_law BRAMINZERO_law case_SKIPZERO_law BRAPOSZERO_law KET_law case_CIRC_law case_SOD_law
  case_CIRCM_law case_SOM_law case_SET_SOM_law case_DOLLM_law case_DOLL_law case_EOD_law case_EODN_law
  case_WORD_BOUNDARY_law case_ANY_law case_ALLANY_law case_ANYBYTE_law case_TYPE_law case_ANYNL_law
  case_HVSPACE_law case_PROP_law case_EXTUNI_law DNREF_law REF_law CLASS_law XCLASS_law case_CHAR_law
  case_CHARI_law REPEATCHAR_law case_NOT_law REPEATNOT_law REPEATTYPE_law

lemma step_out:
  assumes "md_ok md" "fr_ok md fr" "step rm md fr = Some out"
  shows "out_law md out"
proof -
  have i: "out_law md (Ret MATCH_NOMATCH md)" "out_law md (Ret PCRE_ERROR_UNKNOWN_OPCODE md)"
    using assms(1) by (simp_all add: step_imp_ret)
  note laws = case_laws [OF assms(1,2)] SKIP_ARG_law [OF may_skip_arg_at assms(1,2)]
  show ?thesis
    using assms(3) unfolding step_def Let_def
    by (simp only: split: if_split_asm) (blast intro: laws i)+
qed

end

text \<open>Entering a call or a tail recursion.\<close>

lemma enter_law:
  assumes "md_ok md" "fr_ok md fr"
  shows "out_law md (enter md fr)"
proof -
  let ?m = "md\<lparr>match_call_count := match_call_count md + 1\<rparr>"
  have g: "grows md ?m" using assms(1) by (simp add: grows_def)
  have s: "step_law md ?m" if "match_call_count md < match_limit md"
    using g that by (simp add: step_law_def)
  have r: "ret_law md PCRE_ERROR_MATCHLIMIT ?m"
    using g by (auto simp: ret_law_def)
  show ?thesis
    using s r assms by (auto simp: enter_def Let_def fr_ok_def ret_law_step)
qed

lemma match_loop_law:
  assumes "match_loop rm entering md fr = Some r"
  shows "match_contract rm \<Longrightarrow> md_ok md \<Longrightarrow> fr_ok md fr \<Longrightarrow> ret_law md (fst r) (snd r)"
proof (induction rule: match_loop.raw_induct [OF _ assms, consumes 0])
  case (1 loop rm entering md fr r)
  obtain out where o: "(if entering then Some (enter md fr) else step rm md fr) = Some out"
    using "1.hyps" by (auto simp: bind_eq_Some_conv)
  have l: "out_law md out"
    using o enter_law [OF "1.prems"(2,3)] match_contract.step_out [OF "1.prems"]
    by (auto split: if_splits)
  have go: "ret_law md (fst r) (snd r)" if "step_law md md'" "fr_ok md' fr'" "loop rm en md' fr' = Some r"
    for en md' fr'
    using "1.IH" [OF that(3) "1.prems"(1) step_law_md_ok [OF that(1)] that(2)]
    by (rule step_ret_trans [OF that(1)])
  show ?case
    using "1.hyps" o l by (cases out) (auto intro: go)
qed

text \<open>The interpretation: every \<open>match_at\<close> is such a matcher.\<close>

lemma match_contract_match_at: "match_contract (match_at d)"
proof (induction d)
  case 0
  have "match_contract (\<lambda>_ _. None)" by unfold_locales simp
  then show ?case by unfold_locales (auto dest: match_loop_law)
next
  case (Suc d)
  then show ?case by unfold_locales (auto dest: match_loop_law)
qed

interpretation match_at: match_contract "match_at d" for d
  by (rule match_contract_match_at)

interpretation matcher: match_contract match
  by unfold_locales (auto simp: match_def intro: match_at.law)

end
