(* ===== verification/ExecProperties.thy ===== *)
theory ExecProperties
  imports ExecMatch
begin

text \<open>
  What \<open>match()\<close> promises its caller, from the contract: the bound on the number of calls, the
  bound on the depth of the recursion, what stays inside the subject, and what is not changed.
  A small example run, evaluated in the kernel, is the witness for the hypotheses.
\<close>

subsection \<open>An example run\<close>

text \<open>A match block as \<open>pcre_exec()\<close> sets it up, with room for one group and small limits.\<close>

definition example_md :: "byte list \<Rightarrow> byte list \<Rightarrow> match_data" where
  "example_md code subj =
    \<lparr>nltype = NLTYPE_FIXED, nllen = 1, nl = [10], match_call_count = 0, match_limit = 30,
     match_limit_recursion = 20, offset_vector = [-1, -1, -1, -1, -1, -1], offset_end = 6,
     offset_max = 4, name_entry_size = 0, skip_arg_count = 0, ignore_skip_arg = 0, name_table = [],
     lcc = [], fcc = [], ctypes = [], notbol = False, noteol = False, utf = False,
     jscript_compat = False, use_ucp = False, endonly = False, notempty = False,
     notempty_atstart = False, hitend = False, bsr_anycrlf = False, hasthen = False,
     start_code = code, start_subject = subj, end_subject = length subj, start_match_ptr = 0,
     end_match_ptr = 0, start_used_ptr = 0, partial = 0, end_offset_top = 0, capture_last = 0,
     start_offset = 0, match_function_type = 0, recursive = [], callout_data = 0, mark = None,
     nomatch_mark = None, once_target = None, callout = None, malloc_ok = (\<lambda>_. True),
     ucd = \<lparr>ucd_stage1 = [], ucd_stage2 = [], ucd_records = [], ucd_caseless_sets = []\<rparr>\<rparr>"

definition example_fr :: frame where
  "example_fr = \<lparr>eptr = 0, ecode = 0, mstart = 0, offset_top = 2, eptrb = [], rdepth = 0\<rparr>"

text \<open>The compiled form of \<open>(a)b\<close>.\<close>

definition example_code :: "byte list" where
  "example_code = [131, 0, 15, 133, 0, 7, 0, 1, 29, 97, 120, 0, 7, 29, 98, 120, 0, 15, 0]"

lemma match_at_numeral:
  "match_at (numeral k) md fr = match_loop (match_at (pred_numeral k)) True md fr"
  by (simp add: numeral_eq_Suc)

lemmas match_eval =
  match_def match_at_numeral enter_def step_def Let_def op_at_def opc_def rd_def nth_default_def
  match_loop.simps case_BRA_def bra_loop.simps case_CBRA_def cbra_loop.simps RMATCH_def after_op_def
  set_cbegroup_def op_length_def OP_lengths_def link_at_def GET_eq GET2_GET saved_slots_def
  restore_slots_def ov_def set_ov_def case_CHAR_def case_KET_def ket_body_def ket_repeat_def
  ket_capture_def mark_capture_def case_END_def then_in_branch_def recursing_into_def

definition example_end :: match_data where
  "example_end = (example_md example_code [97, 98])
    \<lparr>match_call_count := 3, offset_vector := [-1, -1, 0, 1, -1, 0], end_match_ptr := 2,
     end_offset_top := 4, capture_last := 1\<rparr>"

lemma example_run:
  "match (example_md example_code [97, 98]) example_fr = Some (MATCH_MATCH, example_end)"
  by (simp add: match_eval example_md_def example_fr_def example_code_def example_end_def)

lemma example_ok: "md_ok (example_md example_code [97, 98])" "fr_ok (example_md example_code [97, 98]) example_fr"
  by (simp_all add: example_md_def example_fr_def md_ok_def subject_ok_def fr_ok_def offsets_ok_def)

lemma example_law: "ret_law (example_md example_code [97, 98]) MATCH_MATCH example_end"
  by (rule matcher.law [OF example_ok example_run])

subsection \<open>Bounds\<close>

text \<open>
  C5: The limit on calls holds: a match that starts within \<open>match_limit\<close> makes at most one call
  more than it, and if it makes that call the result is \<open>PCRE_ERROR_MATCHLIMIT\<close>.
\<close>

theorem match_limit_bounds_calls:
  assumes "md_ok md" "fr_ok md fr" "match_call_count md \<le> match_limit md"
    and "match md fr = Some (rrc, md')"
  shows "match_call_count md' \<le> match_limit md + 1 \<and>
    (match_call_count md' = match_limit md + 1 \<longrightarrow> rrc = PCRE_ERROR_MATCHLIMIT)"
  using matcher.law [OF assms(1,2,4)] assms(3) by (auto simp: ret_law_def)

theorem match_limit_bounds_calls_witness:
  "match_call_count example_end \<le> 30 + 1"
  using match_limit_bounds_calls [OF example_ok _ example_run] by (simp add: example_md_def)

lemma match_loop_counts:
  assumes "match_contract rm" "md_ok md" "fr_ok md fr" "match_loop rm True md fr = Some (rrc, md')"
  shows "match_call_count md < match_call_count md'"
proof -
  let ?m = "md\<lparr>match_call_count := match_call_count md + 1\<rparr>"
  have ok: "md_ok ?m" "fr_ok ?m fr" using assms(2,3) by simp_all
  have "(\<exists>r. enter md fr = Ret r ?m) \<or> enter md fr = Cont fr ?m \<or>
      enter md fr = Cont (fr\<lparr>eptrb := eptr fr # eptrb fr\<rparr>) (?m\<lparr>match_function_type := 0\<rparr>)"
    by (simp add: enter_def Let_def)
  then consider r where "enter md fr = Ret r ?m"
    | "enter md fr = Cont fr ?m"
    | "enter md fr = Cont (fr\<lparr>eptrb := eptr fr # eptrb fr\<rparr>) (?m\<lparr>match_function_type := 0\<rparr>)"
    by blast
  then show ?thesis
  proof cases
    case 1
    with assms(4) show ?thesis by (auto simp: match_loop.simps)
  next
    case 2
    with assms(4) have "match_loop rm False ?m fr = Some (rrc, md')"
      by (subst (asm) match_loop.simps) simp
    from match_loop_law [OF this assms(1) ok] show ?thesis by (simp add: ret_law_def grows_def)
  next
    case 3
    with assms(4) have "match_loop rm False (?m\<lparr>match_function_type := 0\<rparr>)
      (fr\<lparr>eptrb := eptr fr # eptrb fr\<rparr>) = Some (rrc, md')"
      by (subst (asm) match_loop.simps) simp
    from match_loop_law [OF this assms(1)] ok show ?thesis by (simp add: ret_law_def grows_def)
  qed
qed

text \<open>
  Every call is counted: \<open>match()\<close> never returns with the call count it was entered with, so a
  loop of the matcher over calls meets the limit.
\<close>

theorem match_counts_every_call:
  assumes "md_ok md" "fr_ok md fr" "match md fr = Some (rrc, md')"
  shows "match_call_count md < match_call_count md'"
proof (cases "match_limit_recursion md - rdepth fr")
  case 0
  have "match_contract (\<lambda>_ _. None)" by unfold_locales simp
  from match_loop_counts [OF this assms(1,2)] assms(3) 0 show ?thesis by (simp add: match_def)
next
  case (Suc d)
  from match_loop_counts [OF match_contract_match_at assms(1,2)] assms(3) Suc show ?thesis
    by (simp add: match_def)
qed

theorem match_counts_every_call_witness:
  "match_call_count (example_md example_code [97, 98]) < match_call_count example_end"
  using match_counts_every_call [OF example_ok example_run] .



subsection \<open>Safety\<close>

text \<open>
  C6: The matcher stays inside the subject: the end of the match and every captured offset is a
  position in the subject or its end, or the offset is still unset.
\<close>

theorem match_stays_in_subject:
  assumes "md_ok md" "fr_ok md fr" "match md fr = Some (rrc, md')"
  shows "end_match_ptr md' \<le> length (start_subject md) \<and>
    (\<forall>v \<in> set (offset_vector md'). -1 \<le> v \<and> v \<le> int (length (start_subject md)))"
proof -
  have l: "ret_law md rrc md'" using matcher.law [OF assms] .
  then have "md_ok md'" "end_subject md' = end_subject md" by (auto dest: ret_law_md_ok ret_law_end)
  with assms(1) show ?thesis by (auto simp: md_ok_def subject_ok_def offsets_ok_def)
qed

theorem match_stays_in_subject_witness:
  "end_match_ptr example_end \<le> 2 \<and> list_all (\<lambda>v. -1 \<le> v \<and> v \<le> 2) (offset_vector example_end)"
  using match_stays_in_subject [OF example_ok example_run] by (simp add: example_md_def list_all_iff)

text \<open>
  C7: Nothing but the bookkeeping fields is changed: the pattern, the subject, the limits, the options
  and the tables are as before, and the chain of active recursions is put back on every return
  but the one for a failed allocation.
\<close>

theorem match_restores_recursion:
  assumes "md_ok md" "fr_ok md fr" "match md fr = Some (rrc, md')"
  shows "consts_of md' = consts_of md \<and> length (offset_vector md') = length (offset_vector md) \<and>
    (rrc = PCRE_ERROR_NOMEMORY \<or> recursive md' = recursive md)"
  using matcher.law [OF assms] by (auto simp: ret_law_def grows_def)

theorem match_restores_recursion_witness:
  "consts_of example_end = consts_of (example_md example_code [97, 98]) \<and>
   length (offset_vector example_end) = 6 \<and> recursive example_end = []"
  using match_restores_recursion [OF example_ok example_run] by (simp add: example_md_def)

text \<open>
  C9: For partial matching the matcher remembers what it inspected: the earliest inspected position
  only moves back, the flag that the end of the subject was hit is only ever set, and it is not
  set when partial matching was not asked for.
\<close>

theorem match_partial_flags:
  assumes "md_ok md" "fr_ok md fr" "match md fr = Some (rrc, md')"
  shows "start_used_ptr md' \<le> start_used_ptr md \<and> (hitend md \<longrightarrow> hitend md') \<and>
    (partial md = 0 \<longrightarrow> hitend md' = hitend md)"
  using matcher.law [OF assms] by (auto simp: ret_law_def grows_def)

theorem match_partial_flags_witness:
  "start_used_ptr example_end \<le> 0 \<and>
   hitend example_end = hitend (example_md example_code [97, 98])"
  using match_partial_flags [OF example_ok example_run] by (simp add: example_md_def)

end
