(* ===== verification/CodeTyping.thy ===== *)
theory CodeTyping
  imports Exec
begin

text \<open>
  When compiled code is fit to be run: an assignment of a number to every position that the matcher
  may reach, in the manner of a bytecode verifier. The number is how many saved subject pointers
  (the chain \<open>eptrb\<close>) the code from there on takes up at the ends of its groups. The conditions
  are local to each opcode and executable. They are what \<open>match()\<close> relies on without a check:
  that it never runs off the code, that the links lead to the ends of the groups, and that the
  chain is not empty at the end of a group that takes a pointer from it.
\<close>

subsection \<open>Positions and flows\<close>

type_synonym typing = "nat option list"

definition depth_at :: "typing \<Rightarrow> nat \<Rightarrow> nat option" where
  "depth_at T p = (if p < length T then T ! p else None)"

text \<open>Code at \<open>q\<close> may be run with a chain of \<open>d\<close> pointers.\<close>

definition flows :: "typing \<Rightarrow> nat \<Rightarrow> nat \<Rightarrow> bool" where
  "flows T d q \<longleftrightarrow> (case depth_at T q of None \<Rightarrow> False | Some d' \<Rightarrow> d' \<le> d)"

definition is_ket :: "nat \<Rightarrow> bool" where
  "is_ket op \<longleftrightarrow> OP_KET \<le> op \<and> op \<le> OP_KETRPOS"

text \<open>The alternatives of the group at \<open>q\<close> satisfy \<open>P\<close> and its end satisfies \<open>K\<close>.\<close>

function alts_ok :: "(nat \<Rightarrow> bool) \<Rightarrow> (nat \<Rightarrow> bool) \<Rightarrow> byte list \<Rightarrow> nat \<Rightarrow> bool" where
  "alts_ok P K code q =
    (let n = q + GET code q 1 in
     if P q \<and> q < n \<and> n < length code
     then if opc code n = OP_ALT then alts_ok P K code n else is_ket (opc code n) \<and> K n
     else False)"
  by pat_completeness auto
termination
  by (relation "measure (\<lambda>(P, K, code, q). length code - q)") auto

declare alts_ok.simps [simp del]

subsection \<open>Codes that go on to the next one\<close>

text \<open>The position after a quantifier that follows a class, and after one that follows a back
  reference, which is not a possessive one.\<close>

definition cr_end :: "byte list \<Rightarrow> nat \<Rightarrow> nat" where
  "cr_end code ec =
    (let op = opc code ec in
     if op \<in> {OP_CRSTAR, OP_CRMINSTAR, OP_CRPLUS, OP_CRMINPLUS, OP_CRQUERY, OP_CRMINQUERY,
              OP_CRPOSSTAR, OP_CRPOSPLUS, OP_CRPOSQUERY} then ec + 1
     else if op = OP_CRRANGE \<or> op = OP_CRMINRANGE \<or> op = OP_CRPOSRANGE then ec + 1 + 2 * IMM2_SIZE
     else ec)"

definition ref_end :: "byte list \<Rightarrow> nat \<Rightarrow> nat" where
  "ref_end code ec =
    (if opc code ec \<in> {OP_CRPOSSTAR, OP_CRPOSPLUS, OP_CRPOSQUERY, OP_CRPOSRANGE} then ec
     else cr_end code ec)"

definition quant_end :: "nat \<Rightarrow> nat \<Rightarrow> nat" where
  "quant_end rel ec = (if rel < 6 \<or> rel = 9 \<or> rel = 10 \<or> rel = 11 then ec + 1 else ec + 1 + IMM2_SIZE)"

text \<open>The items of an extended class lead to its end.\<close>

function xclass_list_ok :: "byte list \<Rightarrow> nat \<Rightarrow> bool" where
  "xclass_list_ok code data =
    (if \<not> data < length code then False
     else
      let t = unat (rd code data); data = data + 1 in
      if t = XCL_END then True
      else if t = XCL_SINGLE then xclass_list_ok code (snd (getcharinc code data))
      else if t = XCL_RANGE then xclass_list_ok code (snd (getcharinc code (snd (getcharinc code data))))
      else xclass_list_ok code (data + 2))"
  by pat_completeness auto
termination
  by (relation "measure (\<lambda>(code, data). length code - data)")
    (auto simp: getcharinc_def getcharinctest_def getcharlentest_def Let_def split: if_splits)

declare xclass_list_ok.simps [simp del]

definition xclass_ok :: "byte list \<Rightarrow> nat \<Rightarrow> bool" where
  "xclass_ok code data \<longleftrightarrow>
    xclass_list_ok code (data + 1 + (if unat (rd code data) AND XCL_MAP \<noteq> 0 then 32 else 0))"

text \<open>Where a code goes on that is neither an end nor a part of a group.\<close>

definition simple_next :: "bool \<Rightarrow> byte list \<Rightarrow> nat \<Rightarrow> nat option" where
  "simple_next u code p =
    (let op = opc code p in
     if op \<in> {OP_CIRC, OP_SOD, OP_CIRCM, OP_SOM, OP_SET_SOM, OP_DOLLM, OP_DOLL, OP_EOD, OP_EODN,
         OP_NOT_WORD_BOUNDARY, OP_WORD_BOUNDARY, OP_ANY, OP_ALLANY, OP_ANYBYTE, OP_ANYNL, OP_EXTUNI} \<or>
        (OP_NOT_DIGIT \<le> op \<and> op \<le> OP_WORDCHAR) \<or> (OP_NOT_HSPACE \<le> op \<and> op \<le> OP_VSPACE) then Some (p + 1)
     else if op = OP_PROP \<or> op = OP_NOTPROP then Some (p + 3)
     else if op = OP_CHAR then
       Some (if u then p + 1 + snd (getcharlentest True code (p + 1)) else p + 2)
     else if op = OP_CHARI then
       Some (if u \<and> \<not> fst (getcharlentest True code (p + 1)) < 128
             then p + 1 + snd (getcharlentest True code (p + 1)) else p + 2)
     else if op = OP_NOT \<or> op = OP_NOTI then Some (if u then snd (getcharinc code (p + 1)) else p + 2)
     else if op = OP_REF \<or> op = OP_REFI then Some (ref_end code (p + 1 + IMM2_SIZE))
     else if op = OP_DNREF \<or> op = OP_DNREFI then Some (ref_end code (p + 1 + 2 * IMM2_SIZE))
     else if op = OP_CLASS \<or> op = OP_NCLASS then Some (cr_end code (p + 33))
     else if op = OP_XCLASS then Some (cr_end code (p + GET code p 1))
     else if OP_STAR \<le> op \<and> op \<le> OP_POSUPTOI then
       (let ec = quant_end (op - (if op \<ge> OP_STARI then OP_STARI else OP_STAR)) p
        in Some (ec + snd (getcharlentest u code ec)))
     else if OP_NOTSTAR \<le> op \<and> op \<le> OP_NOTPOSUPTOI then
       (let ec = quant_end (op - (if op \<ge> OP_NOTSTARI then OP_NOTSTARI else OP_NOTSTAR)) p
        in Some (snd (getcharinctest u code ec)))
     else if OP_TYPESTAR \<le> op \<and> op \<le> OP_TYPEPOSUPTO then
       (let ec = quant_end (op - OP_TYPESTAR) p
        in Some (if opc code ec = OP_PROP \<or> opc code ec = OP_NOTPROP then ec + 3 else ec + 1))
     else if op = OP_CLOSE then Some (p + 1 + IMM2_SIZE)
     else if op = OP_REVERSE then Some (p + 1 + LINK_SIZE)
     else if op = OP_CALLOUT then Some (p + 2 + 2 * LINK_SIZE)
     else if op = OP_MARK \<or> op = OP_PRUNE_ARG \<or> op = OP_SKIP_ARG \<or> op = OP_THEN_ARG
       then Some (p + op_length op + opc code (p + 1))
     else if op = OP_COMMIT \<or> op = OP_PRUNE \<or> op = OP_SKIP \<or> op = OP_THEN then Some (p + op_length op)
     else None)"

subsection \<open>Groups\<close>

text \<open>A group that saves the subject pointer at its start needs one pointer less around it.\<close>

definition saves :: "nat \<Rightarrow> nat" where
  "saves op = (if op \<ge> OP_SBRA \<or> op = OP_ONCE then 1 else 0)"

definition group_ok :: "typing \<Rightarrow> byte list \<Rightarrow> nat \<Rightarrow> nat \<Rightarrow> (nat \<Rightarrow> bool) \<Rightarrow> bool" where
  "group_ok T code p d K \<longleftrightarrow>
    alts_ok (\<lambda>q. flows T (d + saves (opc code p)) (q + op_length (opc code q))) K code p"

text \<open>The assertion of a condition, which is left at its end.\<close>

definition assertion_ok :: "typing \<Rightarrow> byte list \<Rightarrow> nat \<Rightarrow> (nat \<Rightarrow> bool) \<Rightarrow> bool" where
  "assertion_ok T code p K \<longleftrightarrow>
    OP_ASSERT \<le> opc code p \<and> opc code p \<le> OP_ASSERTBACK_NOT \<and>
    alts_ok (\<lambda>q. flows T 0 (q + 1 + LINK_SIZE)) (\<lambda>k. opc code k = OP_KET \<and> K k) code p"

definition branch_depth :: "nat \<Rightarrow> nat \<Rightarrow> nat" where
  "branch_depth op d = (if op = OP_SCOND then d + 1 else d)"

definition cond_ok :: "typing \<Rightarrow> byte list \<Rightarrow> nat \<Rightarrow> nat \<Rightarrow> bool" where
  "cond_ok T code p d \<longleftrightarrow>
    (let op = opc code p; ec0 = p + 1 + LINK_SIZE; second = ec0 + GET code p 1;
         ec = (if opc code ec0 = OP_CALLOUT then ec0 + op_length OP_CALLOUT else ec0);
         condcode = opc code ec
     in p < second \<and> flows T (if opc code (second - (1 + LINK_SIZE)) = OP_ALT then branch_depth op d else d) second \<and>
        (if condcode \<in> {OP_RREF, OP_DNRREF, OP_CREF, OP_DNCREF, OP_DEF, OP_FAIL}
         then flows T (branch_depth op d) (ec + op_length condcode)
         else assertion_ok T code ec (\<lambda>k. flows T (branch_depth op d) (k + 1 + LINK_SIZE))))"

definition ket_ok :: "typing \<Rightarrow> byte list \<Rightarrow> nat \<Rightarrow> nat \<Rightarrow> bool" where
  "ket_ok T code p d \<longleftrightarrow>
    (let prev = p - GET code p 1; pop = opc code prev; s = saves pop in
     s \<le> d \<and>
     ((OP_ASSERT \<le> pop \<and> pop \<le> OP_ASSERTBACK_NOT) \<or> pop = OP_ONCE_NC \<or> opc code p = OP_KETRPOS \<or>
      (flows T (d - s) (p + 1 + LINK_SIZE) \<and> (opc code p = OP_KET \<or> flows T (d - s) prev))))"

subsection \<open>Well-formed code\<close>

definition instr_ok :: "typing \<Rightarrow> bool \<Rightarrow> byte list \<Rightarrow> nat \<Rightarrow> nat \<Rightarrow> bool" where
  "instr_ok T u code p d \<longleftrightarrow>
    (let op = opc code p; after = (\<lambda>k. flows T d (k + 1 + LINK_SIZE)) in
     case simple_next u code p of
       Some q \<Rightarrow> p < q \<and> flows T d q \<and>
         (if op = OP_XCLASS then xclass_ok code (p + 1 + LINK_SIZE) else True)
     | None \<Rightarrow>
         if op = OP_ONCE_NC then
           alts_ok (\<lambda>q. flows T d (q + 1 + LINK_SIZE)) after code p
         else if op \<in> {OP_CBRA, OP_SCBRA, OP_BRA, OP_SBRA, OP_ONCE} then group_ok T code p d (\<lambda>_. True)
         else if op \<in> {OP_CBRAPOS, OP_SCBRAPOS, OP_BRAPOS, OP_SBRAPOS} then group_ok T code p d after
         else if op = OP_COND \<or> op = OP_SCOND then cond_ok T code p d
         else if OP_ASSERT \<le> op \<and> op \<le> OP_ASSERTBACK_NOT then assertion_ok T code p after
         else if op = OP_RECURSE then
           (let callpat = GET code p 1 in
            opc code callpat \<noteq> OP_ONCE \<and> group_ok T code callpat d (\<lambda>_. True) \<and> flows T d (p + 1 + LINK_SIZE))
         else if op = OP_ALT then alts_ok (\<lambda>_. True) (flows T d) code p
         else if op = OP_BRAZERO \<or> op = OP_BRAMINZERO then
           flows T d (p + 1) \<and> alts_ok (\<lambda>_. True) after code (p + 1)
         else if op = OP_SKIPZERO then alts_ok (\<lambda>_. True) after code (p + 1)
         else if op = OP_BRAPOSZERO then
           opc code (p + 1) \<in> {OP_CBRAPOS, OP_SCBRAPOS, OP_BRAPOS, OP_SBRAPOS} \<and> group_ok T code (p + 1) d after
         else if is_ket op then ket_ok T code p d
         else True)"

definition well_typed :: "typing \<Rightarrow> bool \<Rightarrow> byte list \<Rightarrow> bool" where
  "well_typed T u code \<longleftrightarrow> length T = length code \<and>
    list_all (\<lambda>p. case depth_at T p of None \<Rightarrow> True | Some d \<Rightarrow> instr_ok T u code p d) [0..<length code]"

subsection \<open>Consequences\<close>

lemma flows_mono: "flows T d q \<Longrightarrow> d \<le> d' \<Longrightarrow> flows T d' q"
  by (auto simp: flows_def split: option.splits)

lemma well_typed_instr:
  assumes "well_typed T u code" "flows T d p"
  shows "p < length code \<and> (\<exists>d'\<le>d. instr_ok T u code p d')"
proof -
  obtain d' where d': "depth_at T p = Some d'" "d' \<le> d"
    using assms(2) by (auto simp: flows_def split: option.splits)
  then have p: "p < length code" using assms(1) by (auto simp: depth_at_def well_typed_def split: if_splits)
  have "\<forall>p \<in> set [0..<length code]. case depth_at T p of None \<Rightarrow> True | Some d \<Rightarrow> instr_ok T u code p d"
    using assms(1) by (simp add: well_typed_def list_all_iff)
  with p have "case depth_at T p of None \<Rightarrow> True | Some d \<Rightarrow> instr_ok T u code p d" by auto
  with p d' show ?thesis by auto
qed

lemma alts_ok_first: "alts_ok P K code q \<Longrightarrow> P q"
  by (subst (asm) alts_ok.simps) (simp add: Let_def split: if_splits)

lemma alts_ok_next:
  "alts_ok P K code q \<Longrightarrow> opc code (q + GET code q 1) = OP_ALT \<Longrightarrow> alts_ok P K code (q + GET code q 1)"
  by (subst (asm) alts_ok.simps) (simp add: Let_def split: if_splits)

lemma alts_ok_last:
  "alts_ok P K code q \<Longrightarrow> opc code (q + GET code q 1) \<noteq> OP_ALT \<Longrightarrow>
     is_ket (opc code (q + GET code q 1)) \<and> K (q + GET code q 1)"
  by (subst (asm) alts_ok.simps) (simp add: Let_def split: if_splits)

lemma alts_ok_less: "alts_ok P K code q \<Longrightarrow> q < q + GET code q 1 \<and> q + GET code q 1 < length code"
  by (subst (asm) alts_ok.simps) (simp add: Let_def split: if_splits)

lemma alts_ok_mono:
  "alts_ok P K code q \<Longrightarrow> (\<And>x. P x \<Longrightarrow> P' x) \<Longrightarrow> (\<And>x. K x \<Longrightarrow> K' x) \<Longrightarrow> alts_ok P' K' code q"
proof (induction P K code q rule: alts_ok.induct)
  case (1 P K code q)
  have c: "P q \<and> q < q + GET code q 1 \<and> q + GET code q 1 < length code"
    using alts_ok_first [OF "1.prems"(1)] alts_ok_less [OF "1.prems"(1)] by blast
  show ?case
  proof (cases "opc code (q + GET code q 1) = OP_ALT")
    case True
    with "1.IH" [OF refl c True alts_ok_next [OF "1.prems"(1) True] "1.prems"(2,3)] c "1.prems"(2)
    show ?thesis by (subst alts_ok.simps) (simp add: Let_def)
  next
    case False
    with alts_ok_last [OF "1.prems"(1) False] c "1.prems"(2,3)
    show ?thesis by (subst alts_ok.simps) (simp add: Let_def)
  qed
qed

lemma alts_ok_ket:
  "alts_ok P K code q \<Longrightarrow> \<exists>k. skip_alts code q = Some k \<and> q < k \<and> is_ket (opc code k) \<and> K k"
proof (induction P K code q rule: alts_ok.induct)
  case (1 P K code q)
  let ?n = "q + GET code q 1"
  note less = alts_ok_less [OF "1.prems"]
  show ?case
  proof (cases "opc code ?n = OP_ALT")
    case True
    with "1.IH" [OF refl _ True alts_ok_next [OF "1.prems" True]] less alts_ok_first [OF "1.prems"]
    obtain k where "skip_alts code ?n = Some k" "?n < k" "is_ket (opc code k)" "K k" by auto
    with True less show ?thesis by (subst skip_alts.simps) (auto simp: Let_def)
  next
    case False
    with alts_ok_last [OF "1.prems" False] less show ?thesis
      by (subst skip_alts.simps) (simp add: Let_def)
  qed
qed

text \<open>A longer chain of pointers does no harm.\<close>

lemma assertion_ok_mono:
  "assertion_ok T code p K \<Longrightarrow> (\<And>k. K k \<Longrightarrow> K' k) \<Longrightarrow> assertion_ok T code p K'"
  unfolding assertion_ok_def by (auto elim!: alts_ok_mono)

lemma group_ok_mono:
  "group_ok T code p d K \<Longrightarrow> d \<le> d' \<Longrightarrow> (\<And>k. K k \<Longrightarrow> K' k) \<Longrightarrow> group_ok T code p d' K'"
  unfolding group_ok_def by (auto elim!: alts_ok_mono flows_mono)

lemma branch_depth_mono: "d \<le> d' \<Longrightarrow> branch_depth op d \<le> branch_depth op d'"
  by (simp add: branch_depth_def)

lemma cond_ok_mono: "cond_ok T code p d \<Longrightarrow> d \<le> d' \<Longrightarrow> cond_ok T code p d'"
  unfolding cond_ok_def Let_def
  by (auto elim!: flows_mono assertion_ok_mono simp: branch_depth_mono split: if_splits)

lemma ket_ok_mono: "ket_ok T code p d \<Longrightarrow> d \<le> d' \<Longrightarrow> ket_ok T code p d'"
  unfolding ket_ok_def Let_def by (auto intro: flows_mono diff_le_mono)

lemma if_mono: "(c \<Longrightarrow> a \<longrightarrow> a') \<Longrightarrow> (\<not> c \<Longrightarrow> b \<longrightarrow> b') \<Longrightarrow> (if c then a else b) \<longrightarrow> (if c then a' else b')"
  by simp

lemma instr_ok_mono:
  assumes "instr_ok T u code p d" "d \<le> d'"
  shows "instr_ok T u code p d'"
proof -
  note mono = flows_mono [OF _ assms(2)] group_ok_mono [OF _ assms(2)] cond_ok_mono [OF _ assms(2)]
    ket_ok_mono [OF _ assms(2)] assertion_ok_mono alts_ok_mono
  have "instr_ok T u code p d \<longrightarrow> instr_ok T u code p d'"
  proof (cases "simple_next u code p")
    case None
    show ?thesis
      unfolding instr_ok_def Let_def None option.case
      by (intro if_mono impI; (elim conjE)?; (intro conjI)?;
        (assumption | rule TrueI | erule mono(1) | erule mono(3) | erule mono(4)
         | (erule mono(2), (erule mono(1) | assumption)+) | (erule mono(5), (erule mono(1) | assumption)+)
         | (erule mono(6), (erule mono(1) | assumption)+)))
  qed (simp add: instr_ok_def mono)
  with assms(1) show ?thesis by blast
qed

text \<open>An extended class that is well-formed has a value for every character.\<close>

lemma xclass_items_total: "xclass_list_ok code data \<Longrightarrow> xclass_items U code c neg data \<noteq> None"
proof (induction U code c neg data rule: xclass_items.induct)
  case (1 U code c neg data)
  from "1.prems" have l: "\<not> length code \<le> data"
    by (subst (asm) xclass_list_ok.simps) (simp split: if_splits)
  show ?case
    using "1.prems" l "1.IH"
    by (subst xclass_items.simps, subst (asm) xclass_list_ok.simps)
      (auto simp: Let_def split: prod.split option.split)
qed

lemma xclass_total: "xclass_ok code data \<Longrightarrow> xclass U code c data \<noteq> None"
  using xclass_items_total [of code _ U c]
  by (auto simp: xclass_ok_def xclass_def Let_def)

end
