(* ===== verification/ExecSafe.thy ===== *)
theory ExecSafe
  imports CodeTyping ExecMatch
begin

text \<open>
  Well-formed code does not get stuck: on code with a typing every call of \<open>match()\<close> returns. The
  proof follows the opcodes as the contract does. A call is in order (\<open>call_ok\<close>) if its code
  position has a type that its chain of subject pointers is long enough for; the code of an opcode
  is \<open>safe\<close> if it has a result and leaves the frame in order, further on in the code if it stays in
  the same call. The recursion then ends by \<open>match_limit_recursion\<close>, the tail recursion and the
  possessive loops by \<open>match_limit\<close>, and the rest by the length of the code.
\<close>

subsection \<open>Frames in order\<close>

definition at_ok :: "typing \<Rightarrow> frame \<Rightarrow> bool" where
  "at_ok T fr \<longleftrightarrow> flows T (length (eptrb fr)) (ecode fr)"

definition call_ok :: "typing \<Rightarrow> match_data \<Rightarrow> frame \<Rightarrow> bool" where
  "call_ok T md fr \<longleftrightarrow>
    flows T (length (eptrb fr) + (if match_function_type md = MATCH_CBEGROUP then 1 else 0)) (ecode fr) \<or>
    (match_function_type md = MATCH_CONDASSERT \<and> assertion_ok T (start_code md) (ecode fr) (\<lambda>_. True))"

text \<open>The surroundings of a call that has \<open>d\<close> levels of recursion below it.\<close>

definition ctx :: "typing \<Rightarrow> nat \<Rightarrow> match_data \<Rightarrow> frame \<Rightarrow> bool" where
  "ctx T d md fr \<longleftrightarrow> md_ok md \<and> fr_ok md fr \<and> well_typed T (utf md) (start_code md) \<and>
     match_limit_recursion md \<le> rdepth fr + Suc d"

text \<open>A position further on that the frame is in order for.\<close>

definition moves :: "typing \<Rightarrow> frame \<Rightarrow> nat \<Rightarrow> bool" where
  "moves T fr q \<longleftrightarrow> ecode fr < q \<and> flows T (length (eptrb fr)) q"

fun goes :: "typing \<Rightarrow> frame \<Rightarrow> outcome \<Rightarrow> bool" where
  "goes T fr (Ret rrc md) = True"
| "goes T fr (Cont fr' md) = (at_ok T fr' \<and> rdepth fr' = rdepth fr \<and> ecode fr < ecode fr')"
| "goes T fr (Tail fr' md) = (at_ok T fr' \<and> rdepth fr' = rdepth fr)"

text \<open>A result, with what is known of it.\<close>

definition returns :: "('a \<Rightarrow> bool) \<Rightarrow> 'a option \<Rightarrow> bool" where
  "returns P r \<longleftrightarrow> (\<exists>x. r = Some x \<and> P x)"

abbreviation safe :: "typing \<Rightarrow> frame \<Rightarrow> outcome option \<Rightarrow> bool" where
  "safe T fr \<equiv> returns (goes T fr)"

lemma returns_simps [simp]: "returns P (Some x) = P x" "\<not> returns P None"
  by (simp_all add: returns_def)

lemma returns_bind: "returns P r \<Longrightarrow> (\<And>x. r = Some x \<Longrightarrow> P x \<Longrightarrow> returns Q (k x)) \<Longrightarrow> returns Q (r \<bind> k)"
  by (auto simp: returns_def)

lemma returns_mono: "returns P r \<Longrightarrow> (\<And>x. r = Some x \<Longrightarrow> P x \<Longrightarrow> Q x) \<Longrightarrow> returns Q r"
  by (auto simp: returns_def)

lemma ctx_step:
  assumes "ctx T d md fr" "step_law md md'"
  shows "ctx T d md' fr"
proof -
  have "consts_of md' = consts_of md" using assms(2) by (simp add: step_law_def grows_def)
  from consts_ofD(4,5,8) [OF this] show ?thesis
    using assms step_law_md_ok [OF assms(2)] fr_ok_step [OF assms(2)] by (simp add: ctx_def)
qed

lemma ctx_D: "ctx T d md fr \<Longrightarrow> md_ok md" "ctx T d md fr \<Longrightarrow> fr_ok md fr"
  "ctx T d md fr \<Longrightarrow> well_typed T (utf md) (start_code md)"
  by (simp_all add: ctx_def)

lemma step_law_code: "step_law md md' \<Longrightarrow> start_code md' = start_code md"
  using consts_ofD(4) [of md' md] by (simp add: step_law_def grows_def)

lemma ret_law_code: "ret_law md r md' \<Longrightarrow> start_code md' = start_code md"
  using consts_ofD(4) [of md' md] by (simp add: ret_law_def grows_def)

lemma step_law_op: "step_law md md' \<Longrightarrow> op_at md' = op_at md" "step_law md md' \<Longrightarrow> link_at md' = link_at md"
  by (simp_all add: fun_eq_iff op_at_def link_at_def step_law_code)

lemma at_ok_simps [simp]:
  "at_ok T (fr\<lparr>eptr := e\<rparr>) = at_ok T fr" "at_ok T (fr\<lparr>mstart := a\<rparr>) = at_ok T fr"
  "at_ok T (fr\<lparr>offset_top := a\<rparr>) = at_ok T fr" "at_ok T (fr\<lparr>rdepth := a\<rparr>) = at_ok T fr"
  "at_ok T (fr\<lparr>ecode := q\<rparr>) = flows T (length (eptrb fr)) q"
  by (simp_all add: at_ok_def)

lemma at_ok_call: "at_ok T fr \<Longrightarrow> call_ok T md fr"
  by (simp add: at_ok_def call_ok_def flows_mono)

lemma moves_goes:
  "moves T fr q \<Longrightarrow> eptrb fr' = eptrb fr \<Longrightarrow> rdepth fr' = rdepth fr \<Longrightarrow> ecode fr' = q \<Longrightarrow> goes T fr (Cont fr' md)"
  by (simp add: moves_def at_ok_def)

text \<open>What the typing says about the opcode of a frame in order.\<close>

lemma at_ok_instr:
  assumes "ctx T d md fr" "at_ok T fr"
  shows "ecode fr < length (start_code md)"
    "instr_ok T (utf md) (start_code md) (ecode fr) (length (eptrb fr))"
  using well_typed_instr [OF ctx_D(3) [OF assms(1)]] assms(2) by (auto simp: at_ok_def intro: instr_ok_mono)

lemma next_moves:
  assumes "ctx T d md fr" "at_ok T fr" "simple_next (utf md) (start_code md) (ecode fr) = Some q"
  shows "moves T fr q"
  using at_ok_instr(2) [OF assms(1,2)] assms(3)
  by (simp add: instr_ok_def Let_def moves_def)

subsection \<open>Codes without recursive calls\<close>

lemma goes_partial_fail [simp]: "goes T fr (partial_fail r)"
  by (simp add: partial_fail_def split: prod.split)

lemma goes_partial_cont: "goes T fr (Cont fr' md) \<Longrightarrow> goes T fr (partial_cont r fr')"
  by (simp add: partial_cont_def split: prod.split)

lemma goes_next: "moves T fr (ecode fr + 1) \<Longrightarrow> goes T fr (Cont (next_op (fr\<lparr>eptr := e\<rparr>)) md)"
  "moves T fr (ecode fr + 1) \<Longrightarrow> goes T fr (Cont (next_op (fr\<lparr>mstart := e\<rparr>)) md)"
  "moves T fr (ecode fr + 1) \<Longrightarrow> goes T fr (Cont (next_op fr) md)"
  by (simp_all add: next_op_def moves_def)

lemma safe_with_char:
  "(\<And>c e. goes T fr (k c (fr\<lparr>eptr := e\<rparr>))) \<Longrightarrow> safe T fr (with_char md fr k)"
  by (simp add: with_char_def split_beta)

named_theorems code_safe

lemma next_safe [code_safe]:
  assumes "moves T fr (ecode fr + 1)"
  shows "safe T fr (case_SOD md fr)" "safe T fr (case_CIRC md fr)" "safe T fr (case_CIRCM md fr)"
    "safe T fr (case_SOM md fr)" "safe T fr (case_SET_SOM md fr)" "safe T fr (case_DOLLM md fr)"
    "safe T fr (case_EOD md fr)" "safe T fr (case_EODN md fr)" "safe T fr (case_DOLL md fr)"
    "safe T fr (case_WORD_BOUNDARY md fr)" "safe T fr (case_ALLANY md fr)" "safe T fr (case_ANY md fr)"
    "safe T fr (case_ANYBYTE md fr)" "safe T fr (case_TYPE md fr)" "safe T fr (case_ANYNL md fr)"
    "safe T fr (case_HVSPACE md fr)" "safe T fr (case_EXTUNI md fr)"
proof -
  note g = goes_next [OF assms] goes_partial_cont
  show SOD: "safe T fr (case_SOD md fr)" by (simp add: case_SOD_def g del: goes.simps(2))
  then show "safe T fr (case_CIRC md fr)" by (simp add: case_CIRC_def)
  show "safe T fr (case_CIRCM md fr)"
    by (simp add: case_CIRCM_def Let_def split_beta g del: goes.simps(2))
  show "safe T fr (case_SOM md fr)" "safe T fr (case_SET_SOM md fr)"
    by (simp_all add: case_SOM_def case_SET_SOM_def g del: goes.simps(2))
  show "safe T fr (case_DOLLM md fr)"
    by (simp add: case_DOLLM_def Let_def split_beta g del: goes.simps(2))
  show EOD: "safe T fr (case_EOD md fr)" by (simp add: case_EOD_def g del: goes.simps(2))
  show EODN: "safe T fr (case_EODN md fr)"
    by (simp add: case_EODN_def Let_def split_beta g del: goes.simps(2))
  from EOD EODN show "safe T fr (case_DOLL md fr)" by (simp add: case_DOLL_def)
  show "safe T fr (case_WORD_BOUNDARY md fr)"
    by (simp add: case_WORD_BOUNDARY_def Let_def split_beta g del: goes.simps(2))
  have ALLANY: "safe T fr (case_ALLANY m fr)" for m
    by (simp add: case_ALLANY_def Let_def g del: goes.simps(2))
  then show "safe T fr (case_ALLANY md fr)" .
  from ALLANY show "safe T fr (case_ANY md fr)"
    by (simp add: case_ANY_def Let_def split_beta)
  show "safe T fr (case_ANYBYTE md fr)" by (simp add: case_ANYBYTE_def g del: goes.simps(2))
  have n: "goes T fr (Cont (next_op (fr\<lparr>eptr := e\<rparr>)) m)" for e m by (rule g)
  show "safe T fr (case_TYPE md fr)" "safe T fr (case_HVSPACE md fr)"
    unfolding case_TYPE_def case_HVSPACE_def
    by (rule safe_with_char; simp add: n del: goes.simps(2))+
  show "safe T fr (case_ANYNL md fr)" unfolding case_ANYNL_def
    by (rule safe_with_char) (use n [of "e + 1" for e] in \<open>simp add: n g(4) del: goes.simps(2)\<close>)
  show "safe T fr (case_EXTUNI md fr)" unfolding case_EXTUNI_def
    by (rule safe_with_char) (use n in \<open>simp add: Let_def g(4) del: goes.simps(2)\<close>)
qed

lemma char_safe [code_safe]:
  "moves T fr (ecode fr + 3) \<Longrightarrow> safe T fr (case_PROP md fr)"
  "moves T fr (if utf md then ecode fr + 1 + snd (getcharlentest True (start_code md) (ecode fr + 1))
     else ecode fr + 2) \<Longrightarrow> safe T fr (case_CHAR md fr)"
  "moves T fr (if utf md \<and> \<not> fst (getcharlentest True (start_code md) (ecode fr + 1)) < 128
     then ecode fr + 1 + snd (getcharlentest True (start_code md) (ecode fr + 1)) else ecode fr + 2) \<Longrightarrow>
     safe T fr (case_CHARI md fr)"
  "moves T fr (if utf md then snd (getcharinc (start_code md) (ecode fr + 1)) else ecode fr + 2) \<Longrightarrow>
     safe T fr (case_NOT md fr)"
  unfolding case_PROP_def case_CHAR_def case_CHARI_def case_NOT_def
     apply (rule safe_with_char)
  by (auto simp: Let_def split_beta moves_def split: option.split if_splits)

lemma mark_capture_unset [simp]:
  "start_code (unset_range i j md) = start_code md"
proof -
  have "start_code (unset_from i n md) = start_code md" for i n md
    by (induction i n md rule: unset_from.induct) (simp_all add: set_ov_def)
  then show ?thesis by (simp add: unset_range_def)
qed

lemma end_safe [code_safe]:
  "moves T fr (ecode fr + 1 + IMM2_SIZE) \<Longrightarrow> safe T fr (case_CLOSE md fr)"
  "safe T fr (case_END md fr)"
  "moves T fr (ecode fr + 1 + LINK_SIZE) \<Longrightarrow> safe T fr (case_REVERSE md fr)"
  "moves T fr (ecode fr + 2 + 2 * LINK_SIZE) \<Longrightarrow> safe T fr (case_CALLOUT md fr)"
  by (auto simp: case_CLOSE_def case_END_def case_REVERSE_def case_CALLOUT_def Let_def moves_def
      split: option.split)

text \<open>Jumps to the end of a group.\<close>

lemma moves_ket:
  assumes "alts_ok P K code p" "\<And>k. K k \<Longrightarrow> flows T (length (eptrb fr)) (k + n)" "ecode fr \<le> p"
  obtains k where "skip_alts code p = Some k" "moves T fr (k + n)"
proof -
  from alts_ok_ket [OF assms(1)] obtain k where k: "skip_alts code p = Some k" "p < k" "K k" by blast
  with assms(2,3) have "moves T fr (k + n)" by (simp add: moves_def)
  with k(1) show thesis by (rule that)
qed

lemma jump_safe [code_safe]:
  "alts_ok P (flows T (length (eptrb fr))) (start_code md) (ecode fr) \<Longrightarrow> safe T fr (case_ALT md fr)"
  "alts_ok P (\<lambda>k. flows T (length (eptrb fr)) (k + 1 + LINK_SIZE)) (start_code md) (ecode fr + 1) \<Longrightarrow>
     safe T fr (case_SKIPZERO md fr)"
proof -
  assume "alts_ok P (flows T (length (eptrb fr))) (start_code md) (ecode fr)"
  then obtain k where "skip_alts (start_code md) (ecode fr) = Some k" "moves T fr (k + 0)"
    by (rule moves_ket [where T = T and fr = fr and n = 0]) auto
  then show "safe T fr (case_ALT md fr)" by (simp add: case_ALT_def moves_def)
next
  assume "alts_ok P (\<lambda>k. flows T (length (eptrb fr)) (k + 1 + LINK_SIZE)) (start_code md) (ecode fr + 1)"
  then obtain k where "skip_alts (start_code md) (ecode fr + 1) = Some k" "moves T fr (k + 3)"
    by (rule moves_ket [where T = T and fr = fr and n = 3]) (auto simp: numeral_3_eq_3)
  then show "safe T fr (case_SKIPZERO md fr)"
    by (simp add: case_SKIPZERO_def moves_def numeral_3_eq_3)
qed

subsection \<open>Codes that call the matcher\<close>

text \<open>How many calls \<open>match_limit\<close> still allows.\<close>

definition calls_left :: "match_data \<Rightarrow> nat" where
  "calls_left md = match_limit md - match_call_count md"

lemma calls_left_step: "step_law md md' \<Longrightarrow> calls_left md' \<le> calls_left md"
  using consts_ofD(1) [of md' md] by (auto simp: calls_left_def step_law_def grows_def)

text \<open>Where a loop over the alternatives of a group may stand: at an alternative, or at the end.\<close>

definition alt_at :: "(nat \<Rightarrow> bool) \<Rightarrow> (nat \<Rightarrow> bool) \<Rightarrow> byte list \<Rightarrow> nat \<Rightarrow> nat \<Rightarrow> bool" where
  "alt_at A K code p q \<longleftrightarrow> p \<le> q \<and> (alts_ok A K code q \<or> (p < q \<and> is_ket (opc code q) \<and> K q))"

lemma ctx_simps [simp]:
  "ctx T d md (fr\<lparr>ecode := q\<rparr>) = ctx T d md fr" "ctx T d md (fr\<lparr>mstart := q\<rparr>) = ctx T d md fr"
  "ctx T d md (fr\<lparr>offset_top := q\<rparr>) = ctx T d md fr" "ctx T d md (fr\<lparr>eptrb := c\<rparr>) = ctx T d md fr"
  by (simp_all add: ctx_def)

lemma ctx_eptr: "ctx T d md fr \<Longrightarrow> e \<le> end_subject md \<Longrightarrow> ctx T d md (fr\<lparr>eptr := e\<rparr>)"
  by (simp add: ctx_def)

fun left_alts :: "(nat \<Rightarrow> bool) \<Rightarrow> (nat \<Rightarrow> bool) \<Rightarrow> byte list \<Rightarrow> frame \<Rightarrow> 'a + (match_data \<times> frame) \<Rightarrow> bool" where
  "left_alts A K code fr (Inl _) = True"
| "left_alts A K code fr (Inr (md', fr')) =
     (eptrb fr' = eptrb fr \<and> rdepth fr' = rdepth fr \<and> alt_at A K code (ecode fr) (ecode fr'))"

lemma left_alts_back:
  "left_alts A K code (fr\<lparr>ecode := q\<rparr>) r \<Longrightarrow> ecode fr < q \<Longrightarrow> left_alts A K code fr r"
  by (induction A K code fr r rule: left_alts.induct) (auto simp: alt_at_def)

text \<open>A branch that failed is not one that met \<open>match_limit\<close>.\<close>

lemma failed_again:
  assumes "then_in_branch md'' ec rrc = MATCH_NOMATCH" "ret_law md rrc md'"
    and "rrc \<noteq> PCRE_ERROR_MATCHLIMIT \<Longrightarrow> calls_left md' < calls_left md"
  shows "step_law md md'" "calls_left md' < calls_left md"
  using assms failed_branch [OF assms(1) _ _ assms(2)] by (auto simp: then_in_branch_def Let_def split: if_splits)

lemma ctx_bound: "ctx T d md fr \<Longrightarrow> eptr fr \<le> end_subject md"
  by (simp add: ctx_def fr_ok_def)

lemma ctx_refl: "ctx T d md fr \<Longrightarrow> step_law md md"
  by (simp add: ctx_def)

text \<open>A group's branches, run with one more pointer on the chain if the group saves one.\<close>

abbreviation branch_at :: "typing \<Rightarrow> byte list \<Rightarrow> nat \<Rightarrow> nat \<Rightarrow> bool" where
  "branch_at T code n q \<equiv> flows T n (q + op_length (opc code q))"

lemma set_cbegroup_twice: "set_cbegroup b (set_cbegroup b md) = set_cbegroup b md"
  by (simp add: set_cbegroup_def)

text \<open>Where the loop over the iterations of a possessive group is left.\<close>

fun left_pos :: "(nat \<Rightarrow> bool) \<Rightarrow> frame \<Rightarrow> nat \<Rightarrow> 'a + (bool \<times> match_data \<times> frame) \<Rightarrow> bool" where
  "left_pos K fr start (Inl _) = True"
| "left_pos K fr start (Inr (once, md', fr')) =
     (eptrb fr' = eptrb fr \<and> rdepth fr' = rdepth fr \<and> start < ecode fr' \<and> K (ecode fr'))"

lemma left_pos_frame:
  "eptrb f = eptrb fr \<Longrightarrow> rdepth f = rdepth fr \<Longrightarrow> left_pos K f start = left_pos K fr start"
proof (rule ext)
  fix r assume "eptrb f = eptrb fr" "rdepth f = rdepth fr"
  then show "left_pos K f start r = left_pos K fr start r"
    by (cases "(K, fr, start, r)" rule: left_pos.cases) auto
qed

lemma left_pos_simps [simp]:
  "left_pos K (fr\<lparr>ecode := a\<rparr>) start = left_pos K fr start"
  "left_pos K (fr\<lparr>eptr := a\<rparr>) start = left_pos K fr start"
  "left_pos K (fr\<lparr>offset_top := a\<rparr>) start = left_pos K fr start"
  "left_pos K (fr\<lparr>mstart := a\<rparr>) start = left_pos K fr start"
  by (rule left_pos_frame; simp)+

lemma ctx_restore:
  assumes "ctx T d md fr" "ret_law md rrc md'" "offsets_ok (end_subject md) (offset_save ri)"
  shows "ctx T d ((restore_recursion ri prevrec md')\<lparr>recursive := r\<rparr>) fr"
proof -
  have g: "consts_of md' = consts_of md" "md_ok md'" using assms(2) by (simp_all add: ret_law_def grows_def)
  note c = consts_ofD [OF g(1)]
  have "offsets_ok (end_subject md) (take n (offset_save ri) @ drop n (offset_vector md'))" for n
    using assms(3) g(2) c(2) unfolding offsets_ok_def md_ok_def
    by (auto dest: in_set_takeD in_set_dropD)
  with assms(1) g c show ?thesis
    by (simp add: ctx_def restore_recursion_def md_ok_def subject_ok_def fr_ok_def)
qed

locale total_matcher = match_contract +
  fixes T :: typing and d :: nat
  assumes total: "md_ok md \<Longrightarrow> fr_ok md fr \<Longrightarrow> well_typed T (utf md) (start_code md) \<Longrightarrow> call_ok T md fr \<Longrightarrow>
      match_limit_recursion md \<le> rdepth fr + d \<Longrightarrow> rm md fr \<noteq> None"
    and counts: "md_ok md \<Longrightarrow> fr_ok md fr \<Longrightarrow> rm md fr = Some (rrc, md') \<Longrightarrow>
      match_call_count md < match_call_count md'"
    and limit: "rm md fr = Some (rrc, md') \<Longrightarrow> match_limit md \<le> match_call_count md \<Longrightarrow>
      rrc = PCRE_ERROR_MATCHLIMIT"
begin

text \<open>
  A call from a frame in order returns, within the contract, and unless it failed at \<open>match_limit\<close>
  fewer calls are left.
\<close>

lemma call_safe:
  assumes "ctx T d md fr" "step_law md md1" "fr_ok md1 fr1" "call_ok T md1 fr1" "rdepth fr1 = rdepth fr"
    and "\<And>rrc md'. ret_law md rrc md' \<Longrightarrow> (rrc \<noteq> PCRE_ERROR_MATCHLIMIT \<Longrightarrow> calls_left md' < calls_left md) \<Longrightarrow>
      returns P (k rrc md')"
  shows "returns P (RMATCH rm md1 fr1 \<bind> case_prod k)"
proof -
  have c: "ctx T d md1 fr" using assms(1,2) by (rule ctx_step)
  let ?fr = "fr1\<lparr>rdepth := rdepth fr1 + 1\<rparr>"
  have f: "fr_ok md1 ?fr" using assms(3) by simp
  have "call_ok T md1 ?fr" using assms(4) by (simp add: call_ok_def)
  moreover have "match_limit_recursion md1 \<le> rdepth ?fr + d"
    using c assms(5) by (simp add: ctx_def)
  ultimately have "rm md1 ?fr \<noteq> None" using total [OF ctx_D(1) [OF c] f ctx_D(3) [OF c]] by blast
  then obtain rrc md' where r: "rm md1 ?fr = Some (rrc, md')" by auto
  note l = law [OF ctx_D(1) [OF c] f r]
  have "calls_left md' < calls_left md1" if "rrc \<noteq> PCRE_ERROR_MATCHLIMIT"
    using limit [OF r] counts [OF ctx_D(1) [OF c] f r] that l consts_ofD(1) [of md' md1]
    by (auto simp: calls_left_def ret_law_def grows_def)
  then have "returns P (k rrc md')"
    using calls_left_step [OF assms(2)] by (intro assms(6) step_ret_trans [OF assms(2) l]) auto
  with r show ?thesis by (simp add: RMATCH_def)
qed

text \<open>The common call: further on in the code with the chain as it is.\<close>

lemma call_safe_here:
  assumes "ctx T d md fr" "step_law md md1" "flows T (length (eptrb fr)) (ecode fr1)"
    "eptrb fr1 = eptrb fr" "rdepth fr1 = rdepth fr" "eptr fr1 \<le> end_subject md"
    and "\<And>rrc md'. ret_law md rrc md' \<Longrightarrow> (rrc \<noteq> PCRE_ERROR_MATCHLIMIT \<Longrightarrow> calls_left md' < calls_left md) \<Longrightarrow>
      returns P (k rrc md')"
  shows "returns P (RMATCH rm md1 fr1 \<bind> case_prod k)"
  using assms(1,2)
proof (rule call_safe)
  show "fr_ok md1 fr1" using assms(6) step_law_end [OF assms(2)] by (simp add: fr_ok_def)
  show "call_ok T md1 fr1" using assms(3,4) by (intro at_ok_call) (simp add: at_ok_def)
qed (use assms in auto)

lemma verbs_safe:
  assumes "ctx T d md fr"
  shows "moves T fr (ecode fr + op_length (op_at md (ecode fr))) \<Longrightarrow> safe T fr (case_COMMIT rm md fr)"
    "moves T fr (ecode fr + op_length (op_at md (ecode fr))) \<Longrightarrow> safe T fr (case_PRUNE rm md fr)"
    "moves T fr (ecode fr + op_length (op_at md (ecode fr))) \<Longrightarrow> safe T fr (case_SKIP rm md fr)"
    "moves T fr (ecode fr + op_length (op_at md (ecode fr))) \<Longrightarrow> safe T fr (case_THEN rm md fr)"
    "moves T fr (ecode fr + op_length (op_at md (ecode fr)) + op_at md (ecode fr + 1)) \<Longrightarrow> safe T fr (case_MARK rm md fr)"
    "moves T fr (ecode fr + op_length (op_at md (ecode fr)) + op_at md (ecode fr + 1)) \<Longrightarrow> safe T fr (case_PRUNE_ARG rm md fr)"
    "moves T fr (ecode fr + op_length (op_at md (ecode fr)) + op_at md (ecode fr + 1)) \<Longrightarrow> safe T fr (case_THEN_ARG rm md fr)"
    "moves T fr (ecode fr + op_length (op_at md (ecode fr)) + op_at md (ecode fr + 1)) \<Longrightarrow> safe T fr (case_SKIP_ARG rm md fr)"
proof -
  have m: "md_ok md" "eptr fr \<le> end_subject md" using assms by (simp_all add: ctx_def fr_ok_def)
  note defs = case_COMMIT_def case_PRUNE_def case_SKIP_def case_THEN_def case_MARK_def
    case_PRUNE_ARG_def case_THEN_ARG_def Let_def after_op_def after_arg_def moves_def
  show "moves T fr (ecode fr + op_length (op_at md (ecode fr))) \<Longrightarrow> safe T fr (case_COMMIT rm md fr)"
    "moves T fr (ecode fr + op_length (op_at md (ecode fr))) \<Longrightarrow> safe T fr (case_PRUNE rm md fr)"
    "moves T fr (ecode fr + op_length (op_at md (ecode fr))) \<Longrightarrow> safe T fr (case_SKIP rm md fr)"
    "moves T fr (ecode fr + op_length (op_at md (ecode fr))) \<Longrightarrow> safe T fr (case_THEN rm md fr)"
    unfolding defs by (rule call_safe_here [OF assms]; simp add: m)+
  show "moves T fr (ecode fr + op_length (op_at md (ecode fr)) + op_at md (ecode fr + 1)) \<Longrightarrow> safe T fr (case_MARK rm md fr)"
    "moves T fr (ecode fr + op_length (op_at md (ecode fr)) + op_at md (ecode fr + 1)) \<Longrightarrow> safe T fr (case_PRUNE_ARG rm md fr)"
    "moves T fr (ecode fr + op_length (op_at md (ecode fr)) + op_at md (ecode fr + 1)) \<Longrightarrow> safe T fr (case_THEN_ARG rm md fr)"
    unfolding defs by (rule call_safe_here [OF assms]; simp add: m op_at_def)+
  assume "moves T fr (ecode fr + op_length (op_at md (ecode fr)) + op_at md (ecode fr + 1))"
  then show "safe T fr (case_SKIP_ARG rm md fr)"
    unfolding case_SKIP_ARG_def Let_def after_arg_def moves_def
    by (cases "skip_arg_count md + 1 \<le> ignore_skip_arg md")
      (simp_all add: op_at_def, rule call_safe_here [OF assms], simp_all add: m)
qed

subsection \<open>Groups\<close>

lemma once_nc_loop_safe:
  assumes "ctx T d md fr" "alts_ok (\<lambda>q. flows T (length (eptrb fr)) (q + 1 + LINK_SIZE)) K (start_code md) (ecode fr)"
  shows "returns (left_alts (\<lambda>q. flows T (length (eptrb fr)) (q + 1 + LINK_SIZE)) K (start_code md) fr)
    (once_nc_loop rm sm md fr)"
  using assms
proof (induction "calls_left md" arbitrary: md fr rule: less_induct)
  case less
  note nxt = alts_ok_next [OF less.prems(2)] alts_ok_last [OF less.prems(2)] alts_ok_less [OF less.prems(2)]
  show ?case
    unfolding once_nc_loop.simps [of rm sm md]
  proof (rule call_safe_here [OF less.prems(1)])
    fix rrc md'
    assume l: "ret_law md rrc md'" and c: "rrc \<noteq> PCRE_ERROR_MATCHLIMIT \<Longrightarrow> calls_left md' < calls_left md"
    let ?n = "ecode fr + GET (start_code md) (ecode fr) 1" and ?md = "md'\<lparr>mark := sm\<rparr>"
    let ?A = "\<lambda>q. flows T (length (eptrb fr)) (q + 1 + LINK_SIZE)"
    have code: "start_code md' = start_code md" using l by (rule ret_law_code)
    have again: "returns (left_alts ?A K (start_code md) fr) (once_nc_loop rm sm ?md (fr\<lparr>ecode := ?n\<rparr>))"
      if "then_in_branch md' (ecode fr) rrc = MATCH_NOMATCH" "opc (start_code md) ?n = OP_ALT"
    proof -
      note f = failed_again [OF that(1) l c]
      then have "returns (left_alts ?A K (start_code md) (fr\<lparr>ecode := ?n\<rparr>))
          (once_nc_loop rm sm ?md (fr\<lparr>ecode := ?n\<rparr>))"
        using less.hyps [of ?md "fr\<lparr>ecode := ?n\<rparr>"] ctx_step [OF less.prems(1), of ?md] nxt(1) [OF that(2)] code
        by (simp add: calls_left_def)
      then show ?thesis by (rule returns_mono) (use nxt(3) in \<open>auto intro: left_alts_back\<close>)
    qed
    show "returns (left_alts ?A K (start_code md) fr)
     (if rrc = MATCH_MATCH then Some (Inr (md', fr\<lparr>mstart := start_match_ptr md'\<rparr>))
      else let rrc = then_in_branch md' (ecode fr) rrc in
        if rrc \<noteq> MATCH_NOMATCH then Some (Inl (rrc, md'))
        else let fr = fr\<lparr>ecode := ecode fr + link_at md' (ecode fr) 1\<rparr>; md = md'\<lparr>mark := sm\<rparr>
          in if op_at md (ecode fr) = OP_ALT then once_nc_loop rm sm md fr else Some (Inr (md, fr)))"
      using nxt less.prems(2) again code
      by (auto simp: Let_def alt_at_def op_at_def link_at_def)
  qed (use alts_ok_first [OF less.prems(2)] ctx_bound [OF less.prems(1)] ctx_refl [OF less.prems(1)] in simp_all)
qed

text \<open>Assertions: the branches run with an empty chain.\<close>

lemma call_safe_empty:
  assumes "ctx T d md fr" "flows T 0 q"
    and "\<And>rrc md'. ret_law md rrc md' \<Longrightarrow> (rrc \<noteq> PCRE_ERROR_MATCHLIMIT \<Longrightarrow> calls_left md' < calls_left md) \<Longrightarrow>
      returns P (k rrc md')"
  shows "returns P (RMATCH rm md (fr\<lparr>ecode := q, eptrb := []\<rparr>) \<bind> case_prod k)"
  using assms(1) ctx_refl [OF assms(1)]
  by (rule call_safe) (use assms ctx_D(2) [OF assms(1)] in \<open>simp_all add: call_ok_def flows_mono [of T 0]\<close>)

lemma assert_loop_safe:
  assumes "ctx T d md fr" "alts_ok (\<lambda>q. flows T 0 (q + 1 + LINK_SIZE)) K (start_code md) (ecode fr)"
  shows "returns (left_alts (\<lambda>q. flows T 0 (q + 1 + LINK_SIZE)) K (start_code md) fr) (assert_loop rm sm md fr)"
  using assms
proof (induction "calls_left md" arbitrary: md fr rule: less_induct)
  case less
  let ?A = "\<lambda>q. flows T 0 (q + 1 + LINK_SIZE)"
  note nxt = alts_ok_next [OF less.prems(2)] alts_ok_last [OF less.prems(2)] alts_ok_less [OF less.prems(2)]
  show ?case
    unfolding assert_loop.simps [of rm sm md]
  proof (rule call_safe_empty [OF less.prems(1) alts_ok_first [OF less.prems(2)]])
    fix rrc md'
    assume l: "ret_law md rrc md'" and c: "rrc \<noteq> PCRE_ERROR_MATCHLIMIT \<Longrightarrow> calls_left md' < calls_left md"
    let ?n = "ecode fr + GET (start_code md) (ecode fr) 1" and ?md = "md'\<lparr>mark := sm\<rparr>"
    have code: "start_code md' = start_code md" using l by (rule ret_law_code)
    have again: "returns (left_alts ?A K (start_code md) fr) (assert_loop rm sm ?md (fr\<lparr>ecode := ?n\<rparr>))"
      if "then_in_branch ?md (ecode fr) rrc = MATCH_NOMATCH" "opc (start_code md) ?n = OP_ALT"
    proof -
      note f = failed_again [OF that(1) l c]
      then have "returns (left_alts ?A K (start_code md) (fr\<lparr>ecode := ?n\<rparr>))
          (assert_loop rm sm ?md (fr\<lparr>ecode := ?n\<rparr>))"
        using less.hyps [of ?md "fr\<lparr>ecode := ?n\<rparr>"] ctx_step [OF less.prems(1), of ?md] nxt(1) [OF that(2)] code
        by (simp add: calls_left_def)
      then show ?thesis by (rule returns_mono) (use nxt(3) in \<open>auto intro: left_alts_back\<close>)
    qed
    show "returns (left_alts ?A K (start_code md) fr)
     (if rrc = MATCH_MATCH \<or> rrc = MATCH_ACCEPT then Some (Inr (md', fr\<lparr>mstart := start_match_ptr md'\<rparr>))
      else let md = md'\<lparr>mark := sm\<rparr>; rrc = then_in_branch md (ecode fr) rrc in
        if rrc \<noteq> MATCH_NOMATCH then Some (Inl (rrc, md))
        else let fr = fr\<lparr>ecode := ecode fr + link_at md (ecode fr) 1\<rparr>
          in if op_at md (ecode fr) = OP_ALT then assert_loop rm sm md fr else Some (Inr (md, fr)))"
      using nxt less.prems(2) again code
      by (auto simp: Let_def alt_at_def op_at_def link_at_def)
  qed
qed

lemma assert_not_loop_safe:
  assumes "ctx T d md fr" "alts_ok (\<lambda>q. flows T 0 (q + 1 + LINK_SIZE)) K (start_code md) (ecode fr)"
  shows "returns (left_alts (\<lambda>_. False) K (start_code md) fr) (assert_not_loop rm sm md fr)"
  using assms
proof (induction "calls_left md" arbitrary: md fr rule: less_induct)
  case less
  let ?A = "\<lambda>q. flows T 0 (q + 1 + LINK_SIZE)"
  note nxt = alts_ok_next [OF less.prems(2)] alts_ok_last [OF less.prems(2)] alts_ok_less [OF less.prems(2)]
    alts_ok_ket [OF less.prems(2)]
  show ?case
    unfolding assert_not_loop.simps [of rm sm md]
  proof (rule call_safe_empty [OF less.prems(1) alts_ok_first [OF less.prems(2)]])
    fix rrc md'
    assume l: "ret_law md rrc md'" and c: "rrc \<noteq> PCRE_ERROR_MATCHLIMIT \<Longrightarrow> calls_left md' < calls_left md"
    let ?n = "ecode fr + GET (start_code md) (ecode fr) 1" and ?md = "md'\<lparr>mark := sm\<rparr>"
    have code: "start_code md' = start_code md" using l by (rule ret_law_code)
    have again: "returns (left_alts (\<lambda>_. False) K (start_code md) fr) (assert_not_loop rm sm ?md (fr\<lparr>ecode := ?n\<rparr>))"
      if "then_in_branch ?md (ecode fr) rrc = MATCH_NOMATCH" "opc (start_code md) ?n = OP_ALT"
    proof -
      note f = failed_again [OF that(1) l c]
      then have "returns (left_alts (\<lambda>_. False) K (start_code md) (fr\<lparr>ecode := ?n\<rparr>))
          (assert_not_loop rm sm ?md (fr\<lparr>ecode := ?n\<rparr>))"
        using less.hyps [of ?md "fr\<lparr>ecode := ?n\<rparr>"] ctx_step [OF less.prems(1), of ?md] nxt(1) [OF that(2)] code
        by (simp add: calls_left_def)
      then show ?thesis by (rule returns_mono) (use nxt(3) in \<open>auto intro: left_alts_back\<close>)
    qed
    show "returns (left_alts (\<lambda>_. False) K (start_code md) fr)
     (let md = md'\<lparr>mark := sm\<rparr> in
      if rrc = MATCH_MATCH \<or> rrc = MATCH_ACCEPT then Some (Inl (MATCH_NOMATCH, md))
      else let rrc = then_in_branch md (ecode fr) rrc in
        if rrc = MATCH_NOMATCH then
          let fr = fr\<lparr>ecode := ecode fr + link_at md (ecode fr) 1\<rparr>
          in if op_at md (ecode fr) = OP_ALT then assert_not_loop rm sm md fr else Some (Inr (md, fr))
        else if rrc = MATCH_THEN \<or> rrc = MATCH_COMMIT \<or> rrc = MATCH_SKIP \<or> rrc = MATCH_SKIP_ARG \<or>
               rrc = MATCH_PRUNE
        then skip_alts (start_code md) (ecode fr) \<bind> (\<lambda>ket. Some (Inr (md, fr\<lparr>ecode := ket\<rparr>)))
        else Some (Inl (rrc, md)))"
      using nxt again code
      by (auto simp: Let_def alt_at_def op_at_def link_at_def)
  qed
qed

text \<open>The opcodes of these loops.\<close>

lemma once_nc_after_safe:
  assumes "ctx T d md fr" "rdepth fr0 = rdepth fr" "ecode fr0 \<le> ecode fr"
    "flows T (length (eptrb fr)) (ecode fr + 1 + LINK_SIZE)" "flows T (length (eptrb fr)) prev"
  shows "safe T fr0 (once_nc_after rm prev se md fr)"
  unfolding once_nc_after_def
  by (auto intro!: call_safe_here [OF assms(1)] simp del: One_nat_def)
    (use assms ctx_bound [OF assms(1)] ctx_refl [OF assms(1)] in simp_all)

lemma ONCE_NC_safe:
  assumes "ctx T d md fr" "at_ok T fr"
    "alts_ok (\<lambda>q. flows T (length (eptrb fr)) (q + 1 + LINK_SIZE))
       (\<lambda>k. flows T (length (eptrb fr)) (k + 1 + LINK_SIZE)) (start_code md) (ecode fr)"
  shows "safe T fr (case_ONCE_NC rm md fr)"
  unfolding case_ONCE_NC_def Let_def
proof (rule returns_bind [OF once_nc_loop_safe [OF assms(1,3)]])
  fix r
  assume r: "once_nc_loop rm (mark md) md fr = Some r"
    and p: "left_alts (\<lambda>q. flows T (length (eptrb fr)) (q + 1 + LINK_SIZE))
       (\<lambda>k. flows T (length (eptrb fr)) (k + 1 + LINK_SIZE)) (start_code md) fr r"
  have l: "alts_law md r"
    by (rule once_nc_loop_law [OF r match_contract_axioms ctx_D(1,2) [OF assms(1)]])
  show "safe T fr (case r of Inl (rrc, md) \<Rightarrow> Some (Ret rrc md) | Inr (md, fr1) \<Rightarrow>
      if op_at md (ecode fr1) \<noteq> OP_ONCE_NC \<and> op_at md (ecode fr1) \<noteq> OP_ALT
      then Some (Ret MATCH_NOMATCH md)
      else skip_alts (start_code md) (ecode fr1) \<bind> (\<lambda>ket. once_nc_after rm (ecode fr) (eptr fr) md
        (fr1\<lparr>ecode := ket, offset_top := end_offset_top md, eptr := end_match_ptr md\<rparr>)))"
  proof (cases r)
    case (Inr x)
    obtain md1 fr1 where x: "x = (md1, fr1)" by (cases x)
    from l Inr x have s: "step_law md md1" and code: "start_code md1 = start_code md"
      by (auto dest: step_law_code)
    have c1: "ctx T d md1 fr" using assms(1) s by (rule ctx_step)
    show ?thesis
    proof (cases "op_at md1 (ecode fr1) \<noteq> OP_ONCE_NC \<and> op_at md1 (ecode fr1) \<noteq> OP_ALT")
      case False
      with p Inr x code have a: "alts_ok (\<lambda>q. flows T (length (eptrb fr)) (q + 1 + LINK_SIZE))
         (\<lambda>k. flows T (length (eptrb fr)) (k + 1 + LINK_SIZE)) (start_code md) (ecode fr1)"
        and fr1: "eptrb fr1 = eptrb fr" "rdepth fr1 = rdepth fr" "ecode fr \<le> ecode fr1"
        by (auto simp: alt_at_def op_at_def is_ket_def)
      from alts_ok_ket [OF a] obtain k where k: "skip_alts (start_code md1) (ecode fr1) = Some k"
        "ecode fr1 < k" "flows T (length (eptrb fr)) (k + 1 + LINK_SIZE)" using code by auto
      have c2: "ctx T d md1 (fr1\<lparr>ecode := k, offset_top := end_offset_top md1, eptr := end_match_ptr md1\<rparr>)"
        using c1 fr1 matched_end [OF s] by (simp add: ctx_def)
      from False k Inr x show ?thesis
        using once_nc_after_safe [OF c2, of fr "ecode fr"] fr1 assms(2) by (simp add: at_ok_def)
    qed (use Inr x in simp)
  qed (auto split: prod.split)
qed

lemma assertion_alts:
  assumes "assertion_ok T (start_code md) (ecode fr) K"
  shows "alts_ok (\<lambda>q. flows T 0 (q + 1 + LINK_SIZE)) (\<lambda>k. opc (start_code md) k = OP_KET \<and> K k)
    (start_code md) (ecode fr)"
  using assms by (simp add: assertion_ok_def)

text \<open>A condition returns; elsewhere the code goes on after the assertion.\<close>

lemma ASSERT_safe:
  assumes "ctx T d md fr" "assertion_ok T (start_code md) (ecode fr) K"
    and "match_function_type md = MATCH_CONDASSERT \<or>
      (\<forall>k. K k \<longrightarrow> flows T (length (eptrb fr)) (k + 1 + LINK_SIZE))"
  shows "returns (\<lambda>out. goes T fr out \<and>
    (match_function_type md = MATCH_CONDASSERT \<longrightarrow> (\<exists>rrc md'. out = Ret rrc md'))) (case_ASSERT rm md fr)"
proof -
  let ?c = "match_function_type md = MATCH_CONDASSERT"
  let ?md = "if ?c then md\<lparr>match_function_type := 0\<rparr> else md"
  let ?A = "\<lambda>q. flows T 0 (q + 1 + LINK_SIZE)" and ?K = "\<lambda>k. opc (start_code md) k = OP_KET \<and> K k"
  have s: "step_law md ?md" using ctx_refl [OF assms(1)] by simp
  have c: "ctx T d ?md fr" using assms(1) s by (rule ctx_step)
  have a: "alts_ok ?A ?K (start_code ?md) (ecode fr)"
    using assertion_alts [OF assms(2)] by simp
  show ?thesis
    unfolding case_ASSERT_def Let_def
  proof (rule returns_bind [OF assert_loop_safe [OF c a]])
    fix r
    assume r: "assert_loop rm (mark ?md) ?md fr = Some r" and p': "left_alts ?A ?K (start_code ?md) fr r"
    have p: "left_alts ?A ?K (start_code md) fr r" using p' by (simp split: if_splits)
    have l: "alts_law ?md r"
      by (rule assert_loop_law [OF r match_contract_axioms ctx_D(1,2) [OF c]])
    show "returns (\<lambda>out. goes T fr out \<and> (?c \<longrightarrow> (\<exists>rrc md'. out = Ret rrc md')))
      (case r of Inl (rrc, md) \<Rightarrow> Some (Ret rrc md) | Inr (md, fr') \<Rightarrow>
        if op_at md (ecode fr') = OP_KET then Some (Ret MATCH_NOMATCH md)
        else if ?c then Some (Ret MATCH_MATCH md)
        else skip_alts (start_code md) (ecode fr') \<bind> (\<lambda>ket.
          Some (Cont (fr'\<lparr>ecode := ket + 1 + LINK_SIZE, offset_top := end_offset_top md\<rparr>) md)))"
    proof (cases r)
      case (Inr x)
      obtain md1 fr1 where x: "x = (md1, fr1)" by (cases x)
      from l Inr x have code: "start_code md1 = start_code md"
        using step_law_code [of ?md md1] by auto
      have fr1: "eptrb fr1 = eptrb fr" "rdepth fr1 = rdepth fr" "ecode fr \<le> ecode fr1"
        and k: "\<exists>k. skip_alts (start_code md) (ecode fr1) = Some k \<and> ecode fr1 < k \<and> K k"
        if "op_at md1 (ecode fr1) \<noteq> OP_KET"
        using p Inr x that code by (auto simp: alt_at_def op_at_def dest: alts_ok_ket)
      show ?thesis
        using fr1 k assms(3) Inr x code by (auto simp: at_ok_def)
    qed (auto split: prod.split)
  qed
qed

lemma ASSERT_NOT_safe:
  assumes "ctx T d md fr" "assertion_ok T (start_code md) (ecode fr) K"
    and "match_function_type md = MATCH_CONDASSERT \<or>
      (\<forall>k. K k \<longrightarrow> flows T (length (eptrb fr)) (k + 1 + LINK_SIZE))"
  shows "returns (\<lambda>out. goes T fr out \<and>
    (match_function_type md = MATCH_CONDASSERT \<longrightarrow> (\<exists>rrc md'. out = Ret rrc md'))) (case_ASSERT_NOT rm md fr)"
proof -
  let ?c = "match_function_type md = MATCH_CONDASSERT"
  let ?md = "if ?c then md\<lparr>match_function_type := 0\<rparr> else md"
  let ?K = "\<lambda>k. opc (start_code md) k = OP_KET \<and> K k"
  have s: "step_law md ?md" using ctx_refl [OF assms(1)] by simp
  have c: "ctx T d ?md fr" using assms(1) s by (rule ctx_step)
  have a: "alts_ok (\<lambda>q. flows T 0 (q + 1 + LINK_SIZE)) ?K (start_code ?md) (ecode fr)"
    using assertion_alts [OF assms(2)] by simp
  show ?thesis
    unfolding case_ASSERT_NOT_def Let_def
  proof (rule returns_bind [OF assert_not_loop_safe [OF c a]])
    fix r :: "int \<times> match_data + match_data \<times> frame"
    assume p': "left_alts (\<lambda>_. False) ?K (start_code ?md) fr r"
    have p: "left_alts (\<lambda>_. False) ?K (start_code md) fr r" using p' by (simp split: if_splits)
    show "returns (\<lambda>out. goes T fr out \<and> (?c \<longrightarrow> (\<exists>rrc md'. out = Ret rrc md')))
      (case r of Inl (rrc, md) \<Rightarrow> Some (Ret rrc md) | Inr (md, fr) \<Rightarrow>
        if ?c then Some (Ret MATCH_MATCH md)
        else Some (Cont (fr\<lparr>ecode := ecode fr + 1 + LINK_SIZE\<rparr>) md))"
    proof (cases r)
      case (Inr x)
      obtain md1 fr1 where x: "x = (md1, fr1)" by (cases x)
      have "\<not> alts_ok (\<lambda>_. False) ?K (start_code md) (ecode fr1)" by (auto dest: alts_ok_first)
      with p Inr x have "eptrb fr1 = eptrb fr" "rdepth fr1 = rdepth fr" "ecode fr < ecode fr1" "K (ecode fr1)"
        by (auto simp: alt_at_def)
      with assms(3) Inr x show ?thesis by (auto simp: at_ok_def)
    qed (auto split: prod.split)
  qed
qed

lemma call_safe_branch:
  assumes "ctx T d md fr" "step_law md md1"
    "branch_at T (start_code md) (length (eptrb fr) + (if cbe then 1 else 0)) (ecode fr)"
    and "\<And>rrc md'. ret_law md rrc md' \<Longrightarrow> (rrc \<noteq> PCRE_ERROR_MATCHLIMIT \<Longrightarrow> calls_left md' < calls_left md) \<Longrightarrow>
      returns P (k rrc md')"
  shows "returns P (RMATCH rm (set_cbegroup cbe md1) (after_op md1 fr) \<bind> case_prod k)"
  using assms(1)
proof (rule call_safe)
  show "step_law md (set_cbegroup cbe md1)" using assms(2) by simp
  show "fr_ok (set_cbegroup cbe md1) (after_op md1 fr)"
    using fr_ok_step [OF assms(2) ctx_D(2) [OF assms(1)]] by simp
  have "op_at md1 = op_at md" using assms(2) by (rule step_law_op)
  then show "call_ok T (set_cbegroup cbe md1) (after_op md1 fr)"
    using assms(3) by (auto simp: call_ok_def set_cbegroup_def after_op_def op_at_def intro: flows_mono)
  show "rdepth (after_op md1 fr) = rdepth fr" by (simp add: after_op_def)
qed (use assms in auto)

lemma cbra_loop_safe:
  assumes "ctx T d md fr"
    "alts_ok (branch_at T (start_code md) (length (eptrb fr) + (if op \<ge> OP_SBRA then 1 else 0))) K (start_code md) (ecode fr)"
  shows "returns (\<lambda>_. True) (cbra_loop rm op cl sm md fr)"
  using assms
proof (induction "calls_left md" arbitrary: md fr rule: less_induct)
  case less
  show ?case
    unfolding cbra_loop.simps [of rm op cl sm md]
  proof (rule call_safe_branch [OF less.prems(1) ctx_refl [OF less.prems(1)] alts_ok_first [OF less.prems(2)]])
    fix rrc md'
    assume l: "ret_law md rrc md'" and c: "rrc \<noteq> PCRE_ERROR_MATCHLIMIT \<Longrightarrow> calls_left md' < calls_left md"
    let ?n = "ecode fr + GET (start_code md) (ecode fr) 1"
    let ?md = "md'\<lparr>capture_last := cl, mark := sm\<rparr>"
    have code: "start_code md' = start_code md" using l by (rule ret_law_code)
    have again: "returns (\<lambda>_. True) (cbra_loop rm op cl sm ?md (fr\<lparr>ecode := ?n\<rparr>))"
      if "then_in_branch md' (ecode fr) rrc = MATCH_NOMATCH" "opc (start_code md) ?n = OP_ALT"
      using failed_again [OF that(1) l c] less.hyps [of ?md "fr\<lparr>ecode := ?n\<rparr>"]
        ctx_step [OF less.prems(1), of ?md] alts_ok_next [OF less.prems(2) that(2)] code
      by (simp add: calls_left_def)
    show "returns (\<lambda>_. True)
     (if rrc = MATCH_ONCE then Some (Inr (rrc, md'))
      else let rrc = then_in_branch md' (ecode fr) rrc in
        if rrc \<noteq> MATCH_NOMATCH then Some (Inl (rrc, md'))
        else let md = md'\<lparr>capture_last := cl\<rparr>; fr = fr\<lparr>ecode := ecode fr + link_at md (ecode fr) 1\<rparr>;
            md = md\<lparr>mark := sm\<rparr>
          in if op_at md (ecode fr) \<noteq> OP_ALT then Some (Inr (rrc, md)) else cbra_loop rm op cl sm md fr)"
      using again code by (auto simp: Let_def op_at_def link_at_def)
  qed
qed

lemma bra_loop_safe:
  assumes "ctx T d md fr" "rdepth fr0 = rdepth fr"
    "alts_ok (branch_at T (start_code md) (length (eptrb fr) + (if op \<ge> OP_SBRA \<or> op = OP_ONCE then 1 else 0)))
      K (start_code md) (ecode fr)"
  shows "safe T fr0 (bra_loop rm op md fr)"
  using assms
proof (induction "calls_left md" arbitrary: md fr rule: less_induct)
  case less
  let ?s = "op \<ge> OP_SBRA \<or> op = OP_ONCE"
  show ?case
  proof (cases "\<not> ?s \<and> \<not> hasthen md \<and> op_at md (ecode fr + link_at md (ecode fr) 1) \<noteq> OP_ALT")
    case True
    with alts_ok_first [OF less.prems(3)] less.prems(2) show ?thesis
      by (subst bra_loop.simps) (simp add: after_op_def op_at_def at_ok_def)
  next
    case False
    show ?thesis
      unfolding bra_loop.simps [of rm op md] if_not_P [OF False] Let_def
    proof (rule call_safe_branch [OF less.prems(1) _ alts_ok_first [OF less.prems(3)], of "set_cbegroup ?s md", unfolded set_cbegroup_twice])
      fix rrc md'
      assume l: "ret_law md rrc md'" and c: "rrc \<noteq> PCRE_ERROR_MATCHLIMIT \<Longrightarrow> calls_left md' < calls_left md"
      let ?n = "ecode fr + GET (start_code md) (ecode fr) 1"
      let ?md = "md'\<lparr>mark := mark (set_cbegroup ?s md), capture_last := capture_last (set_cbegroup ?s md)\<rparr>"
      have code: "start_code md' = start_code md" using l by (rule ret_law_code)
      have again: "safe T fr0 (bra_loop rm op ?md (fr\<lparr>ecode := ?n\<rparr>))"
        if "then_in_branch md' (ecode fr) rrc = MATCH_NOMATCH" "opc (start_code md) ?n = OP_ALT"
        using failed_again [OF that(1) l c] less.hyps [of ?md "fr\<lparr>ecode := ?n\<rparr>"] less.prems(2)
          ctx_step [OF less.prems(1), of ?md] alts_ok_next [OF less.prems(3) that(2)] code
        by (simp add: calls_left_def)
      have "returns (\<lambda>_. True) (once_start md' (ecode fr))"
        using alts_ok_ket [OF less.prems(3)] code by (auto simp: once_start_def op_at_def)
      then show "safe T fr0
       (if then_in_branch md' (ecode fr) rrc \<noteq> MATCH_NOMATCH then
          if then_in_branch md' (ecode fr) rrc = MATCH_ONCE then
            once_start md' (ecode fr) \<bind> (\<lambda>scode. Some (Ret (if once_target md' = Some scode then MATCH_NOMATCH
              else then_in_branch md' (ecode fr) rrc) md'))
          else Some (Ret (then_in_branch md' (ecode fr) rrc) md')
        else if op_at (md'\<lparr>mark := mark (set_cbegroup ?s md)\<rparr>) (ecode (fr\<lparr>ecode := ecode fr + link_at md' (ecode fr) 1\<rparr>)) \<noteq> OP_ALT
          then Some (Ret MATCH_NOMATCH (md'\<lparr>mark := mark (set_cbegroup ?s md)\<rparr>))
          else bra_loop rm op ?md (fr\<lparr>ecode := ecode fr + link_at md' (ecode fr) 1\<rparr>))"
        using again code by (auto simp: op_at_def link_at_def returns_def)
    qed (use ctx_refl [OF less.prems(1)] in simp)
  qed
qed

lemma BRA_safe:
  assumes "ctx T d md fr" "op_at md (ecode fr) \<in> {OP_CBRA, OP_SCBRA, OP_BRA, OP_SBRA, OP_ONCE}"
    "group_ok T (start_code md) (ecode fr) (length (eptrb fr)) K"
  shows "safe T fr (case_BRA rm md fr)"
  unfolding case_BRA_def
  by (rule bra_loop_safe [OF assms(1) refl])
    (use assms(2,3) in \<open>simp add: group_ok_def saves_def op_at_def\<close>)

lemma CBRA_safe:
  assumes "ctx T d md fr" "op_at md (ecode fr) \<in> {OP_CBRA, OP_SCBRA}"
    "group_ok T (start_code md) (ecode fr) (length (eptrb fr)) K"
  shows "safe T fr (case_CBRA rm md fr)"
proof -
  let ?n = "GET2 (start_code md) (ecode fr) (1 + LINK_SIZE)"
  let ?md = "set_ov (offset_end md - ?n) (int (eptr fr)) md"
  have s: "step_law md ?md" by (rule set_slot_law [OF ctx_D(1,2) [OF assms(1)]])
  have a: "alts_ok (branch_at T (start_code ?md)
      (length (eptrb fr) + (if op_at md (ecode fr) \<ge> OP_SBRA then 1 else 0))) K (start_code ?md) (ecode fr)"
    using assms(2,3) by (auto simp: group_ok_def saves_def op_at_def set_ov_def)
  have "safe T fr (cbra_loop rm (op_at md (ecode fr)) (capture_last md) (mark md) ?md fr \<bind> (\<lambda>r.
      case r of Inl (rrc, md) \<Rightarrow> Some (Ret rrc md)
      | Inr (rrc, md') \<Rightarrow> Some (Ret rrc (restore_slots ?n (saved_slots ?n md) md'))))"
    by (rule returns_bind [OF cbra_loop_safe [OF ctx_step [OF assms(1) s] a]]) (auto split: sum.split)
  moreover have "safe T fr (case_BRA rm md fr)"
    using assms(1) _ assms(3) by (rule BRA_safe) (use assms(2) in auto)
  ultimately show ?thesis
    unfolding case_CBRA_def Let_def
    by (cases "2 * ?n < offset_max md") (simp_all only: if_True if_False)
qed

text \<open>
  The loop over the iterations of a possessive group ends because every iteration makes a call,
  and a call beyond \<open>match_limit\<close> ends the match.
\<close>

lemma brapos_loop_safe:
  assumes "ctx T d md fr" "start \<le> ecode fr"
    and "alts_ok (branch_at T (start_code md) (length (eptrb fr) + (if op \<ge> OP_SBRA then 1 else 0))) K (start_code md) (ecode fr)"
    and "alts_ok (branch_at T (start_code md) (length (eptrb fr) + (if op \<ge> OP_SBRA then 1 else 0))) K (start_code md) start"
  shows "returns (left_pos K fr start) (brapos_loop rm op start cl once md fr)"
  using assms
proof (induction "calls_left md" arbitrary: cl once md fr rule: less_induct)
  case less
  let ?A = "branch_at T (start_code md) (length (eptrb fr) + (if op \<ge> OP_SBRA then 1 else 0))"
  from alts_ok_ket [OF less.prems(4)] obtain k where k: "skip_alts (start_code md) start = Some k" "start < k" "K k"
    by blast
  show ?case
    unfolding brapos_loop.simps [of rm op start cl once md]
  proof (rule call_safe_branch [OF less.prems(1) ctx_refl [OF less.prems(1)] alts_ok_first [OF less.prems(3)]])
    fix rrc md'
    assume l: "ret_law md rrc md'" and c: "rrc \<noteq> PCRE_ERROR_MATCHLIMIT \<Longrightarrow> calls_left md' < calls_left md"
    let ?n = "ecode fr + GET (start_code md) (ecode fr) 1"
    let ?fr = "fr\<lparr>offset_top := end_offset_top md', ecode := start, mstart := start_match_ptr md'\<rparr>"
    have code: "start_code md' = start_code md" using l by (rule ret_law_code)
    have round: "returns (left_pos K fr start) (brapos_loop rm op start cl True md' (?fr\<lparr>eptr := end_match_ptr md'\<rparr>))"
      if "rrc = MATCH_KETRPOS"
    proof -
      have s: "step_law md md'" using l that by simp
      have "ctx T d md' (?fr\<lparr>eptr := end_match_ptr md'\<rparr>)"
        using ctx_step [OF less.prems(1) s] matched_end [OF s] by (simp add: ctx_def)
      with less.hyps [of md' "?fr\<lparr>eptr := end_match_ptr md'\<rparr>"] c that less.prems(4) code show ?thesis
        by simp
    qed
    have again: "returns (left_pos K fr start)
        (brapos_loop rm op start cl once (md'\<lparr>capture_last := cl\<rparr>) (fr\<lparr>ecode := ?n\<rparr>))"
      if "then_in_branch md' (ecode fr) rrc = MATCH_NOMATCH" "opc (start_code md) ?n = OP_ALT"
      using failed_again [OF that(1) l c] less.hyps [of "md'\<lparr>capture_last := cl\<rparr>" "fr\<lparr>ecode := ?n\<rparr>"] less.prems(2,4)
        ctx_step [OF less.prems(1), of "md'\<lparr>capture_last := cl\<rparr>"] alts_ok_next [OF less.prems(3) that(2)] code
      by (simp add: calls_left_def)
    have last: "start < ?n" "opc (start_code md) ?n \<noteq> OP_ALT \<Longrightarrow> K ?n"
      using alts_ok_last [OF less.prems(3)] alts_ok_less [OF less.prems(3)] less.prems(2) by auto
    show "returns (left_pos K fr start)
     (if rrc = MATCH_KETRPOS then
        let fr' = ?fr in
        if eptr fr = end_match_ptr md' then
          skip_alts (start_code md') start \<bind> (\<lambda>ket. Some (Inr (True, md', fr'\<lparr>ecode := ket\<rparr>)))
        else brapos_loop rm op start cl True md' (fr'\<lparr>eptr := end_match_ptr md'\<rparr>)
      else let rrc = then_in_branch md' (ecode fr) rrc in
        if rrc \<noteq> MATCH_NOMATCH then Some (Inl (rrc, md'))
        else let fr = fr\<lparr>ecode := ecode fr + link_at md' (ecode fr) 1\<rparr> in
          if op_at md' (ecode fr) \<noteq> OP_ALT then Some (Inr (once, md', fr))
          else brapos_loop rm op start cl once (md'\<lparr>capture_last := cl\<rparr>) fr)"
      using round again last k code by (auto simp: Let_def op_at_def link_at_def)
  qed
qed

lemma cbrapos_loop_safe:
  assumes "ctx T d md fr" "start \<le> ecode fr"
    and "alts_ok (branch_at T (start_code md) (length (eptrb fr) + (if op \<ge> OP_SBRA then 1 else 0))) K (start_code md) (ecode fr)"
    and "alts_ok (branch_at T (start_code md) (length (eptrb fr) + (if op \<ge> OP_SBRA then 1 else 0))) K (start_code md) start"
  shows "returns (left_pos K fr start) (cbrapos_loop rm op number start cl once md fr)"
  using assms
proof (induction "calls_left md" arbitrary: cl once md fr rule: less_induct)
  case less
  let ?md0 = "set_ov (offset_end md - number) (int (eptr fr)) md"
  have s0: "step_law md ?md0" by (rule set_slot_law [OF ctx_D(1,2) [OF less.prems(1)]])
  from alts_ok_ket [OF less.prems(4)] obtain k where k: "skip_alts (start_code md) start = Some k" "start < k" "K k"
    by blast
  show ?case
    unfolding cbrapos_loop.simps [of rm op number start cl once md] Let_def
  proof (rule call_safe_branch [OF less.prems(1) s0 alts_ok_first [OF less.prems(3)]])
    fix rrc md'
    assume l: "ret_law md rrc md'" and c: "rrc \<noteq> PCRE_ERROR_MATCHLIMIT \<Longrightarrow> calls_left md' < calls_left md"
    let ?n = "ecode fr + GET (start_code md) (ecode fr) 1"
    let ?fr = "fr\<lparr>offset_top := end_offset_top md', ecode := start, mstart := start_match_ptr md'\<rparr>"
    have code: "start_code md' = start_code md" using l by (rule ret_law_code)
    have round: "returns (left_pos K fr start)
        (cbrapos_loop rm op number start (capture_last md') True md' (?fr\<lparr>eptr := end_match_ptr md'\<rparr>))"
      if "rrc = MATCH_KETRPOS"
    proof -
      have s: "step_law md md'" using l that by simp
      have "ctx T d md' (?fr\<lparr>eptr := end_match_ptr md'\<rparr>)"
        using ctx_step [OF less.prems(1) s] matched_end [OF s] by (simp add: ctx_def)
      with less.hyps [of md' "?fr\<lparr>eptr := end_match_ptr md'\<rparr>"] c that less.prems(4) code show ?thesis
        by simp
    qed
    have again: "returns (left_pos K fr start)
        (cbrapos_loop rm op number start cl once (md'\<lparr>capture_last := cl\<rparr>) (fr\<lparr>ecode := ?n\<rparr>))"
      if "then_in_branch md' (ecode fr) rrc = MATCH_NOMATCH" "opc (start_code md) ?n = OP_ALT"
      using failed_again [OF that(1) l c] less.hyps [of "md'\<lparr>capture_last := cl\<rparr>" "fr\<lparr>ecode := ?n\<rparr>"] less.prems(2,4)
        ctx_step [OF less.prems(1), of "md'\<lparr>capture_last := cl\<rparr>"] alts_ok_next [OF less.prems(3) that(2)] code
      by (simp add: calls_left_def)
    have last: "start < ?n" "opc (start_code md) ?n \<noteq> OP_ALT \<Longrightarrow> K ?n"
      using alts_ok_last [OF less.prems(3)] alts_ok_less [OF less.prems(3)] less.prems(2) by auto
    show "returns (left_pos K fr start)
     (if rrc = MATCH_KETRPOS then
        if eptr fr = end_match_ptr md' then
          skip_alts (start_code md') start \<bind> (\<lambda>ket. Some (Inr (True, md', ?fr\<lparr>ecode := ket\<rparr>)))
        else cbrapos_loop rm op number start (capture_last md') True md' (?fr\<lparr>eptr := end_match_ptr md'\<rparr>)
      else if then_in_branch md' (ecode fr) rrc \<noteq> MATCH_NOMATCH then Some (Inl (then_in_branch md' (ecode fr) rrc, md'))
      else if op_at (md'\<lparr>capture_last := cl\<rparr>) (ecode (fr\<lparr>ecode := ecode fr + link_at (md'\<lparr>capture_last := cl\<rparr>) (ecode fr) 1\<rparr>)) \<noteq> OP_ALT
      then Some (Inr (once, md'\<lparr>capture_last := cl\<rparr>, fr\<lparr>ecode := ecode fr + link_at (md'\<lparr>capture_last := cl\<rparr>) (ecode fr) 1\<rparr>))
      else cbrapos_loop rm op number start cl once (md'\<lparr>capture_last := cl\<rparr>)
        (fr\<lparr>ecode := ecode fr + link_at (md'\<lparr>capture_last := cl\<rparr>) (ecode fr) 1\<rparr>))"
      using round again last k code by (auto simp: op_at_def link_at_def)
  qed
qed

lemma left_pos_goes:
  assumes "left_pos (\<lambda>k. flows T (length (eptrb fr)) (k + 1 + LINK_SIZE)) fr0 start r"
    "eptrb fr0 = eptrb fr" "rdepth fr0 = rdepth fr" "ecode fr \<le> start"
    and "\<And>once md' fr' c. k once md' fr' = Some c \<Longrightarrow>
      (\<exists>rrc m. c = Ret rrc m) \<or> (\<exists>m. c = Cont (fr'\<lparr>ecode := ecode fr' + 1 + LINK_SIZE\<rparr>) m)"
    and "\<And>once md' fr'. k once md' fr' \<noteq> None"
  shows "safe T fr (case r of Inl (rrc, md) \<Rightarrow> Some (Ret rrc md) | Inr (once, md', fr') \<Rightarrow> k once md' fr')"
proof (cases r)
  case (Inr x)
  obtain once md' fr' where x: "x = (once, md', fr')" by (cases x)
  obtain c where c: "k once md' fr' = Some c" using assms(6) by blast
  from assms(1-4) assms(5) [OF c] c Inr x show ?thesis by (auto simp: at_ok_def)
qed (auto split: prod.split)

lemma possessive_non_capture_safe:
  assumes "ctx T d md fr" "rdepth fr0 = rdepth fr" "eptrb fr0 = eptrb fr" "ecode fr0 \<le> ecode fr"
    "op = opc (start_code md) (ecode fr)" "op \<in> {OP_CBRAPOS, OP_SCBRAPOS, OP_BRAPOS, OP_SBRAPOS}"
    "group_ok T (start_code md) (ecode fr) (length (eptrb fr)) (\<lambda>k. flows T (length (eptrb fr)) (k + 1 + LINK_SIZE))"
  shows "safe T fr0 (possessive_non_capture rm z op md fr)"
proof -
  have a: "alts_ok (branch_at T (start_code md) (length (eptrb fr) + (if op \<ge> OP_SBRA then 1 else 0)))
      (\<lambda>k. flows T (length (eptrb fr0)) (k + 1 + LINK_SIZE)) (start_code md) (ecode fr)"
    using assms(3,5-7) by (auto simp: group_ok_def saves_def)
  show ?thesis
    unfolding possessive_non_capture_def
    by (rule returns_bind [OF brapos_loop_safe [OF assms(1) order_refl a a]], rule left_pos_goes)
      (use assms(2-4) in \<open>auto split: if_splits\<close>)
qed

lemma possessive_capture_safe:
  assumes "ctx T d md fr" "rdepth fr0 = rdepth fr" "eptrb fr0 = eptrb fr" "ecode fr0 \<le> ecode fr"
    "op = opc (start_code md) (ecode fr)" "op \<in> {OP_CBRAPOS, OP_SCBRAPOS, OP_BRAPOS, OP_SBRAPOS}"
    "group_ok T (start_code md) (ecode fr) (length (eptrb fr)) (\<lambda>k. flows T (length (eptrb fr)) (k + 1 + LINK_SIZE))"
  shows "safe T fr0 (possessive_capture rm z op md fr)"
proof -
  have a: "alts_ok (branch_at T (start_code md) (length (eptrb fr) + (if op \<ge> OP_SBRA then 1 else 0)))
      (\<lambda>k. flows T (length (eptrb fr0)) (k + 1 + LINK_SIZE)) (start_code md) (ecode fr)"
    using assms(3,5-7) by (auto simp: group_ok_def saves_def)
  show ?thesis
  proof (cases "2 * GET2 (start_code md) (ecode fr) (1 + LINK_SIZE) \<ge> offset_max md")
    case True
    with possessive_non_capture_safe [OF assms] show ?thesis by (simp add: possessive_capture_def)
  next
    case False
    show ?thesis
      unfolding possessive_capture_def Let_def if_not_P [OF False]
      by (rule returns_bind [OF cbrapos_loop_safe [OF assms(1) order_refl a a]], rule left_pos_goes)
        (use assms(2-4) in \<open>auto split: if_splits\<close>)
  qed
qed

lemma BRAPOSZERO_safe:
  assumes "ctx T d md fr" "opc (start_code md) (ecode fr + 1) \<in> {OP_CBRAPOS, OP_SCBRAPOS, OP_BRAPOS, OP_SBRAPOS}"
    "group_ok T (start_code md) (ecode fr + 1) (length (eptrb fr)) (\<lambda>k. flows T (length (eptrb fr)) (k + 1 + LINK_SIZE))"
  shows "safe T fr (case_BRAPOSZERO rm md fr)"
  using possessive_capture_safe [of md "fr\<lparr>ecode := ecode fr + 1\<rparr>" fr]
    possessive_non_capture_safe [of md "fr\<lparr>ecode := ecode fr + 1\<rparr>" fr] assms
  by (auto simp: case_BRAPOSZERO_def Let_def op_at_def)

text \<open>Conditional groups.\<close>

lemma cond_branch_safe:
  assumes "ctx T d md fr" "rdepth fr0 = rdepth fr" "ecode fr0 < ecode fr"
    and "flows T (if c \<or> op_at md (ecode fr - (1 + LINK_SIZE)) = OP_ALT
      then branch_depth op (length (eptrb fr)) else length (eptrb fr)) (ecode fr)"
  shows "safe T fr0 (cond_branch rm op c md fr)"
proof (cases "(c \<or> op_at md (ecode fr - (1 + LINK_SIZE)) = OP_ALT) \<and> op = OP_SCOND")
  case True
  have "safe T fr0 (RMATCH rm (md\<lparr>match_function_type := MATCH_CBEGROUP\<rparr>) fr \<bind> (\<lambda>(rrc, md). Some (Ret rrc md)))"
    using assms(1)
    by (rule call_safe)
      (use assms True ctx_refl [OF assms(1)] ctx_D(2) [OF assms(1)] in
        \<open>simp_all add: call_ok_def branch_depth_def\<close>)
  with True show ?thesis by (auto simp: cond_branch_def)
next
  case False
  with assms show ?thesis
    by (auto simp: cond_branch_def at_ok_def branch_depth_def split: if_splits)
qed

lemma cond_test_safe:
  assumes "ctx T d md fr" "rdepth fr0 = rdepth fr" "ecode fr0 < ec" "ecode fr0 < second"
    and "flows T (if opc (start_code md) (second - (1 + LINK_SIZE)) = OP_ALT
      then branch_depth op (length (eptrb fr)) else length (eptrb fr)) second"
    and "if opc (start_code md) ec \<in> {OP_RREF, OP_DNRREF, OP_CREF, OP_DNCREF, OP_DEF, OP_FAIL}
      then flows T (branch_depth op (length (eptrb fr))) (ec + op_length (opc (start_code md) ec))
      else assertion_ok T (start_code md) ec (\<lambda>k. flows T (branch_depth op (length (eptrb fr))) (k + 1 + LINK_SIZE))"
  shows "safe T fr0 (cond_test rm op ec second md fr)"
proof (cases "op_at md ec \<in> {OP_RREF, OP_DNRREF, OP_CREF, OP_DNCREF, OP_DEF, OP_FAIL}")
  case True
  let ?c = "simple_condition md (offset_top fr) ec"
  from True assms(6) have y: "flows T (branch_depth op (length (eptrb fr))) (ec + op_length (op_at md ec))"
    by (simp add: op_at_def)
  show ?thesis
    unfolding cond_test_def Let_def if_P [OF True]
    by (rule cond_branch_safe) (use assms(1-5) y in \<open>auto simp: op_at_def split: if_splits\<close>)
next
  case False
  let ?K = "\<lambda>k. flows T (branch_depth op (length (eptrb fr))) (k + 1 + LINK_SIZE)"
  from False assms(6) have a: "assertion_ok T (start_code md) ec ?K"
    unfolding op_at_def by (simp only: if_False)
  then have nz: "op_at md ec \<noteq> OP_BRAZERO" by (auto simp: assertion_ok_def op_at_def)
  have "alts_ok (\<lambda>q. flows T 0 (q + 1 + LINK_SIZE)) (\<lambda>k. opc (start_code md) k = OP_KET \<and> ?K k) (start_code md) ec"
    using a by (simp add: assertion_ok_def)
  from alts_ok_ket [OF this] obtain k where k: "skip_alts (start_code md) ec = Some k" "ec < k" "?K k" by blast
  show ?thesis
    unfolding cond_test_def Let_def if_not_P [OF False]
  proof (rule call_safe [OF assms(1)])
    show "call_ok T (md\<lparr>match_function_type := MATCH_CONDASSERT\<rparr>) (fr\<lparr>ecode := ec, eptrb := []\<rparr>)"
      using assertion_ok_mono [OF a] by (simp add: call_ok_def)
    fix rrc md'
    assume l: "ret_law md rrc md'"
    have code: "start_code md' = start_code md" using l by (rule ret_law_code)
    then have op: "op_at md' = op_at md" by (simp add: op_at_def fun_eq_iff)
    have T: "safe T fr0 (cond_branch rm op True md' (fr\<lparr>ecode := k + 1 + LINK_SIZE, offset_top := otop\<rparr>))"
      if "rrc = MATCH_MATCH" for otop
      using assms(1-3) ctx_step [OF assms(1), of md'] l that k by (intro cond_branch_safe) simp_all
    have F: "safe T fr0 (cond_branch rm op False md' (fr\<lparr>ecode := second\<rparr>))"
      if "rrc = MATCH_NOMATCH \<or> rrc = MATCH_THEN"
      using assms(1,2,4,5) ctx_step [OF assms(1), of md'] l that code
      by (intro cond_branch_safe) (auto simp: op_at_def)
    show "safe T fr0 (if rrc = MATCH_MATCH then
        skip_alts (start_code md') (if op_at md' ec = OP_BRAZERO then ec + 1 else ec) \<bind> (\<lambda>ket.
          cond_branch rm op True md' (fr\<lparr>ecode := ket + 1 + LINK_SIZE,
            offset_top := if end_offset_top md' > offset_top fr then end_offset_top md' else offset_top fr\<rparr>))
      else if rrc \<noteq> MATCH_NOMATCH \<and> rrc \<noteq> MATCH_THEN then Some (Ret rrc md')
      else cond_branch rm op False md' (fr\<lparr>ecode := second\<rparr>))"
      using T F nz k(1) code op by simp
  qed (use ctx_refl [OF assms(1)] ctx_D(2) [OF assms(1)] in simp_all)
qed

lemma COND_safe:
  assumes "ctx T d md fr" "cond_ok T (start_code md) (ecode fr) (length (eptrb fr))"
    "op_at md (ecode fr) = OP_COND \<or> op_at md (ecode fr) = OP_SCOND"
  shows "safe T fr (case_COND rm md fr)"
proof -
  let ?ec = "ecode fr + 1 + LINK_SIZE"
  let ?second = "?ec + link_at md (ecode fr) 1"
  have t: "safe T fr (cond_test rm (op_at md (ecode fr)) (if op_at md ?ec = OP_CALLOUT then ?ec + op_length OP_CALLOUT else ?ec)
      ?second md fr)"
    using assms(1) refl
    by (rule cond_test_safe)
      (use assms(2) in \<open>auto simp: cond_ok_def Let_def op_at_def link_at_def simp del: One_nat_def\<close>)
  then show ?thesis
    by (cases "op_at md ?ec = OP_CALLOUT") (simp_all add: case_COND_def Let_def)
qed

text \<open>Recursion.\<close>

lemma recurse_loop_safe:
  assumes "ctx T d md fr" "rdepth fr0 = rdepth fr" "ecode fr0 < ecode fr"
    "flows T (length (eptrb fr)) (ecode fr)" "offsets_ok (end_subject md) (offset_save ri)"
    "alts_ok (branch_at T (start_code md) (length (eptrb fr) + (if cbe then 1 else 0))) K (start_code md) callpat"
  shows "safe T fr0 (recurse_loop rm cbe ri prevrec callpat md fr)"
  using assms
proof (induction "calls_left md" arbitrary: md callpat rule: less_induct)
  case less
  let ?q = "callpat + op_length (op_at md callpat)"
  have f: "flows T (length (eptrb fr) + (if cbe then 1 else 0)) ?q"
    using alts_ok_first [OF less.prems(6)] by (simp add: op_at_def)
  show ?case
    unfolding recurse_loop.simps [of rm cbe ri prevrec callpat md]
  proof (rule call_safe [OF less.prems(1)])
    fix rrc md'
    assume l: "ret_law md rrc md'" and c: "rrc \<noteq> PCRE_ERROR_MATCHLIMIT \<Longrightarrow> calls_left md' < calls_left md"
    let ?md = "restore_recursion ri prevrec md'"
    have code: "start_code ?md = start_code md" using ret_law_code [OF l] by (simp add: restore_recursion_def)
    have m: "md_ok ?md" using ctx_D(1) [OF ctx_restore [OF less.prems(1) l less.prems(5), of prevrec r for r]] by simp
    have e: "end_subject ?md = end_subject md" using ret_law_end [OF l] by (simp add: restore_recursion_def)
    have again: "safe T fr0 (recurse_loop rm cbe ri prevrec (callpat + GET (start_code md) callpat 1)
        (?md\<lparr>recursive := ri # prevrec\<rparr>) fr)"
      if "rrc = MATCH_NOMATCH" "opc (start_code md) (callpat + GET (start_code md) callpat 1) = OP_ALT"
    proof (rule less.hyps)
      show "calls_left (?md\<lparr>recursive := ri # prevrec\<rparr>) < calls_left md"
        using c that(1) by (simp add: calls_left_def restore_recursion_def)
      show "ctx T d (?md\<lparr>recursive := ri # prevrec\<rparr>) fr"
        by (rule ctx_restore [OF less.prems(1) l less.prems(5)])
      show "alts_ok (branch_at T (start_code (?md\<lparr>recursive := ri # prevrec\<rparr>)) (length (eptrb fr) + (if cbe then 1 else 0)))
          K (start_code (?md\<lparr>recursive := ri # prevrec\<rparr>)) (callpat + GET (start_code md) callpat 1)"
        using alts_ok_next [OF less.prems(6) that(2)] code by simp
    qed (use less.prems e in simp_all)
    show "safe T fr0
     (let md = ?md in
      if rrc = MATCH_MATCH \<or> rrc = MATCH_ACCEPT
      then Some (Cont (fr\<lparr>eptr := end_match_ptr md, mstart := start_match_ptr md\<rparr>) md)
      else if MATCH_BACKTRACK_MIN \<le> rrc \<and> rrc \<le> MATCH_BACKTRACK_MAX then Some (Ret MATCH_NOMATCH md)
      else if rrc \<noteq> MATCH_NOMATCH then Some (Ret rrc md)
      else let md = md\<lparr>recursive := ri # prevrec\<rparr>; callpat = callpat + link_at md callpat 1
        in if op_at md callpat = OP_ALT then recurse_loop rm cbe ri prevrec callpat md fr
           else Some (Ret MATCH_NOMATCH (md\<lparr>recursive := prevrec\<rparr>)))"
      using again less.prems(2-4) code by (auto simp: Let_def op_at_def link_at_def at_ok_def)
  next
    show "call_ok T (set_cbegroup cbe md) (fr\<lparr>ecode := ?q\<rparr>)"
      using f by (auto simp: call_ok_def set_cbegroup_def intro: flows_mono)
  qed (use ctx_refl [OF less.prems(1)] ctx_D(2) [OF less.prems(1)] in simp_all)
qed

lemma RECURSE_safe:
  assumes "ctx T d md fr" "flows T (length (eptrb fr)) (ecode fr + 1 + LINK_SIZE)"
    "opc (start_code md) (GET (start_code md) (ecode fr) 1) \<noteq> OP_ONCE"
    "group_ok T (start_code md) (GET (start_code md) (ecode fr) 1) (length (eptrb fr)) K"
  shows "safe T fr (case_RECURSE rm md fr)"
proof -
  let ?c = "GET (start_code md) (ecode fr) 1"
  have "safe T fr (recurse_loop rm (op_at (md\<lparr>recursive := r\<rparr>) ?c \<ge> OP_SBRA) ri p ?c (md\<lparr>recursive := r\<rparr>)
      (fr\<lparr>ecode := ecode fr + 1 + LINK_SIZE\<rparr>))" if "offset_save ri = offset_vector md" for r ri p
    by (rule recurse_loop_safe [where K = K])
      (use assms that in \<open>auto simp: ctx_def md_ok_def subject_ok_def group_ok_def saves_def op_at_def\<close>)
  then show ?thesis
    by (simp add: case_RECURSE_def Let_def link_at_def)
qed

text \<open>Optional groups.\<close>

lemma zero_safe:
  assumes "ctx T d md fr" "flows T (length (eptrb fr)) (ecode fr + 1)"
    "alts_ok P (\<lambda>k. flows T (length (eptrb fr)) (k + 1 + LINK_SIZE)) (start_code md) (ecode fr + 1)"
  shows "safe T fr (case_BRAZERO rm md fr)" "safe T fr (case_BRAMINZERO rm md fr)"
proof -
  from alts_ok_ket [OF assms(3)] obtain k where k: "skip_alts (start_code md) (ecode fr + 1) = Some k"
    "ecode fr + 1 < k" "flows T (length (eptrb fr)) (k + 1 + LINK_SIZE)" by blast
  note e = ctx_bound [OF assms(1)] ctx_refl [OF assms(1)]
  show "safe T fr (case_BRAZERO rm md fr)"
    unfolding case_BRAZERO_def Let_def
  proof (rule call_safe_here [OF assms(1)])
    fix rrc md' assume "ret_law md rrc md'"
    then have "start_code md' = start_code md" by (rule ret_law_code)
    with k assms(2) show "safe T fr (if rrc \<noteq> MATCH_NOMATCH then Some (Ret rrc md')
      else skip_alts (start_code md') (ecode fr + 1) \<bind> (\<lambda>ket. Some (Cont (fr\<lparr>ecode := ket + 1 + LINK_SIZE\<rparr>) md')))"
      by simp
  qed (use assms e in simp_all)
  have "safe T fr (RMATCH rm md (fr\<lparr>ecode := k + 1 + LINK_SIZE\<rparr>) \<bind>
      (\<lambda>(rrc, md). Some (if rrc \<noteq> MATCH_NOMATCH then Ret rrc md else Cont (fr\<lparr>ecode := ecode fr + 1\<rparr>) md)))"
    by (rule call_safe_here [OF assms(1)]) (use assms k e in simp_all)
  with k(1) show "safe T fr (case_BRAMINZERO rm md fr)"
    by (simp add: case_BRAMINZERO_def)
qed

text \<open>Group ends.\<close>

lemma ket_repeat_safe:
  assumes "ctx T d md fr" "rdepth fr0 = rdepth fr" "ecode fr0 \<le> ecode fr"
    and "op_at md (ecode fr) = OP_KETRPOS \<or> flows T (length (eptrb fr)) (ecode fr + 1 + LINK_SIZE) \<and>
      (op_at md (ecode fr) = OP_KET \<or> flows T (length (eptrb fr)) prev)"
  shows "safe T fr0 (ket_repeat rm prev se md fr)"
proof (cases "op_at md (ecode fr) = OP_KETRPOS")
  case True
  then show ?thesis by (simp add: ket_repeat_def Let_def)
next
  case pos: False
  let ?op = "op_at md (ecode fr)"
  let ?again = "fr\<lparr>ecode := prev\<rparr>"
  define aft where "aft = fr\<lparr>ecode := ecode fr + 1 + LINK_SIZE\<rparr>"
  from pos assms(4) have a: "flows T (length (eptrb fr)) (ecode fr + 1 + LINK_SIZE)"
    and b: "?op \<noteq> OP_KET \<Longrightarrow> flows T (length (eptrb fr)) prev" by blast+
  have call_after: "safe T fr0 (RMATCH rm m aft \<bind> case_prod k)"
    if "step_law md m" "\<And>rrc md'. ret_law m rrc md' \<Longrightarrow> safe T fr0 (k rrc md')" for m k
    by (rule call_safe_here [OF ctx_step [OF assms(1) that(1)]])
      (use that a aft_def ctx_bound [OF ctx_step [OF assms(1) that(1)]] ctx_refl [OF ctx_step [OF assms(1) that(1)]] in simp_all)
  have call_back: "safe T fr0 (RMATCH rm m ?again \<bind> case_prod k)"
    if "?op \<noteq> OP_KET" "step_law md m" "\<And>rrc md'. ret_law m rrc md' \<Longrightarrow> safe T fr0 (k rrc md')" for m k
    by (rule call_safe_here [OF ctx_step [OF assms(1) that(2)]])
      (use that b ctx_bound [OF ctx_step [OF assms(1) that(2)]] ctx_refl [OF ctx_step [OF assms(1) that(2)]] in simp_all)
  have r: "step_law md md" using assms(1) by (rule ctx_refl)
  have go: "goes T fr0 (Cont aft m)" "goes T fr0 (Tail aft m)" "?op \<noteq> OP_KET \<Longrightarrow> goes T fr0 (Tail ?again m)" for m
    using assms(2,3) a b by (simp_all add: aft_def)
  consider "?op = OP_KET \<or> se = Some (eptr fr)" | "?op = OP_KETRMIN" "se \<noteq> Some (eptr fr)"
    | "?op \<noteq> OP_KET" "?op \<noteq> OP_KETRMIN" "se \<noteq> Some (eptr fr)" by blast
  then show ?thesis
  proof cases
    case 1
    then show ?thesis
      unfolding ket_repeat_def Let_def aft_def [symmetric] if_not_P [OF pos] if_P [OF 1]
      by (auto simp del: goes.simps(2) simp: go(1) intro!: call_after [OF r])
  next
    case 2
    then have n: "\<not> (?op = OP_KET \<or> se = Some (eptr fr))" "?op \<noteq> OP_KET" by simp_all
    show ?thesis
      unfolding ket_repeat_def Let_def aft_def [symmetric] if_not_P [OF pos] if_not_P [OF n(1)] if_P [OF 2(1)]
      by (rule call_after [OF r])
        (auto simp: go(3) [OF n(2)] simp del: goes.simps(3) intro!: call_back [OF n(2)])
  next
    case 3
    then have n: "\<not> (?op = OP_KET \<or> se = Some (eptr fr))" by simp
    show ?thesis
      unfolding ket_repeat_def Let_def aft_def [symmetric] if_not_P [OF pos] if_not_P [OF n] if_not_P [OF 3(2)]
      by (rule call_back [OF 3(1) r]) (auto simp: go(2) simp del: goes.simps(3) intro!: call_after)
  qed
qed

lemma ket_body_safe:
  assumes "ctx T d md fr" "rdepth fr0 = rdepth fr" "ecode fr0 \<le> ecode fr"
    and "(OP_ASSERT \<le> op_at md prev \<and> op_at md prev \<le> OP_ASSERTBACK_NOT) \<or> op_at md prev = OP_ONCE_NC \<or>
      op_at md (ecode fr) = OP_KETRPOS \<or> flows T (length (eptrb fr)) (ecode fr + 1 + LINK_SIZE) \<and>
      (op_at md (ecode fr) = OP_KET \<or> flows T (length (eptrb fr)) prev)"
  shows "safe T fr0 (ket_body rm prev se md fr)"
proof (cases "(OP_ASSERT \<le> op_at md prev \<and> op_at md prev \<le> OP_ASSERTBACK_NOT) \<or> op_at md prev = OP_ONCE_NC")
  case True
  then show ?thesis by (simp add: ket_body_def Let_def)
next
  case False
  then have f: "op_at md (ecode fr) = OP_KETRPOS \<or> flows T (length (eptrb fr)) (ecode fr + 1 + LINK_SIZE) \<and>
      (op_at md (ecode fr) = OP_KET \<or> flows T (length (eptrb fr)) prev)" using assms(4) by blast
  let ?n = "GET2 (start_code md) prev (1 + LINK_SIZE)"
  obtain md1 otop where c: "ket_capture ?n md fr = (md1, otop)" by fastforce
  have s: "step_law md md1" by (rule ket_capture_law [OF ctx_D(1,2) [OF assms(1)] c])
  have "safe T fr0 (ket_repeat rm prev se md1 (fr\<lparr>offset_top := otop\<rparr>))"
    using ctx_step [OF assms(1) s] assms(2,3) f step_law_op(1) [OF s] by (intro ket_repeat_safe) simp_all
  moreover have "safe T fr0 (ket_repeat rm prev se md fr)"
    using assms(1-3) f by (rule ket_repeat_safe)
  ultimately show ?thesis
    unfolding ket_body_def Let_def if_not_P [OF False] c prod.case by simp
qed

lemma KET_safe:
  assumes "ctx T d md fr" "ket_ok T (start_code md) (ecode fr) (length (eptrb fr))"
  shows "safe T fr (case_KET rm md fr)"
proof -
  let ?prev = "ecode fr - link_at md (ecode fr) 1"
  let ?s = "op_at md ?prev \<ge> OP_SBRA \<or> op_at md ?prev = OP_ONCE"
  show ?thesis
  proof (cases ?s)
    case True
    with assms(2) obtain saved chain where e: "eptrb fr = saved # chain"
      by (cases "eptrb fr") (auto simp: ket_ok_def Let_def saves_def op_at_def link_at_def)
    have "safe T fr (ket_body rm ?prev (Some saved) md (fr\<lparr>eptrb := chain\<rparr>))"
      by (rule ket_body_safe)
        (use assms True e in \<open>auto simp: ket_ok_def Let_def saves_def op_at_def link_at_def\<close>)
    with True e show ?thesis by (simp add: case_KET_def Let_def)
  next
    case False
    have "safe T fr (ket_body rm ?prev None md fr)"
      by (rule ket_body_safe)
        (use assms False in \<open>auto simp: ket_ok_def Let_def saves_def op_at_def link_at_def\<close>)
    with False show ?thesis by (simp add: case_KET_def Let_def)
  qed
qed

end

end
