(* ===== verification/ExecTotal.thy ===== *)
theory ExecTotal
  imports ExecSafe ExecProperties
begin

text \<open>
  Well-formed code does not get stuck, continued: the repeats, the dispatch, the main loop and the
  recursion. The result is that \<open>match()\<close> returns on every subject: it does not run off the code
  and it does not run for ever.
\<close>

subsection \<open>Loops over items\<close>

lemma min_loop_total: "(\<And>md e. stp md e \<noteq> None) \<Longrightarrow> rep_min_loop stp n md e \<noteq> None"
proof (induction n arbitrary: md e)
  case (Suc n)
  from Suc.prems [of md e] obtain r where "stp md e = Some r" by auto
  with Suc.IH [OF Suc.prems] show ?case by (auto split: step_result.split)
qed simp

lemma greedy_total: "(\<And>md e. stp md e \<noteq> None) \<Longrightarrow> rep_greedy stp i mx md e \<noteq> None"
proof (induction stp i mx md e rule: rep_greedy.induct)
  case (1 stp i mx md e)
  from "1.prems" [of md e] obtain r where r: "stp md e = Some r" by auto
  show ?case
    by (subst rep_greedy.simps, use "1.IH" [OF _ r] "1.prems" r in \<open>cases r\<close>) auto
qed

text \<open>A frame on its way from \<open>fr0\<close> in the same call.\<close>

definition on :: "typing \<Rightarrow> nat \<Rightarrow> frame \<Rightarrow> match_data \<Rightarrow> frame \<Rightarrow> bool" where
  "on T d fr0 md fr \<longleftrightarrow> ctx T d md fr \<and> rdepth fr = rdepth fr0 \<and> ecode fr0 < ecode fr \<and> at_ok T fr"

lemma on_step: "on T d fr0 md fr \<Longrightarrow> step_law md md' \<Longrightarrow> on T d fr0 md' fr"
  by (auto simp: on_def intro: ctx_step)

lemma on_eptr: "on T d fr0 md fr \<Longrightarrow> e \<le> end_subject md \<Longrightarrow> on T d fr0 md (fr\<lparr>eptr := e\<rparr>)"
  by (simp add: on_def ctx_eptr)

lemma on_move: "on T d fr0 md fr \<Longrightarrow> step_law md md' \<Longrightarrow> e \<le> end_subject md \<Longrightarrow> on T d fr0 md' (fr\<lparr>eptr := e\<rparr>)"
  by (rule on_eptr [OF on_step]) (simp_all add: step_law_end)

lemma on_goes: "on T d fr0 md fr \<Longrightarrow> goes T fr0 (Cont fr m)" "on T d fr0 md fr \<Longrightarrow> goes T fr0 (Tail fr m)"
  by (simp_all add: on_def)

lemma on_D: "on T d fr0 md fr \<Longrightarrow> md_ok md" "on T d fr0 md fr \<Longrightarrow> fr_ok md fr" "on T d fr0 md fr \<Longrightarrow> eptr fr \<le> end_subject md"
  by (simp_all add: on_def ctx_def fr_ok_def)

lemma on_moves: "ctx T d md fr \<Longrightarrow> moves T fr q \<Longrightarrow> on T d fr md (fr\<lparr>ecode := q\<rparr>)"
  by (simp add: on_def moves_def)

context total_matcher
begin

lemma on_try:
  assumes "on T d fr0 md fr" "\<And>md'. step_law md md' \<Longrightarrow> on T d fr0 md' fr \<Longrightarrow> safe T fr0 (k md')"
  shows "safe T fr0 (RMATCH rm md fr \<bind> (\<lambda>(rrc, md). if rrc \<noteq> MATCH_NOMATCH then Some (Ret rrc md) else k md))"
proof (rule call_safe)
  show "ctx T d md fr" "fr_ok md fr" "step_law md md" "call_ok T md fr"
    using assms(1) on_D(1,2) [OF assms(1)] by (simp_all add: on_def at_ok_call)
  show "safe T fr0 (if rrc \<noteq> MATCH_NOMATCH then Some (Ret rrc md') else k md')" if "ret_law md rrc md'" for rrc md'
    using that assms(2) [OF _ on_step [OF assms(1)]] by (cases "rrc = MATCH_NOMATCH") auto
qed simp

lemma lazy_safe:
  assumes "item_step stp" "\<And>md e. stp md e \<noteq> None"
  shows "on T d fr0 md fr \<Longrightarrow> safe T fr0 (rep_lazy rm stp i mx md fr)"
proof (induction "mx - i" arbitrary: i md fr)
  case 0
  then show ?case
    by (subst rep_lazy.simps) (auto intro: on_try)
next
  case (Suc n)
  show ?case
    unfolding rep_lazy.simps [of rm stp i]
  proof (rule on_try [OF Suc.prems])
    fix md' assume o: "on T d fr0 md' fr"
    from assms(2) [of md' "eptr fr"] obtain q where q: "stp md' (eptr fr) = Some q" by auto
    note l = item_step.step [OF assms(1) on_D(1,3) [OF o] q]
    have go: "safe T fr0 (rep_lazy rm stp (i + 1) mx m (fr\<lparr>eptr := e\<rparr>))"
      if "step_law md' m" "e \<le> end_subject md'" for m e
      using Suc.hyps on_move [OF o that] by simp
    show "safe T fr0 (if mx \<le> i then Some (Ret MATCH_NOMATCH md')
      else stp md' (eptr fr) \<bind> (\<lambda>r. case r of
          Adv md e \<Rightarrow> rep_lazy rm stp (i + 1) mx md (fr\<lparr>eptr := e\<rparr>)
        | Last md e \<Rightarrow> rep_lazy rm stp (i + 1) mx md (fr\<lparr>eptr := e\<rparr>)
        | Stop md \<Rightarrow> Some (Ret MATCH_NOMATCH md)
        | Quit rrc md \<Rightarrow> Some (Ret rrc md)))"
      using q l go by (cases q) auto
  qed
qed

lemma back_class_safe: "on T d fr0 md fr \<Longrightarrow> safe T fr0 (back_class rm pp md fr)"
proof (induction "eptr fr" arbitrary: md fr rule: less_induct)
  case less
  show ?case
    unfolding back_class.simps [of rm pp md]
  proof (rule on_try [OF less.prems])
    fix md' assume o: "on T d fr0 md' fr"
    have "safe T fr0 (back_class rm pp md' (fr\<lparr>eptr := back_one Back_char md' pp (eptr fr)\<rparr>))" if "\<not> eptr fr \<le> pp"
    proof -
      have "back_one Back_char md' pp (eptr fr) < eptr fr" using that by (intro back_one_less) simp
      with less.hyps on_eptr [OF o] on_D(3) [OF o] show ?thesis by simp
    qed
    then show "safe T fr0 (if eptr fr \<le> pp then Some (Ret MATCH_NOMATCH md')
      else back_class rm pp md' (fr\<lparr>eptr := back_one Back_char md' pp (eptr fr)\<rparr>))" by simp
  qed
qed

lemma back_tail_safe: "on T d fr0 md fr \<Longrightarrow> safe T fr0 (back_tail rm m pp md fr)"
proof (induction "eptr fr" arbitrary: md fr rule: less_induct)
  case less
  show ?case
  proof (cases "eptr fr \<le> pp")
    case True
    with on_goes(2) [OF less.prems] show ?thesis by (subst back_tail.simps) simp
  next
    case False
    show ?thesis
      unfolding back_tail.simps [of rm m pp md] if_not_P [OF False]
    proof (rule on_try [OF less.prems])
      fix md' assume o: "on T d fr0 md' fr"
      have "back_one m md' pp (eptr fr) < eptr fr" using False by (intro back_one_less) simp
      with less.hyps on_eptr [OF o] on_D(3) [OF o]
      show "safe T fr0 (back_tail rm m pp md' (fr\<lparr>eptr := back_one m md' pp (eptr fr)\<rparr>))" by simp
    qed
  qed
qed

lemma back_ref_safe: "on T d fr0 md fr \<Longrightarrow> safe T fr0 (back_ref rm len pp md fr)"
proof (induction "eptr fr" arbitrary: md fr rule: less_induct)
  case less
  show ?case
    unfolding back_ref.simps [of rm len pp md]
  proof (rule on_try [OF less.prems])
    fix md' assume o: "on T d fr0 md' fr"
    show "safe T fr0 (if eptr fr < pp + len \<or> len = 0 then Some (Ret MATCH_NOMATCH md')
      else back_ref rm len pp md' (fr\<lparr>eptr := eptr fr - len\<rparr>))"
      using less.hyps on_eptr [OF o] on_D(3) [OF o] by simp
  qed
qed

lemma back_extuni_safe: "on T d fr0 md fr \<Longrightarrow> safe T fr0 (back_extuni rm pp md fr)"
proof (induction "eptr fr" arbitrary: md fr rule: less_induct)
  case less
  show ?case
  proof (cases "eptr fr \<le> pp")
    case True
    with on_goes(2) [OF less.prems] show ?thesis by (subst back_extuni.simps) simp
  next
    case False
    show ?thesis
      unfolding back_extuni.simps [of rm pp md] if_not_P [OF False] Let_def
    proof (rule on_try [OF less.prems])
      fix md' assume o: "on T d fr0 md' fr"
      let ?e = "extuni_back md' pp (UCD_GRAPHBREAK (ucd md') (char_at md' (prev_char md' (eptr fr)))) (prev_char md' (eptr fr))"
      have "?e < eptr fr" using False by (rule extuni_back_less)
      with less.hyps on_eptr [OF o] on_D(3) [OF o]
      show "safe T fr0 (back_extuni rm pp md' (fr\<lparr>eptr := ?e\<rparr>))" by simp
    qed
  qed
qed

subsection \<open>Codes of the repeats\<close>

text \<open>The minimum, then on with what it left.\<close>

lemma run_safe:
  assumes "on T d fr0 md fr" "r \<noteq> None" "\<And>x. r = Some x \<Longrightarrow> run_law md x"
    and "\<And>x. r = Some (Inl x) \<Longrightarrow> goes T fr0 x"
    and "\<And>md' e. step_law md md' \<Longrightarrow> on T d fr0 md' (fr\<lparr>eptr := e\<rparr>) \<Longrightarrow> e \<le> end_subject md' \<Longrightarrow> safe T fr0 (k md' e)"
  shows "safe T fr0 (r \<bind> case_sum Some (case_prod k))"
proof -
  obtain x where x: "r = Some x" using assms(2) by auto
  show ?thesis
  proof (cases x)
    case (Inr y)
    obtain md' e where y: "y = (md', e)" by (cases y)
    with assms(3) [OF x] Inr have l: "step_law md md'" "e \<le> end_subject md" by simp_all
    with assms(5) [OF l(1) on_move [OF assms(1) l]] x Inr y show ?thesis by (simp add: step_law_end)
  qed (use x assms(4) in simp)
qed

lemma min_out: "rep_min_loop stp n md e = Some (Inl x) \<Longrightarrow> goes T fr0 x"
proof (induction n arbitrary: md e)
  case (Suc n)
  then obtain r where r: "stp md e = Some r" by (auto simp: bind_eq_Some_conv)
  with Suc show ?case by (cases r) auto
qed simp

lemma greedy_out: "rep_greedy stp i mx md e = Some (Inl x) \<Longrightarrow> goes T fr0 x"
proof (induction stp i mx md e rule: rep_greedy.induct)
  case (1 stp i mx md e)
  show ?case
  proof (cases "i < mx")
    case True
    with "1.prems" obtain r where r: "stp md e = Some r"
      by (subst (asm) rep_greedy.simps) (auto simp: bind_eq_Some_conv)
    with "1.prems" True "1.IH" [OF True r] show ?thesis
      by (subst (asm) rep_greedy.simps) (cases r; auto)
  qed (use "1.prems" in \<open>subst (asm) rep_greedy.simps, simp\<close>)
qed

lemma repeat_item_safe:
  assumes "item_step stp" "\<And>md e. stp md e \<noteq> None" "on T d fr0 md fr"
    and bk: "\<And>e md fr. on T d fr0 md fr \<Longrightarrow> safe T fr0 (bac e md fr)"
  shows "safe T fr0 (repeat_item rm stp bac possessive minimize mn mx md fr)"
  unfolding repeat_item_def
proof (rule run_safe [OF assms(3) min_loop_total [OF assms(2)]])
  show "run_law md x" if "rep_min_loop stp mn md (eptr fr) = Some x" for x
    by (rule item_step.min_loop [OF assms(1) on_D(1,3) [OF assms(3)] that])
next
  fix md1 e
  assume o: "on T d fr0 md1 (fr\<lparr>eptr := e\<rparr>)" and e: "e \<le> end_subject md1"
  have gr: "safe T fr0 (rep_greedy stp mn mx md1 e \<bind> case_sum Some (case_prod (\<lambda>md e'.
      let fr = fr\<lparr>eptr := e, eptr := e'\<rparr> in if possessive then Some (Cont fr md) else bac e md fr)))"
  proof (rule run_safe [OF o greedy_total [OF assms(2)]])
    show "run_law md1 x" if "rep_greedy stp mn mx md1 e = Some x" for x
      by (rule item_step.greedy [OF assms(1) on_D(1) [OF o] e that])
  next
    fix md2 e'
    assume "on T d fr0 md2 (fr\<lparr>eptr := e, eptr := e'\<rparr>)"
    then show "safe T fr0 (let fr = fr\<lparr>eptr := e, eptr := e'\<rparr> in if possessive then Some (Cont fr md2) else bac e md2 fr)"
      using bk on_goes(1) by (auto simp: Let_def simp del: goes.simps(2))
  qed (rule greedy_out)
  show "safe T fr0 (let fr = fr\<lparr>eptr := e\<rparr> in
      if mn = mx then Some (Cont fr md1)
      else if minimize then rep_lazy rm stp mn mx md1 fr
      else rep_greedy stp mn mx md1 e \<bind> case_sum Some (case_prod (\<lambda>md e'.
        let fr = fr\<lparr>eptr := e'\<rparr> in if possessive then Some (Cont fr md) else bac e md fr)))"
    using gr lazy_safe [OF assms(1,2) o] on_goes(1) [OF o] by (simp add: Let_def del: goes.simps(2))
qed (rule min_out)

lemma after_run_safe:
  assumes "on T d fr0 md fr" "r \<noteq> None" "\<And>x. r = Some x \<Longrightarrow> run_law md x"
    and "\<And>x. r = Some (Inl x) \<Longrightarrow> goes T fr0 x"
    and bk: "\<And>md fr. on T d fr0 md fr \<Longrightarrow> safe T fr0 (bac md fr)"
  shows "safe T fr0 (r \<bind> after_run bac possessive fr)"
proof -
  have "after_run bac possessive fr = case_sum Some (case_prod (\<lambda>md e.
      if possessive then Some (Cont (fr\<lparr>eptr := e\<rparr>) md) else bac md (fr\<lparr>eptr := e\<rparr>)))"
    by (auto simp: after_run_def fun_eq_iff split: sum.split)
  moreover have "safe T fr0 (r \<bind> case_sum Some (case_prod (\<lambda>md e.
      if possessive then Some (Cont (fr\<lparr>eptr := e\<rparr>) md) else bac md (fr\<lparr>eptr := e\<rparr>))))"
    using assms(1-4) by (rule run_safe) (use bk on_goes(1) in \<open>auto simp del: goes.simps(2)\<close>)
  ultimately show ?thesis by simp
qed

end

text \<open>The steps of the types have a value.\<close>

lemma type_steps_total:
  "prop_step pt pv fl md e \<noteq> None" "prop_step_min pt pv fl md e \<noteq> None" "extuni_step md e \<noteq> None"
  "type_step_min_utf ct md e \<noteq> None" "type_step_min_byte ct md e \<noteq> None" "type_step_lazy ct md e \<noteq> None"
  "type_step_max ct md e \<noteq> None" "ref_step offset len ci md e \<noteq> None" "ref_step_max offset len ci md e \<noteq> None"
  "byte_step t md e \<noteq> None" "multibyte_step p n oc md e \<noteq> None"
  by (simp_all add: prop_step_def prop_step_min_def extuni_step_def type_step_min_utf_def
      type_step_min_byte_def type_step_lazy_def type_step_max_def ref_step_def ref_step_max_def
      byte_step_def multibyte_step_def)

lemma char_step_total: "(\<And>c. test c \<noteq> None) \<Longrightarrow> char_step test md e \<noteq> None"
proof -
  assume t: "\<And>c. test c \<noteq> None"
  obtain c e' where c: "getcharinctest (utf md) (start_subject md) e = (c, e')" by fastforce
  from t [of c] obtain b where "test c = Some b" by auto
  with c show ?thesis by (simp add: char_step_def)
qed

lemma type_min_total: "type_min ct mn md e \<noteq> None"
  using min_loop_total [of "type_step_min_utf ct" mn md e] min_loop_total [of "type_step_min_byte ct" mn md e]
  by (simp add: type_min_def type_steps_total)

lemma type_max_total: "type_max ct mn mx md e \<noteq> None"
  using greedy_total [of "type_step_max ct" mn mx md e] by (simp add: type_max_def type_steps_total)

text \<open>The typing's view of the quantifiers is the matcher's.\<close>

lemma quantifier_end:
  "quantifier md rel ec = (po, mi, mn, mx, ec') \<Longrightarrow> ec' = quant_end rel ec"
  by (auto simp: quantifier_def quant_end_def Let_def split: if_splits prod.splits)

lemma cr_quantifier_end:
  "(case cr_quantifier md ec of None \<Rightarrow> (False, False, 1, 1, ec) | Some q \<Rightarrow> q) = (po, mi, mn, mx, ec') \<Longrightarrow>
     ec' = cr_end (start_code md) ec"
  by (auto simp: cr_quantifier_def cr_end_def Let_def op_at_def split: if_splits prod.splits)

context total_matcher
begin

lemma repeat_prop_safe:
  assumes "on T d fr0 md fr"
  shows "safe T fr0 (repeat_prop rm pt pv fl po mi mn mx md fr)"
  unfolding repeat_prop_def
proof (rule run_safe [OF assms])
  show "(if 0 < mn \<and> pt > PT_UCNC then Some (Inl (Ret PCRE_ERROR_INTERNAL md))
      else rep_min_loop (prop_step_min pt pv fl) mn md (eptr fr)) \<noteq> None"
    using min_loop_total [of "prop_step_min pt pv fl"] by (simp add: type_steps_total)
  show "run_law md r" if "(if 0 < mn \<and> pt > PT_UCNC then Some (Inl (Ret PCRE_ERROR_INTERNAL md))
      else rep_min_loop (prop_step_min pt pv fl) mn md (eptr fr)) = Some r" for r
    using that on_D [OF assms] prop_min_item.min_loop [of md "eptr fr"]
    by (auto split: if_splits)
  show "goes T fr0 x" if "(if 0 < mn \<and> pt > PT_UCNC then Some (Inl (Ret PCRE_ERROR_INTERNAL md))
      else rep_min_loop (prop_step_min pt pv fl) mn md (eptr fr)) = Some (Inl x)" for x
    using that by (auto split: if_splits intro: min_out)
next
  fix md1 e
  assume o: "on T d fr0 md1 (fr\<lparr>eptr := e\<rparr>)" and e: "e \<le> end_subject md1"
  show "safe T fr0 (let fr = fr\<lparr>eptr := e\<rparr> in
      if mn = mx then Some (Cont fr md1)
      else if pt > PT_UCNC then Some (Ret PCRE_ERROR_INTERNAL md1)
      else if mi then rep_lazy rm (prop_step pt pv fl) mn mx md1 fr
      else rep_greedy (prop_step pt pv fl) mn mx md1 e \<bind> after_run (back_tail rm Back_char e) po fr)"
    using lazy_safe [OF prop_item.item_step_axioms type_steps_total(1) o] on_goes(1) [OF o]
      after_run_safe [OF o greedy_total [OF type_steps_total(1)] prop_item.greedy [OF on_D(1) [OF o] e] greedy_out back_tail_safe]
    by (simp add: Let_def del: goes.simps(2))
qed

lemma repeat_extuni_safe:
  assumes "on T d fr0 md fr"
  shows "safe T fr0 (repeat_extuni rm po mi mn mx md fr)"
  unfolding repeat_extuni_def
proof (rule run_safe [OF assms min_loop_total [OF type_steps_total(3)]])
  show "run_law md r" if "rep_min_loop extuni_step mn md (eptr fr) = Some r" for r
    by (rule extuni_item.min_loop [OF on_D(1,3) [OF assms] that])
next
  fix md1 e
  assume o: "on T d fr0 md1 (fr\<lparr>eptr := e\<rparr>)" and e: "e \<le> end_subject md1"
  show "safe T fr0 (let fr = fr\<lparr>eptr := e\<rparr> in
      if mn = mx then Some (Cont fr md1)
      else if mi then rep_lazy rm extuni_step mn mx md1 fr
      else rep_greedy extuni_step mn mx md1 e \<bind> after_run (back_extuni rm e) po fr)"
    using lazy_safe [OF extuni_item.item_step_axioms type_steps_total(3) o] on_goes(1) [OF o]
      after_run_safe [OF o greedy_total [OF type_steps_total(3)] extuni_item.greedy [OF on_D(1) [OF o] e] greedy_out back_extuni_safe]
    by (simp add: Let_def del: goes.simps(2))
qed (rule min_out)

lemma type_min_out: "type_min ct mn md e = Some (Inl x) \<Longrightarrow> goes T fr0 x"
  by (auto simp: type_min_def split: if_splits intro: min_out)

lemma type_max_out: "type_max ct mn mx md e = Some (Inl x) \<Longrightarrow> goes T fr0 x"
  by (auto simp: type_max_def max_to_end_def split: if_splits prod.splits intro: greedy_out)

lemma repeat_type_safe:
  assumes "on T d fr0 md fr"
  shows "safe T fr0 (repeat_type rm ct po mi mn mx md fr)"
  unfolding repeat_type_def
proof (rule run_safe [OF assms type_min_total])
  show "run_law md r" if "type_min ct mn md (eptr fr) = Some r" for r
    by (rule type_min_law [OF on_D(1,3) [OF assms] that])
next
  fix md1 e
  assume o: "on T d fr0 md1 (fr\<lparr>eptr := e\<rparr>)" and e: "e \<le> end_subject md1"
  let ?m = "if ct = OP_ANYNL then Back_newline else Back_char"
  show "safe T fr0 (let fr = fr\<lparr>eptr := e\<rparr> in
      if mn = mx then Some (Cont fr md1)
      else if mi then rep_lazy rm (type_step_lazy ct) mn mx md1 fr
      else type_max ct mn mx md1 e \<bind> after_run (back_tail rm ?m e) po fr)"
    using lazy_safe [OF type_lazy_item.item_step_axioms type_steps_total(6) o] on_goes(1) [OF o]
      after_run_safe [OF o type_max_total type_max_law [OF on_D(1) [OF o] e] type_max_out back_tail_safe]
    by (simp add: Let_def del: goes.simps(2))
qed (rule type_min_out)

lemma REPEATTYPE_safe:
  assumes "ctx T d md fr" "ec = quant_end (op_at md (ecode fr) - OP_TYPESTAR) (ecode fr)"
    "moves T fr (if op_at md ec = OP_PROP \<or> op_at md ec = OP_NOTPROP then ec + 3 else ec + 1)"
  shows "safe T fr (case_REPEATTYPE rm md fr)"
proof -
  obtain po mi mn mx ec' where q: "quantifier md (op_at md (ecode fr) - OP_TYPESTAR) (ecode fr) = (po, mi, mn, mx, ec')"
    by (metis surj_pair)
  have ec: "ec' = ec" using quantifier_end [OF q] assms(2) by simp
  show ?thesis
    using on_moves [OF assms(1,3)] unfolding case_REPEATTYPE_def q Let_def prod.case ec
    by (auto split: if_splits intro!: repeat_prop_safe repeat_extuni_safe repeat_type_safe)
qed

lemma CLASS_safe:
  assumes "ctx T d md fr" "moves T fr (cr_end (start_code md) (ecode fr + 33))"
  shows "safe T fr (case_CLASS rm md fr)"
proof -
  obtain po mi mn mx ec' where q: "(case cr_quantifier md (ecode fr + 1 + 32) of
      None \<Rightarrow> (False, False, 1, 1, ecode fr + 1 + 32) | Some q \<Rightarrow> q) = (po, mi, mn, mx, ec')"
    by (metis surj_pair)
  have "ec' = cr_end (start_code md) (ecode fr + 33)" using cr_quantifier_end [OF q] by (simp add: add.commute)
  then have o: "on T d fr md (fr\<lparr>ecode := ec'\<rparr>)" using on_moves [OF assms] by simp
  show ?thesis
    unfolding case_CLASS_def Let_def q prod.case
    by (rule repeat_item_safe [OF char_item.item_step_axioms char_step_total o back_class_safe])
      (simp_all add: class_test_def)
qed

lemma XCLASS_safe:
  assumes "ctx T d md fr" "moves T fr (cr_end (start_code md) (ecode fr + GET (start_code md) (ecode fr) 1))"
    "xclass_ok (start_code md) (ecode fr + 1 + LINK_SIZE)"
  shows "safe T fr (case_XCLASS rm md fr)"
proof -
  let ?ec = "ecode fr + link_at md (ecode fr) 1"
  obtain po mi mn mx ec' where q: "(case cr_quantifier md ?ec of
      None \<Rightarrow> (False, False, 1, 1, ?ec) | Some q \<Rightarrow> q) = (po, mi, mn, mx, ec')"
    by (metis surj_pair)
  have "ec' = cr_end (start_code md) ?ec" using cr_quantifier_end [OF q] by simp
  then have o: "on T d fr md (fr\<lparr>ecode := ec'\<rparr>)" using on_moves [OF assms(1,2)] by (simp add: link_at_def)
  show ?thesis
    unfolding case_XCLASS_def Let_def q prod.case
    by (rule repeat_item_safe [OF char_item.item_step_axioms char_step_total o back_class_safe])
      (rule xclass_total [OF assms(3)])
qed

lemma REPEATNOT_safe:
  assumes "ctx T d md fr"
    "ec = quant_end (op_at md (ecode fr) - (if op_at md (ecode fr) \<ge> OP_NOTSTARI then OP_NOTSTARI else OP_NOTSTAR)) (ecode fr)"
    "moves T fr (snd (getcharinctest (utf md) (start_code md) ec))"
  shows "safe T fr (case_REPEATNOT rm md fr)"
proof -
  obtain po mi mn mx ec' where q: "quantifier md (op_at md (ecode fr) - (if op_at md (ecode fr) \<ge> OP_NOTSTARI then OP_NOTSTARI
      else OP_NOTSTAR)) (ecode fr) = (po, mi, mn, mx, ec')"
    by (metis surj_pair)
  obtain fc e where c: "getcharinctest (utf md) (start_code md) ec = (fc, e)" by fastforce
  have ec: "ec' = ec" using quantifier_end [OF q] assms(2) by simp
  have o: "on T d fr md (fr\<lparr>ecode := e\<rparr>)" using on_moves [OF assms(1,3)] c by simp
  show ?thesis
    unfolding case_REPEATNOT_def Let_def q prod.case ec c
    by (rule repeat_item_safe [OF char_item.item_step_axioms char_step_total o back_tail_safe]) simp_all
qed

lemma REPEATCHAR_safe:
  assumes "ctx T d md fr"
    "ec = quant_end (op_at md (ecode fr) - (if op_at md (ecode fr) \<ge> OP_STARI then OP_STARI else OP_STAR)) (ecode fr)"
    "moves T fr (ec + snd (getcharlentest (utf md) (start_code md) ec))"
  shows "safe T fr (case_REPEATCHAR rm md fr)"
proof -
  obtain po mi mn mx ec' where q: "quantifier md (op_at md (ecode fr) - (if op_at md (ecode fr) \<ge> OP_STARI then OP_STARI
      else OP_STAR)) (ecode fr) = (po, mi, mn, mx, ec')"
    by (metis surj_pair)
  obtain fc len where c: "getcharlentest (utf md) (start_code md) ec = (fc, len)" by fastforce
  have ec: "ec' = ec" using quantifier_end [OF q] assms(2) by simp
  have o: "on T d fr md (fr\<lparr>ecode := ec + len\<rparr>)" using on_moves [OF assms(1,3)] c by simp
  show ?thesis
    unfolding case_REPEATCHAR_def Let_def q prod.case ec c
    using repeat_item_safe [OF multibyte_item.item_step_axioms type_steps_total(11) o back_tail_safe]
      repeat_item_safe [OF byte_item.item_step_axioms type_steps_total(10) o back_tail_safe]
    by simp
qed

text \<open>Back references.\<close>

lemma ref_repeat_safe:
  assumes "ctx T d md fr" "rdepth fr0 = rdepth fr" "ecode fr0 < ref_end (start_code md) (ecode fr)"
    "flows T (length (eptrb fr)) (ref_end (start_code md) (ecode fr))"
  shows "safe T fr0 (ref_repeat rm offset len ci md fr)"
proof -
  let ?poss = "op_at md (ecode fr) \<in> {OP_CRPOSSTAR, OP_CRPOSPLUS, OP_CRPOSQUERY, OP_CRPOSRANGE}"
  have once: "safe T fr0 (Some (ref_once offset len ci md fr))" if "ref_end (start_code md) (ecode fr) = ecode fr"
    using assms that
    by (auto simp: ref_once_def at_ok_def simp del: goes.simps(2) split: sum.split)
      (simp add: at_ok_def)
  show ?thesis
  proof (cases "if ?poss then None else cr_quantifier md (ecode fr)")
    case None
    then have "ref_end (start_code md) (ecode fr) = ecode fr"
      using cr_quantifier_end [where md = md and ec = "ecode fr" and po = False and mi = False and mn = 1 and mx = 1 and ec' = "ecode fr"]
      by (auto simp: ref_end_def op_at_def split: if_splits)
    with once None show ?thesis by (simp add: ref_repeat_def)
  next
    case (Some q)
    obtain po mi mn mx ec where q: "q = (po, mi, mn, mx, ec)" by (metis surj_pair)
    have np: "\<not> ?poss" and cr: "cr_quantifier md (ecode fr) = Some q" using Some by (simp_all split: if_splits)
    have "ec = ref_end (start_code md) (ecode fr)"
      using np cr q cr_quantifier_end [where md = md and ec = "ecode fr" and po = po and mi = mi and mn = mn and mx = mx and ec' = ec]
      unfolding ref_end_def op_at_def by (simp only: if_False option.case simp_thms)
    then have o: "on T d fr0 md (fr\<lparr>ecode := ec\<rparr>)" using assms by (simp add: on_def)
    let ?fr = "fr\<lparr>ecode := ec\<rparr>"
    show ?thesis
    proof (cases "len = 0 \<or> len < 0 \<and> mn = 0")
      case True
      with on_goes(1) [OF o] show ?thesis
        unfolding ref_repeat_def Some q option.case prod.case Let_def by simp
    next
      case False
      show ?thesis
        unfolding ref_repeat_def Some q option.case prod.case Let_def if_not_P [OF False]
      proof (rule run_safe [OF o min_loop_total [OF type_steps_total(8)]])
        show "run_law md r" if "rep_min_loop (ref_step offset len ci) mn md (eptr ?fr) = Some r" for r
          by (rule ref_item.min_loop [OF on_D(1,3) [OF o] that])
      next
        fix md1 e
        assume o1: "on T d fr0 md1 (?fr\<lparr>eptr := e\<rparr>)" and e: "e \<le> end_subject md1"
        have "safe T fr0 (rep_greedy (ref_step_max offset len ci) mn mx md1 e \<bind> case_sum Some (case_prod (\<lambda>md e'.
            back_ref rm (nat len) e md (?fr\<lparr>eptr := e, eptr := e'\<rparr>))))"
          by (rule run_safe [OF o1 greedy_total [OF type_steps_total(9)]])
            (erule ref_max_item.greedy [OF on_D(1) [OF o1] e] greedy_out back_ref_safe)+
        then show "safe T fr0 (if mn = mx then Some (Cont (?fr\<lparr>eptr := e\<rparr>) md1)
          else if mi then rep_lazy rm (ref_step offset len ci) mn mx md1 (?fr\<lparr>eptr := e\<rparr>)
          else rep_greedy (ref_step_max offset len ci) mn mx md1 e \<bind> case_sum Some (case_prod (\<lambda>md e'.
            back_ref rm (nat len) e md (?fr\<lparr>eptr := e, eptr := e'\<rparr>))))"
          using lazy_safe [OF ref_item.item_step_axioms type_steps_total(8) o1] on_goes(1) [OF o1]
          by (simp del: goes.simps(2))
      qed (rule min_out)
    qed
  qed
qed

lemma REF_safe:
  assumes "ctx T d md fr" "moves T fr (ref_end (start_code md) (ecode fr + 1 + IMM2_SIZE))"
  shows "safe T fr (case_REF rm md fr)"
  unfolding case_REF_def Let_def
  by (rule ref_repeat_safe) (use assms in \<open>simp_all add: moves_def\<close>)

lemma DNREF_safe:
  assumes "ctx T d md fr" "moves T fr (ref_end (start_code md) (ecode fr + 1 + 2 * IMM2_SIZE))"
  shows "safe T fr (case_DNREF rm md fr)"
  unfolding case_DNREF_def Let_def split_beta
  by (rule ref_repeat_safe) (use assms in \<open>simp_all add: moves_def\<close>)

end

subsection \<open>The dispatch\<close>

text \<open>What the typing says of the opcodes that are not simple.\<close>

lemma instr_ok_simple: "simple_next u code p = Some q \<Longrightarrow> instr_ok T u code p n \<Longrightarrow>
    p < q \<and> flows T n q \<and> (opc code p = OP_XCLASS \<longrightarrow> xclass_ok code (p + 1 + LINK_SIZE))"
  by (simp add: instr_ok_def Let_def split: if_splits)

lemma instr_ok_other:
  assumes "simple_next u code p = None" "instr_ok T u code p n"
  shows "opc code p = OP_ONCE_NC \<Longrightarrow> alts_ok (\<lambda>q. flows T n (q + 1 + LINK_SIZE)) (\<lambda>k. flows T n (k + 1 + LINK_SIZE)) code p"
    "opc code p \<in> {OP_CBRA, OP_SCBRA, OP_BRA, OP_SBRA, OP_ONCE} \<Longrightarrow> group_ok T code p n (\<lambda>_. True)"
    "opc code p \<in> {OP_CBRAPOS, OP_SCBRAPOS, OP_BRAPOS, OP_SBRAPOS} \<Longrightarrow> group_ok T code p n (\<lambda>k. flows T n (k + 1 + LINK_SIZE))"
    "opc code p = OP_COND \<or> opc code p = OP_SCOND \<Longrightarrow> cond_ok T code p n"
    "OP_ASSERT \<le> opc code p \<and> opc code p \<le> OP_ASSERTBACK_NOT \<Longrightarrow> assertion_ok T code p (\<lambda>k. flows T n (k + 1 + LINK_SIZE))"
    "opc code p = OP_RECURSE \<Longrightarrow> opc code (GET code p 1) \<noteq> OP_ONCE \<and> group_ok T code (GET code p 1) n (\<lambda>_. True) \<and>
       flows T n (p + 1 + LINK_SIZE)"
    "opc code p = OP_ALT \<Longrightarrow> alts_ok (\<lambda>_. True) (flows T n) code p"
    "opc code p = OP_BRAZERO \<or> opc code p = OP_BRAMINZERO \<Longrightarrow>
       flows T n (p + 1) \<and> alts_ok (\<lambda>_. True) (\<lambda>k. flows T n (k + 1 + LINK_SIZE)) code (p + 1)"
    "opc code p = OP_SKIPZERO \<Longrightarrow> alts_ok (\<lambda>_. True) (\<lambda>k. flows T n (k + 1 + LINK_SIZE)) code (p + 1)"
    "opc code p = OP_BRAPOSZERO \<Longrightarrow> opc code (p + 1) \<in> {OP_CBRAPOS, OP_SCBRAPOS, OP_BRAPOS, OP_SBRAPOS} \<and>
       group_ok T code (p + 1) n (\<lambda>k. flows T n (k + 1 + LINK_SIZE))"
    "is_ket (opc code p) \<Longrightarrow> ket_ok T code p n"
  using assms(2) unfolding instr_ok_def Let_def assms(1) option.case
  by (auto simp: is_ket_def)

text \<open>Where each of the simple opcodes goes on.\<close>

lemma op_moves:
  assumes "ctx T d md fr" "at_ok T fr" "op_at md (ecode fr) = op"
  shows "op \<in> {OP_CIRC, OP_SOD, OP_CIRCM, OP_SOM, OP_SET_SOM, OP_DOLLM, OP_DOLL, OP_EOD, OP_EODN,
         OP_NOT_WORD_BOUNDARY, OP_WORD_BOUNDARY, OP_ANY, OP_ALLANY, OP_ANYBYTE, OP_ANYNL, OP_EXTUNI} \<or>
        (OP_NOT_DIGIT \<le> op \<and> op \<le> OP_WORDCHAR) \<or> (OP_NOT_HSPACE \<le> op \<and> op \<le> OP_VSPACE) \<Longrightarrow>
      moves T fr (ecode fr + 1)"
    "op = OP_PROP \<or> op = OP_NOTPROP \<Longrightarrow> moves T fr (ecode fr + 3)"
    "op = OP_CHAR \<Longrightarrow> moves T fr (if utf md then ecode fr + 1 + snd (getcharlentest True (start_code md) (ecode fr + 1))
       else ecode fr + 2)"
    "op = OP_CHARI \<Longrightarrow> moves T fr (if utf md \<and> \<not> fst (getcharlentest True (start_code md) (ecode fr + 1)) < 128
       then ecode fr + 1 + snd (getcharlentest True (start_code md) (ecode fr + 1)) else ecode fr + 2)"
    "op = OP_NOT \<or> op = OP_NOTI \<Longrightarrow> moves T fr (if utf md then snd (getcharinc (start_code md) (ecode fr + 1)) else ecode fr + 2)"
    "op = OP_REF \<or> op = OP_REFI \<Longrightarrow> moves T fr (ref_end (start_code md) (ecode fr + 1 + IMM2_SIZE))"
    "op = OP_DNREF \<or> op = OP_DNREFI \<Longrightarrow> moves T fr (ref_end (start_code md) (ecode fr + 1 + 2 * IMM2_SIZE))"
    "op = OP_CLASS \<or> op = OP_NCLASS \<Longrightarrow> moves T fr (cr_end (start_code md) (ecode fr + 33))"
    "op = OP_XCLASS \<Longrightarrow> moves T fr (cr_end (start_code md) (ecode fr + GET (start_code md) (ecode fr) 1))"
    "op = OP_CLOSE \<Longrightarrow> moves T fr (ecode fr + 1 + IMM2_SIZE)"
    "op = OP_REVERSE \<Longrightarrow> moves T fr (ecode fr + 1 + LINK_SIZE)"
    "op = OP_CALLOUT \<Longrightarrow> moves T fr (ecode fr + 2 + 2 * LINK_SIZE)"
    "op = OP_MARK \<or> op = OP_PRUNE_ARG \<or> op = OP_SKIP_ARG \<or> op = OP_THEN_ARG \<Longrightarrow>
       moves T fr (ecode fr + op_length (op_at md (ecode fr)) + op_at md (ecode fr + 1))"
    "op = OP_COMMIT \<or> op = OP_PRUNE \<or> op = OP_SKIP \<or> op = OP_THEN \<Longrightarrow>
       moves T fr (ecode fr + op_length (op_at md (ecode fr)))"
  by (rule next_moves [OF assms(1,2)], use assms(3) in \<open>auto simp: simple_next_def Let_def op_at_def\<close>)+

lemma repeat_moves:
  assumes "ctx T d md fr" "at_ok T fr" "op_at md (ecode fr) = op"
  shows "OP_STAR \<le> op \<and> op \<le> OP_POSUPTOI \<Longrightarrow> ec = quant_end (op - (if op \<ge> OP_STARI then OP_STARI else OP_STAR)) (ecode fr) \<Longrightarrow>
      moves T fr (ec + snd (getcharlentest (utf md) (start_code md) ec))"
    "OP_NOTSTAR \<le> op \<and> op \<le> OP_NOTPOSUPTOI \<Longrightarrow> ec = quant_end (op - (if op \<ge> OP_NOTSTARI then OP_NOTSTARI else OP_NOTSTAR)) (ecode fr) \<Longrightarrow>
      moves T fr (snd (getcharinctest (utf md) (start_code md) ec))"
    "OP_TYPESTAR \<le> op \<and> op \<le> OP_TYPEPOSUPTO \<Longrightarrow> ec = quant_end (op - OP_TYPESTAR) (ecode fr) \<Longrightarrow>
      moves T fr (if op_at md ec = OP_PROP \<or> op_at md ec = OP_NOTPROP then ec + 3 else ec + 1)"
  by (rule next_moves [OF assms(1,2)], use assms(3) in \<open>auto simp: simple_next_def Let_def op_at_def\<close>)+

text \<open>The opcodes that are not simple.\<close>

definition group_code :: "nat \<Rightarrow> bool" where
  "group_code op \<longleftrightarrow> op \<in> {OP_ONCE_NC, OP_CBRA, OP_SCBRA, OP_BRA, OP_SBRA, OP_ONCE, OP_CBRAPOS, OP_SCBRAPOS,
     OP_BRAPOS, OP_SBRAPOS, OP_COND, OP_SCOND, OP_ASSERT, OP_ASSERT_NOT, OP_ASSERTBACK, OP_ASSERTBACK_NOT,
     OP_RECURSE, OP_ALT, OP_BRAZERO, OP_BRAMINZERO, OP_SKIPZERO, OP_BRAPOSZERO, OP_KET, OP_KETRMAX, OP_KETRMIN, OP_KETRPOS}"

lemma group_code_next: "group_code (opc code p) \<Longrightarrow> simple_next u code p = None"
  unfolding group_code_def by (elim insertE emptyE) (simp_all add: simple_next_def)

context total_matcher
begin

lemma group_code_safe:
  assumes "ctx T d md fr" "at_ok T fr" "group_code (op_at md (ecode fr))"
  shows "op_at md (ecode fr) = OP_ONCE_NC \<Longrightarrow> safe T fr (case_ONCE_NC rm md fr)"
    "op_at md (ecode fr) \<in> {OP_CBRA, OP_SCBRA} \<Longrightarrow> safe T fr (case_CBRA rm md fr)"
    "op_at md (ecode fr) \<in> {OP_BRA, OP_SBRA, OP_ONCE} \<Longrightarrow> safe T fr (case_BRA rm md fr)"
    "op_at md (ecode fr) \<in> {OP_CBRAPOS, OP_SCBRAPOS} \<Longrightarrow> safe T fr (possessive_capture rm False (op_at md (ecode fr)) md fr)"
    "op_at md (ecode fr) \<in> {OP_BRAPOS, OP_SBRAPOS} \<Longrightarrow> safe T fr (possessive_non_capture rm False (op_at md (ecode fr)) md fr)"
    "op_at md (ecode fr) \<in> {OP_COND, OP_SCOND} \<Longrightarrow> safe T fr (case_COND rm md fr)"
    "op_at md (ecode fr) \<in> {OP_ASSERT, OP_ASSERTBACK} \<Longrightarrow> safe T fr (case_ASSERT rm md fr)"
    "op_at md (ecode fr) \<in> {OP_ASSERT_NOT, OP_ASSERTBACK_NOT} \<Longrightarrow> safe T fr (case_ASSERT_NOT rm md fr)"
    "op_at md (ecode fr) = OP_RECURSE \<Longrightarrow> safe T fr (case_RECURSE rm md fr)"
    "op_at md (ecode fr) = OP_ALT \<Longrightarrow> safe T fr (case_ALT md fr)"
    "op_at md (ecode fr) = OP_BRAZERO \<Longrightarrow> safe T fr (case_BRAZERO rm md fr)"
    "op_at md (ecode fr) = OP_BRAMINZERO \<Longrightarrow> safe T fr (case_BRAMINZERO rm md fr)"
    "op_at md (ecode fr) = OP_SKIPZERO \<Longrightarrow> safe T fr (case_SKIPZERO md fr)"
    "op_at md (ecode fr) = OP_BRAPOSZERO \<Longrightarrow> safe T fr (case_BRAPOSZERO rm md fr)"
    "op_at md (ecode fr) \<in> {OP_KET, OP_KETRMAX, OP_KETRMIN, OP_KETRPOS} \<Longrightarrow> safe T fr (case_KET rm md fr)"
proof -
  have g: "group_code (opc (start_code md) (ecode fr))" using assms(3) by (simp add: op_at_def)
  note i = instr_ok_other [OF group_code_next [OF g] at_ok_instr(2) [OF assms(1,2)]]
  note o = op_at_def [of md "ecode fr"]
  show "op_at md (ecode fr) = OP_ONCE_NC \<Longrightarrow> safe T fr (case_ONCE_NC rm md fr)"
    by (rule ONCE_NC_safe [OF assms(1,2)], rule i(1)) (simp add: o)
  show "op_at md (ecode fr) \<in> {OP_CBRA, OP_SCBRA} \<Longrightarrow> safe T fr (case_CBRA rm md fr)"
    by (rule CBRA_safe [OF assms(1) _ i(2)]) (auto simp: o)
  show "op_at md (ecode fr) \<in> {OP_BRA, OP_SBRA, OP_ONCE} \<Longrightarrow> safe T fr (case_BRA rm md fr)"
    by (rule BRA_safe [OF assms(1) _ i(2)]) (auto simp: o)
  show "op_at md (ecode fr) \<in> {OP_CBRAPOS, OP_SCBRAPOS} \<Longrightarrow> safe T fr (possessive_capture rm False (op_at md (ecode fr)) md fr)"
    by (rule possessive_capture_safe [OF assms(1) refl refl order_refl o _ i(3)]) (auto simp: o)
  show "op_at md (ecode fr) \<in> {OP_BRAPOS, OP_SBRAPOS} \<Longrightarrow> safe T fr (possessive_non_capture rm False (op_at md (ecode fr)) md fr)"
    by (rule possessive_non_capture_safe [OF assms(1) refl refl order_refl o _ i(3)]) (auto simp: o)
  show "op_at md (ecode fr) \<in> {OP_COND, OP_SCOND} \<Longrightarrow> safe T fr (case_COND rm md fr)"
    by (rule COND_safe [OF assms(1) i(4)]) (auto simp: o)
  show "op_at md (ecode fr) \<in> {OP_ASSERT, OP_ASSERTBACK} \<Longrightarrow> safe T fr (case_ASSERT rm md fr)"
    by (rule returns_mono [OF ASSERT_safe [OF assms(1) i(5)]]) (auto simp: o)
  show "op_at md (ecode fr) \<in> {OP_ASSERT_NOT, OP_ASSERTBACK_NOT} \<Longrightarrow> safe T fr (case_ASSERT_NOT rm md fr)"
    by (rule returns_mono [OF ASSERT_NOT_safe [OF assms(1) i(5)]]) (auto simp: o)
  show "op_at md (ecode fr) = OP_RECURSE \<Longrightarrow> safe T fr (case_RECURSE rm md fr)"
    using i(6) RECURSE_safe [OF assms(1), where K = "\<lambda>_. True"] by (simp add: o)
  show "op_at md (ecode fr) = OP_ALT \<Longrightarrow> safe T fr (case_ALT md fr)"
    by (rule jump_safe(1), rule i(7)) (simp add: o)
  show "op_at md (ecode fr) = OP_BRAZERO \<Longrightarrow> safe T fr (case_BRAZERO rm md fr)"
    "op_at md (ecode fr) = OP_BRAMINZERO \<Longrightarrow> safe T fr (case_BRAMINZERO rm md fr)"
    using i(8) zero_safe [OF assms(1), where P = "\<lambda>_. True"] by (simp_all add: o)
  show "op_at md (ecode fr) = OP_SKIPZERO \<Longrightarrow> safe T fr (case_SKIPZERO md fr)"
    by (rule jump_safe(2), rule i(9)) (simp add: o)
  show "op_at md (ecode fr) = OP_BRAPOSZERO \<Longrightarrow> safe T fr (case_BRAPOSZERO rm md fr)"
    using i(10) BRAPOSZERO_safe [OF assms(1)] by (simp add: o)
  show "op_at md (ecode fr) \<in> {OP_KET, OP_KETRMAX, OP_KETRMIN, OP_KETRPOS} \<Longrightarrow> safe T fr (case_KET rm md fr)"
    by (rule KET_safe [OF assms(1) i(11)]) (auto simp: o is_ket_def)
qed

lemma returns_if: "(c \<Longrightarrow> returns P a) \<Longrightarrow> (\<not> c \<Longrightarrow> returns P b) \<Longrightarrow> returns P (if c then a else b)"
  by simp

lemma simple_safe:
  assumes "ctx T d md fr" "at_ok T fr" "op_at md (ecode fr) = op"
  shows "op = OP_CIRC \<Longrightarrow> safe T fr (case_CIRC md fr)" "op = OP_SOD \<Longrightarrow> safe T fr (case_SOD md fr)"
    "op = OP_CIRCM \<Longrightarrow> safe T fr (case_CIRCM md fr)" "op = OP_SOM \<Longrightarrow> safe T fr (case_SOM md fr)"
    "op = OP_SET_SOM \<Longrightarrow> safe T fr (case_SET_SOM md fr)" "op = OP_DOLLM \<Longrightarrow> safe T fr (case_DOLLM md fr)"
    "op = OP_DOLL \<Longrightarrow> safe T fr (case_DOLL md fr)" "op = OP_EOD \<Longrightarrow> safe T fr (case_EOD md fr)"
    "op = OP_EODN \<Longrightarrow> safe T fr (case_EODN md fr)"
    "op = OP_NOT_WORD_BOUNDARY \<or> op = OP_WORD_BOUNDARY \<Longrightarrow> safe T fr (case_WORD_BOUNDARY md fr)"
    "op = OP_ANY \<Longrightarrow> safe T fr (case_ANY md fr)" "op = OP_ALLANY \<Longrightarrow> safe T fr (case_ALLANY md fr)"
    "op = OP_ANYBYTE \<Longrightarrow> safe T fr (case_ANYBYTE md fr)"
    "OP_NOT_DIGIT \<le> op \<and> op \<le> OP_WORDCHAR \<Longrightarrow> safe T fr (case_TYPE md fr)"
    "op = OP_ANYNL \<Longrightarrow> safe T fr (case_ANYNL md fr)"
    "OP_NOT_HSPACE \<le> op \<and> op \<le> OP_VSPACE \<Longrightarrow> safe T fr (case_HVSPACE md fr)"
    "op = OP_EXTUNI \<Longrightarrow> safe T fr (case_EXTUNI md fr)"
    "op = OP_PROP \<or> op = OP_NOTPROP \<Longrightarrow> safe T fr (case_PROP md fr)"
    "op = OP_CHAR \<Longrightarrow> safe T fr (case_CHAR md fr)" "op = OP_CHARI \<Longrightarrow> safe T fr (case_CHARI md fr)"
    "op = OP_NOT \<or> op = OP_NOTI \<Longrightarrow> safe T fr (case_NOT md fr)"
    "op = OP_REF \<or> op = OP_REFI \<Longrightarrow> safe T fr (case_REF rm md fr)"
    "op = OP_DNREF \<or> op = OP_DNREFI \<Longrightarrow> safe T fr (case_DNREF rm md fr)"
    "op = OP_NCLASS \<or> op = OP_CLASS \<Longrightarrow> safe T fr (case_CLASS rm md fr)"
    "op = OP_XCLASS \<Longrightarrow> safe T fr (case_XCLASS rm md fr)"
    "op = OP_CLOSE \<Longrightarrow> safe T fr (case_CLOSE md fr)" "op = OP_REVERSE \<Longrightarrow> safe T fr (case_REVERSE md fr)"
    "op = OP_CALLOUT \<Longrightarrow> safe T fr (case_CALLOUT md fr)" "op = OP_MARK \<Longrightarrow> safe T fr (case_MARK rm md fr)"
    "op = OP_PRUNE_ARG \<Longrightarrow> safe T fr (case_PRUNE_ARG rm md fr)" "op = OP_SKIP_ARG \<Longrightarrow> safe T fr (case_SKIP_ARG rm md fr)"
    "op = OP_THEN_ARG \<Longrightarrow> safe T fr (case_THEN_ARG rm md fr)" "op = OP_COMMIT \<Longrightarrow> safe T fr (case_COMMIT rm md fr)"
    "op = OP_PRUNE \<Longrightarrow> safe T fr (case_PRUNE rm md fr)" "op = OP_SKIP \<Longrightarrow> safe T fr (case_SKIP rm md fr)"
    "op = OP_THEN \<Longrightarrow> safe T fr (case_THEN rm md fr)"
    "OP_STAR \<le> op \<and> op \<le> OP_POSUPTOI \<Longrightarrow> safe T fr (case_REPEATCHAR rm md fr)"
    "OP_NOTSTAR \<le> op \<and> op \<le> OP_NOTPOSUPTOI \<Longrightarrow> safe T fr (case_REPEATNOT rm md fr)"
    "OP_TYPESTAR \<le> op \<and> op \<le> OP_TYPEPOSUPTO \<Longrightarrow> safe T fr (case_REPEATTYPE rm md fr)"
proof -
  note m = op_moves [OF assms] and r = repeat_moves [OF assms _ refl] and c = assms(1)
  show "op = OP_CIRC \<Longrightarrow> safe T fr (case_CIRC md fr)" "op = OP_SOD \<Longrightarrow> safe T fr (case_SOD md fr)"
    "op = OP_CIRCM \<Longrightarrow> safe T fr (case_CIRCM md fr)" "op = OP_SOM \<Longrightarrow> safe T fr (case_SOM md fr)"
    "op = OP_SET_SOM \<Longrightarrow> safe T fr (case_SET_SOM md fr)" "op = OP_DOLLM \<Longrightarrow> safe T fr (case_DOLLM md fr)"
    "op = OP_DOLL \<Longrightarrow> safe T fr (case_DOLL md fr)" "op = OP_EOD \<Longrightarrow> safe T fr (case_EOD md fr)"
    "op = OP_EODN \<Longrightarrow> safe T fr (case_EODN md fr)"
    "op = OP_NOT_WORD_BOUNDARY \<or> op = OP_WORD_BOUNDARY \<Longrightarrow> safe T fr (case_WORD_BOUNDARY md fr)"
    "op = OP_ANY \<Longrightarrow> safe T fr (case_ANY md fr)" "op = OP_ALLANY \<Longrightarrow> safe T fr (case_ALLANY md fr)"
    "op = OP_ANYBYTE \<Longrightarrow> safe T fr (case_ANYBYTE md fr)"
    "OP_NOT_DIGIT \<le> op \<and> op \<le> OP_WORDCHAR \<Longrightarrow> safe T fr (case_TYPE md fr)"
    "op = OP_ANYNL \<Longrightarrow> safe T fr (case_ANYNL md fr)"
    "OP_NOT_HSPACE \<le> op \<and> op \<le> OP_VSPACE \<Longrightarrow> safe T fr (case_HVSPACE md fr)"
    "op = OP_EXTUNI \<Longrightarrow> safe T fr (case_EXTUNI md fr)"
    by (rule next_safe [OF m(1)]; fastforce)+
  show "op = OP_PROP \<or> op = OP_NOTPROP \<Longrightarrow> safe T fr (case_PROP md fr)"
    "op = OP_CHAR \<Longrightarrow> safe T fr (case_CHAR md fr)" "op = OP_CHARI \<Longrightarrow> safe T fr (case_CHARI md fr)"
    "op = OP_NOT \<or> op = OP_NOTI \<Longrightarrow> safe T fr (case_NOT md fr)"
    by (rule char_safe, erule m(2-5))+
  show "op = OP_REF \<or> op = OP_REFI \<Longrightarrow> safe T fr (case_REF rm md fr)" by (rule REF_safe [OF c m(6)])
  show "op = OP_DNREF \<or> op = OP_DNREFI \<Longrightarrow> safe T fr (case_DNREF rm md fr)" by (rule DNREF_safe [OF c m(7)])
  show "op = OP_NCLASS \<or> op = OP_CLASS \<Longrightarrow> safe T fr (case_CLASS rm md fr)" by (rule CLASS_safe [OF c m(8)]) blast
  show "op = OP_XCLASS \<Longrightarrow> safe T fr (case_XCLASS rm md fr)"
  proof (rule XCLASS_safe [OF c m(9)])
    assume "op = OP_XCLASS"
    then have "opc (start_code md) (ecode fr) = OP_XCLASS" using assms(3) by (simp add: op_at_def)
    moreover from this have "simple_next (utf md) (start_code md) (ecode fr) =
        Some (cr_end (start_code md) (ecode fr + GET (start_code md) (ecode fr) 1))"
      by (simp add: simple_next_def)
    ultimately show "xclass_ok (start_code md) (ecode fr + 1 + LINK_SIZE)"
      using instr_ok_simple [OF _ at_ok_instr(2) [OF assms(1,2)]] by blast
  qed
  show "op = OP_CLOSE \<Longrightarrow> safe T fr (case_CLOSE md fr)" by (rule end_safe(1) [OF m(10)])
  show "op = OP_REVERSE \<Longrightarrow> safe T fr (case_REVERSE md fr)" by (rule end_safe(3) [OF m(11)])
  show "op = OP_CALLOUT \<Longrightarrow> safe T fr (case_CALLOUT md fr)" by (rule end_safe(4) [OF m(12)])
  show "op = OP_MARK \<Longrightarrow> safe T fr (case_MARK rm md fr)" by (rule verbs_safe(5) [OF c m(13)]) blast
  show "op = OP_PRUNE_ARG \<Longrightarrow> safe T fr (case_PRUNE_ARG rm md fr)" by (rule verbs_safe(6) [OF c m(13)]) blast
  show "op = OP_SKIP_ARG \<Longrightarrow> safe T fr (case_SKIP_ARG rm md fr)" by (rule verbs_safe(8) [OF c m(13)]) blast
  show "op = OP_THEN_ARG \<Longrightarrow> safe T fr (case_THEN_ARG rm md fr)" by (rule verbs_safe(7) [OF c m(13)]) blast
  show "op = OP_COMMIT \<Longrightarrow> safe T fr (case_COMMIT rm md fr)" by (rule verbs_safe(1) [OF c m(14)]) blast
  show "op = OP_PRUNE \<Longrightarrow> safe T fr (case_PRUNE rm md fr)" by (rule verbs_safe(2) [OF c m(14)]) blast
  show "op = OP_SKIP \<Longrightarrow> safe T fr (case_SKIP rm md fr)" by (rule verbs_safe(3) [OF c m(14)]) blast
  show "op = OP_THEN \<Longrightarrow> safe T fr (case_THEN rm md fr)" by (rule verbs_safe(4) [OF c m(14)]) blast
  show "OP_STAR \<le> op \<and> op \<le> OP_POSUPTOI \<Longrightarrow> safe T fr (case_REPEATCHAR rm md fr)"
    by (rule REPEATCHAR_safe [OF c refl]) (use r(1) assms(3) in simp)
  show "OP_NOTSTAR \<le> op \<and> op \<le> OP_NOTPOSUPTOI \<Longrightarrow> safe T fr (case_REPEATNOT rm md fr)"
    by (rule REPEATNOT_safe [OF c refl]) (use r(2) assms(3) in simp)
  show "OP_TYPESTAR \<le> op \<and> op \<le> OP_TYPEPOSUPTO \<Longrightarrow> safe T fr (case_REPEATTYPE rm md fr)"
    by (rule REPEATTYPE_safe [OF c refl]) (use r(3) assms(3) in \<open>auto split: if_splits\<close>)
qed

lemma step_safe:
  assumes "ctx T d md fr" "at_ok T fr"
  shows "safe T fr (step rm md fr)"
proof -
  have len: "\<not> length (start_code md) \<le> ecode fr" using at_ok_instr(1) [OF assms] by simp
  note g = group_code_safe [OF assms, unfolded group_code_def]
  note simple = simple_safe [OF assms refl]
  have ket: "safe T fr (case_KET rm md fr)" if "OP_KET \<le> op_at md (ecode fr) \<and> op_at md (ecode fr) \<le> OP_KETRPOS"
  proof -
    from that have "op_at md (ecode fr) \<in> {OP_KET, OP_KETRMAX, OP_KETRMIN, OP_KETRPOS}" by auto
    then show ?thesis using g(15) by blast
  qed
  have pos: "op_at md (ecode fr) = OP_CBRAPOS \<Longrightarrow> safe T fr (possessive_capture rm False OP_CBRAPOS md fr)"
    "op_at md (ecode fr) = OP_SCBRAPOS \<Longrightarrow> safe T fr (possessive_capture rm False OP_SCBRAPOS md fr)"
    "op_at md (ecode fr) = OP_BRAPOS \<Longrightarrow> safe T fr (possessive_non_capture rm False OP_BRAPOS md fr)"
    "op_at md (ecode fr) = OP_SBRAPOS \<Longrightarrow> safe T fr (possessive_non_capture rm False OP_SBRAPOS md fr)"
    using g(4,5) by auto
  show ?thesis
    unfolding step_def Let_def if_not_P [OF len]
    by (intro returns_if) (auto simp: simple g ket pos end_safe(2) simp del: One_nat_def)
qed

end

subsection \<open>The main loop and the recursion\<close>

lemma ctx_move:
  assumes "ctx T d md fr" "step_law md md'" "fr_ok md' fr'" "rdepth fr' = rdepth fr"
  shows "ctx T d md' fr'" "start_code md' = start_code md" "calls_left md' \<le> calls_left md"
  using ctx_step [OF assms(1,2)] assms(3,4) step_law_code [OF assms(2)] calls_left_step [OF assms(2)]
  by (simp_all add: ctx_def)

text \<open>Entry: the limits end the call, or the frame is in order with one call fewer left.\<close>

lemma enter_cases:
  assumes "ctx T d md fr" "call_ok T md fr"
  shows "(\<exists>rrc md'. enter md fr = Ret rrc md') \<or>
    (\<exists>fr' md'. enter md fr = Cont fr' md' \<and> ctx T d md' fr' \<and> rdepth fr' = rdepth fr \<and>
      start_code md' = start_code md \<and> calls_left md' < calls_left md \<and>
      (at_ok T fr' \<or> (match_function_type md' = MATCH_CONDASSERT \<and>
        assertion_ok T (start_code md') (ecode fr') (\<lambda>_. True))))"
  using assms
  by (auto simp: enter_def Let_def ctx_def call_ok_def at_ok_def calls_left_def)

context total_matcher
begin

text \<open>A condition returns from its assertion at once.\<close>

lemma condition_step:
  assumes "ctx T d md fr" "match_function_type md = MATCH_CONDASSERT"
    "assertion_ok T (start_code md) (ecode fr) (\<lambda>_. True)"
  shows "\<exists>rrc md'. step rm md fr = Some (Ret rrc md')"
proof -
  let ?op = "op_at md (ecode fr)"
  have op: "?op = OP_ASSERT \<or> ?op = OP_ASSERTBACK \<or> ?op = OP_ASSERT_NOT \<or> ?op = OP_ASSERTBACK_NOT"
    using assms(3) by (auto simp: assertion_ok_def op_at_def)
  have len: "ecode fr < length (start_code md)"
    using assms(3) alts_ok_less unfolding assertion_ok_def by fastforce
  have r: "\<exists>rrc md'. case_ASSERT rm md fr = Some (Ret rrc md')" "\<exists>rrc md'. case_ASSERT_NOT rm md fr = Some (Ret rrc md')"
    using ASSERT_safe [OF assms(1,3)] ASSERT_NOT_safe [OF assms(1,3)] assms(2) by (auto simp: returns_def)
  from op len r show ?thesis by (elim disjE) (simp_all add: step_def Let_def)
qed

text \<open>An entered call goes on, with one call fewer left, if the loop does.\<close>

lemma entered_total:
  assumes "ctx T d md fr" "call_ok T md fr"
    and "\<And>md' fr'. calls_left md' < calls_left md \<Longrightarrow> ctx T d md' fr' \<Longrightarrow> at_ok T fr' \<Longrightarrow>
      match_loop rm False md' fr' \<noteq> None"
  shows "match_loop rm True md fr \<noteq> None"
  using enter_cases [OF assms(1,2)]
proof (elim disjE exE conjE)
  fix fr' md'
  assume e: "enter md fr = Cont fr' md'" "calls_left md' < calls_left md" "ctx T d md' fr'" "at_ok T fr'"
  with assms(3) [OF e(2-4)] show ?thesis by (subst match_loop.simps) simp
next
  fix fr' md'
  assume e: "enter md fr = Cont fr' md'" "ctx T d md' fr'" "match_function_type md' = MATCH_CONDASSERT"
    "assertion_ok T (start_code md') (ecode fr') (\<lambda>_. True)"
  from condition_step [OF e(2-4)] obtain rrc m where "step rm md' fr' = Some (Ret rrc m)" by blast
  then have "match_loop rm False md' fr' \<noteq> None" by (subst match_loop.simps) simp
  with e(1) show ?thesis by (subst match_loop.simps) simp
qed (subst match_loop.simps, simp)

lemma loop_total: "ctx T d md fr \<Longrightarrow> at_ok T fr \<Longrightarrow> match_loop rm False md fr \<noteq> None"
proof (induction "(calls_left md, length (start_code md) - ecode fr)" arbitrary: md fr
    rule: wf_induct_rule [OF wf_lex_prod [OF wf_less_than wf_less_than]])
  case 1
  note c = "1.prems"
  obtain out where o: "step rm md fr = Some out" "goes T fr out"
    using step_safe [OF c] by (auto simp: returns_def)
  note l = step_out [OF ctx_D(1,2) [OF c(1)] o(1)]
  show ?case
  proof (cases out)
    case (Ret rrc md')
    with o(1) show ?thesis by (subst match_loop.simps) simp
  next
    case (Cont fr' md')
    with l o(2) have m: "step_law md md'" "fr_ok md' fr'" "rdepth fr' = rdepth fr" "at_ok T fr'" "ecode fr < ecode fr'"
      by simp_all
    note n = ctx_move [OF c(1) m(1-3)]
    have "match_loop rm False md' fr' \<noteq> None"
      using n m(4,5) at_ok_instr(1) [OF n(1) m(4)] by (intro "1.hyps") auto
    with o(1) Cont show ?thesis by (subst match_loop.simps) simp
  next
    case (Tail fr' md')
    with l o(2) have m: "step_law md md'" "fr_ok md' fr'" "rdepth fr' = rdepth fr" "at_ok T fr'"
      by simp_all
    note n = ctx_move [OF c(1) m(1-3)]
    have "match_loop rm True md' fr' \<noteq> None"
      using n(1) at_ok_call [OF m(4)] by (rule entered_total) (use n(3) "1.hyps" in simp)
    with o(1) Tail show ?thesis by (subst match_loop.simps) simp
  qed
qed

lemma entry_total: "ctx T d md fr \<Longrightarrow> call_ok T md fr \<Longrightarrow> match_loop rm True md fr \<noteq> None"
  by (erule (1) entered_total) (rule loop_total)

end

text \<open>
  Every level of the recursion is such a matcher for the one above it; below the last level no call
  is made, because it stands at \<open>match_limit_recursion\<close>.
\<close>

lemma loop_limit:
  assumes "match_loop rm True md fr = Some (rrc, md')" "match_limit md \<le> match_call_count md"
  shows "rrc = PCRE_ERROR_MATCHLIMIT"
  using assms by (subst (asm) match_loop.simps) (simp add: enter_def Let_def)

lemma total_matcher_match_at: "total_matcher (match_at d) T d"
proof (induction d)
  case 0
  have c: "match_contract (\<lambda>_ _. None)" by unfold_locales simp
  show ?case
  proof unfold_locales
    show "match_at 0 md fr \<noteq> None" if "match_limit_recursion md \<le> rdepth fr + 0" for md fr
      using that by (simp add: match_loop.simps enter_def Let_def)
  qed (auto intro: match_loop_counts [OF c] loop_limit)
next
  case (Suc d)
  have t: "match_loop (match_at d) True md fr \<noteq> None" if "ctx T d md fr" "call_ok T md fr" for md fr
    by (rule total_matcher.entry_total [OF Suc that])
  show ?case
  proof unfold_locales
    show "match_at (Suc d) md fr \<noteq> None" if "md_ok md" "fr_ok md fr" "well_typed T (utf md) (start_code md)"
      "call_ok T md fr" "match_limit_recursion md \<le> rdepth fr + Suc d" for md fr
      using t [of md fr] that by (simp add: ctx_def)
  qed (auto intro: match_loop_counts [OF match_contract_match_at] loop_limit)
qed

interpretation total_match_at: total_matcher "match_at d" T d for T d
  by (rule total_matcher_match_at)

text \<open>
  C3: Well-formed code does not get stuck: on code that has a typing, and from a frame in order,
  \<open>match()\<close> returns for every subject, every limit and every callout function. It neither runs off
  the code, nor takes from an empty chain of subject pointers, nor runs for ever.
\<close>

theorem match_returns:
  assumes "well_typed T (utf md) (start_code md)" "md_ok md" "fr_ok md fr" "call_ok T md fr"
  shows "\<exists>rrc md'. match md fr = Some (rrc, md')"
proof -
  let ?d = "match_limit_recursion md - rdepth fr"
  have "match_at ?d md fr \<noteq> None"
    by (rule total_match_at.total [where T = T]) (use assms in auto)
  then show ?thesis by (auto simp: match_def)
qed

text \<open>C4: A code keeps the typing: on well typed code and from a frame in order it does not get stuck,
  and when it goes on, in this loop or by a tail call, the new position is typed for the chain of
  subject pointers that the new frame has. Going on in the loop is a move forward in the code.\<close>

theorem step_preserves_typing:
  assumes "well_typed T (utf md) (start_code md)" "md_ok md" "fr_ok md fr"
    "flows T (length (eptrb fr)) (ecode fr)" "match_limit_recursion md \<le> rdepth fr + Suc d"
  shows "\<exists>out. step (match_at d) md fr = Some out \<and>
    (case out of Ret rrc md' \<Rightarrow> True
     | Cont fr' md' \<Rightarrow> flows T (length (eptrb fr')) (ecode fr') \<and> ecode fr < ecode fr'
     | Tail fr' md' \<Rightarrow> flows T (length (eptrb fr')) (ecode fr'))"
proof -
  have "safe T fr (step (match_at d) md fr)"
    by (rule total_match_at.step_safe) (use assms in \<open>simp_all add: ctx_def at_ok_def\<close>)
  then obtain out where out: "step (match_at d) md fr = Some out" "goes T fr out" by (auto simp: returns_def)
  from out(2) show ?thesis by (cases out) (simp_all add: out(1) at_ok_def)
qed

text \<open>A typing of the example: no position needs a saved pointer.\<close>

definition example_typing :: typing where
  "example_typing = [Some 0, None, None, Some 0, None, None, None, None, Some 0, None, Some 0, None, None,
     Some 0, None, Some 0, None, None, Some 0]"

lemma example_typed: "well_typed example_typing False example_code"
  by (simp add: well_typed_def example_typing_def example_code_def depth_at_def nth_default_def
      upt_rec [of "Suc n" for n] upt_rec instr_ok_def simple_next_def opc_def rd_def Let_def flows_def
      group_ok_def alts_ok.simps GET_eq saves_def op_length_def OP_lengths_def is_ket_def ket_ok_def
      getcharlentest_def)

theorem match_returns_witness:
  "\<exists>rrc md'. match (example_md example_code [97, 98]) example_fr = Some (rrc, md')"
  by (rule match_returns [of example_typing, OF _ example_ok])
    (use example_typed in \<open>simp_all add: example_md_def call_ok_def flows_def example_typing_def depth_at_def example_fr_def\<close>)

theorem step_preserves_typing_witness:
  "\<exists>out. step (match_at 19) (example_md example_code [97, 98]) example_fr = Some out \<and>
    (case out of Ret rrc md' \<Rightarrow> True
     | Cont fr' md' \<Rightarrow> flows example_typing (length (eptrb fr')) (ecode fr') \<and> ecode example_fr < ecode fr'
     | Tail fr' md' \<Rightarrow> flows example_typing (length (eptrb fr')) (ecode fr'))"
  by (rule step_preserves_typing [OF _ example_ok])
    (use example_typed in \<open>simp_all add: example_md_def flows_def example_typing_def depth_at_def example_fr_def\<close>)

end
