(* ===== verification/CompiledPattern.thy ===== *)
theory CompiledPattern
  imports Opcodes
begin

text \<open>
  The block of a compiled pattern and the functions of the library that read and maintain its
  header: \<open>pcre_fullinfo()\<close>, \<open>pcre_refcount()\<close> and \<open>pcre_pattern_to_host_byte_order()\<close>
  (\<open>pcre_fullinfo.c\<close>, \<open>pcre_refcount.c\<close>, \<open>pcre_byte_order.c\<close>, for the 8-bit library). Header fields
  have their C widths. The bytes of the block, the name table and the code among them, are the
  field \<open>re_block\<close>; a pointer into them is an offset.
\<close>

subsection \<open>Flags and options\<close>

abbreviation (input) "MAGIC_NUMBER \<equiv> (0x50435245 :: 32 word)"
abbreviation (input) "REVERSED_MAGIC_NUMBER \<equiv> (0x45524350 :: 32 word)"
abbreviation (input) "PCRE_MODE8 \<equiv> (0x1 :: 32 word)"
abbreviation (input) "PCRE_FIRSTSET \<equiv> (0x10 :: 32 word)"
abbreviation (input) "PCRE_FCH_CASELESS \<equiv> (0x20 :: 32 word)"
abbreviation (input) "PCRE_REQCHSET \<equiv> (0x40 :: 32 word)"
abbreviation (input) "PCRE_RCH_CASELESS \<equiv> (0x80 :: 32 word)"
abbreviation (input) "PCRE_STARTLINE \<equiv> (0x100 :: 32 word)"
abbreviation (input) "PCRE_NOPARTIAL \<equiv> (0x200 :: 32 word)"
abbreviation (input) "PCRE_JCHANGED \<equiv> (0x400 :: 32 word)"
abbreviation (input) "PCRE_HASCRORLF \<equiv> (0x800 :: 32 word)"
abbreviation (input) "PCRE_HASTHEN \<equiv> (0x1000 :: 32 word)"
abbreviation (input) "PCRE_MLSET \<equiv> (0x2000 :: 32 word)"
abbreviation (input) "PCRE_RLSET \<equiv> (0x4000 :: 32 word)"
abbreviation (input) "PCRE_MATCH_EMPTY \<equiv> (0x8000 :: 32 word)"

abbreviation (input) "PCRE_STUDY_MAPPED \<equiv> (0x1 :: 32 word)"
abbreviation (input) "PCRE_STUDY_MINLEN \<equiv> (0x2 :: 32 word)"

abbreviation (input) "PCRE_EXTRA_STUDY_DATA \<equiv> (0x1 :: 64 word)"
abbreviation (input) "PCRE_EXTRA_MATCH_LIMIT \<equiv> (0x2 :: 64 word)"
abbreviation (input) "PCRE_EXTRA_CALLOUT_DATA \<equiv> (0x4 :: 64 word)"
abbreviation (input) "PCRE_EXTRA_TABLES \<equiv> (0x8 :: 64 word)"
abbreviation (input) "PCRE_EXTRA_MATCH_LIMIT_RECURSION \<equiv> (0x10 :: 64 word)"
abbreviation (input) "PCRE_EXTRA_MARK \<equiv> (0x20 :: 64 word)"
abbreviation (input) "PCRE_EXTRA_EXECUTABLE_JIT \<equiv> (0x40 :: 64 word)"

abbreviation (input) "PCRE_DUPNAMES \<equiv> (0x80000 :: 32 word)"

text \<open>The options of \<open>pcre_compile()\<close>, all but the ones for matching only.\<close>

definition PUBLIC_COMPILE_OPTIONS :: "32 word" where
  "PUBLIC_COMPILE_OPTIONS =
    0x1 OR 0x8 OR 0x10 OR 0x2 OR 0x4 OR 0x20 OR 0x40 OR 0x200 OR 0x800 OR 0x1000 OR 0x20000 OR
    0x2000 OR 0x4000 OR 0x40000 OR 0x80000 OR 0x100000 OR 0x200000 OR 0x400000 OR 0x500000 OR
    0x800000 OR 0x1000000 OR 0x2000000 OR 0x20000000 OR 0x4000000 OR 0x10000"

subsection \<open>The blocks\<close>

record real_pcre =
  re_magic_number :: "32 word"
  re_size :: "32 word"
  re_options :: "32 word"
  re_flags :: "32 word"
  re_limit_match :: "32 word"
  re_limit_recursion :: "32 word"
  re_first_char :: "16 word"
  re_req_char :: "16 word"
  re_max_lookbehind :: "16 word"
  re_top_bracket :: "16 word"
  re_top_backref :: "16 word"
  re_name_table_offset :: "16 word"
  re_name_entry_size :: "16 word"
  re_name_count :: "16 word"
  re_ref_count :: "16 word"
  re_tables :: "byte list option"
  re_block :: "byte list"

record pcre_study_data =
  sd_size :: "32 word"
  sd_flags :: "32 word"
  sd_start_bits :: "byte list"
  sd_minlength :: "32 word"

text \<open>The block of \<open>pcre_extra\<close>; the code of the just-in-time compiler is an opaque handle.\<close>

record pcre_extra =
  ex_flags :: "64 word"
  ex_study_data :: "pcre_study_data option"
  ex_match_limit :: "64 word"
  ex_callout_data :: nat
  ex_tables :: "byte list option"
  ex_match_limit_recursion :: "64 word"
  ex_executable_jit :: "nat option"

text \<open>A flag bit.\<close>

definition has :: "'a::len word \<Rightarrow> 'a word \<Rightarrow> bool" where
  "has flags b \<longleftrightarrow> flags AND b \<noteq> 0"

subsection \<open>Information about a compiled pattern\<close>

datatype info =
    Info_int int
  | Info_uint "32 word"
  | Info_size nat
  | Info_bits "byte list option"
  | Info_pointer nat
  | Info_default_tables

definition int_of_bool :: "bool \<Rightarrow> int" where
  "int_of_bool b = (if b then 1 else 0)"

text \<open>The study data, if the extra block says that there are some.\<close>

definition study_of :: "pcre_extra option \<Rightarrow> pcre_study_data option" where
  "study_of extra =
    (case extra of None \<Rightarrow> None
     | Some ex \<Rightarrow> if has (ex_flags ex) PCRE_EXTRA_STUDY_DATA then ex_study_data ex else None)"

definition jit_of :: "pcre_extra option \<Rightarrow> nat option" where
  "jit_of extra =
    (case extra of None \<Rightarrow> None
     | Some ex \<Rightarrow> if has (ex_flags ex) PCRE_EXTRA_EXECUTABLE_JIT then ex_executable_jit ex else None)"

text \<open>The switch on \<open>what\<close>; \<open>jit_size\<close> is \<open>PRIV(jit_get_size)\<close>.\<close>

definition fullinfo_item ::
  "(nat \<Rightarrow> nat) \<Rightarrow> real_pcre \<Rightarrow> pcre_extra option \<Rightarrow> int \<Rightarrow> int + info"
where
  "fullinfo_item jit_size re extra what =
    (let study = study_of extra; flag = has (re_flags re) in
     if what = 0 then Inr (Info_uint (re_options re AND PUBLIC_COMPILE_OPTIONS))
     else if what = 1 then Inr (Info_size (unat (re_size re)))
     else if what = 10 then Inr (Info_size (case study of None \<Rightarrow> 0 | Some s \<Rightarrow> unat (sd_size s)))
     else if what = 17 then Inr (Info_size (case jit_of extra of None \<Rightarrow> 0 | Some j \<Rightarrow> jit_size j))
     else if what = 2 then Inr (Info_int (uint (re_top_bracket re)))
     else if what = 3 then Inr (Info_int (uint (re_top_backref re)))
     else if what = 4 then Inr (Info_int (if flag PCRE_FIRSTSET then uint (re_first_char re)
       else if flag PCRE_STARTLINE then -1 else -2))
     else if what = 19 then Inr (Info_uint (if flag PCRE_FIRSTSET then ucast (re_first_char re) else 0))
     else if what = 20 then Inr (Info_int (if flag PCRE_FIRSTSET then 1 else if flag PCRE_STARTLINE then 2 else 0))
     else if what = 5 then Inr (Info_bits (case study of None \<Rightarrow> None
       | Some s \<Rightarrow> if has (sd_flags s) PCRE_STUDY_MAPPED then Some (sd_start_bits s) else None))
     else if what = 15 then Inr (Info_int (case study of None \<Rightarrow> -1
       | Some s \<Rightarrow> if has (sd_flags s) PCRE_STUDY_MINLEN then sint (sd_minlength s) else -1))
     else if what = 16 then Inr (Info_int (int_of_bool (jit_of extra \<noteq> None)))
     else if what = 6 then Inr (Info_int (if flag PCRE_REQCHSET then uint (re_req_char re) else -1))
     else if what = 21 then Inr (Info_uint (if flag PCRE_REQCHSET then ucast (re_req_char re) else 0))
     else if what = 22 then Inr (Info_int (int_of_bool (flag PCRE_REQCHSET)))
     else if what = 7 then Inr (Info_int (uint (re_name_entry_size re)))
     else if what = 8 then Inr (Info_int (uint (re_name_count re)))
     else if what = 9 then Inr (Info_pointer (unat (re_name_table_offset re)))
     else if what = 11 then Inr Info_default_tables
     else if what = 12 then Inr (Info_int (int_of_bool (\<not> flag PCRE_NOPARTIAL)))
     else if what = 13 then Inr (Info_int (int_of_bool (flag PCRE_JCHANGED)))
     else if what = 14 then Inr (Info_int (int_of_bool (flag PCRE_HASCRORLF)))
     else if what = 18 then Inr (Info_int (uint (re_max_lookbehind re)))
     else if what = 23 then
       (if \<not> flag PCRE_MLSET then Inl PCRE_ERROR_UNSET else Inr (Info_uint (re_limit_match re)))
     else if what = 24 then
       (if \<not> flag PCRE_RLSET then Inl PCRE_ERROR_UNSET else Inr (Info_uint (re_limit_recursion re)))
     else if what = 25 then Inr (Info_int (int_of_bool (flag PCRE_MATCH_EMPTY)))
     else Inl PCRE_ERROR_BADOPTION)"

definition pcre_fullinfo ::
  "(nat \<Rightarrow> nat) \<Rightarrow> real_pcre option \<Rightarrow> pcre_extra option \<Rightarrow> int \<Rightarrow> bool \<Rightarrow> int + info"
where
  "pcre_fullinfo jit_size argument_re extra what where_null =
    (case argument_re of
       None \<Rightarrow> Inl PCRE_ERROR_NULL
     | Some re \<Rightarrow>
         if where_null then Inl PCRE_ERROR_NULL
         else if re_magic_number re \<noteq> MAGIC_NUMBER then
           Inl (if re_magic_number re = REVERSED_MAGIC_NUMBER then PCRE_ERROR_BADENDIANNESS
                else PCRE_ERROR_BADMAGIC)
         else if \<not> has (re_flags re) PCRE_MODE8 then Inl PCRE_ERROR_BADMODE
         else fullinfo_item jit_size re extra what)"

subsection \<open>The reference count\<close>

text \<open>
  The result and the block afterwards. The additions are those of the C type \<open>int\<close>; \<open>None\<close> is
  an overflow of one of them.
\<close>

definition new_ref_count :: "int \<Rightarrow> int \<Rightarrow> int option" where
  "new_ref_count adjust count =
    (if \<not> in_int (- adjust) then None
     else if - adjust > count then Some 0
     else if \<not> in_int (adjust + count) then None
     else if adjust + count > 65535 then Some 65535
     else Some (count + adjust))"

definition pcre_refcount :: "real_pcre option \<Rightarrow> int \<Rightarrow> (int \<times> real_pcre option) option" where
  "pcre_refcount argument_re adjust =
    (case argument_re of
       None \<Rightarrow> Some (PCRE_ERROR_NULL, None)
     | Some re \<Rightarrow>
         if re_magic_number re \<noteq> MAGIC_NUMBER then Some (PCRE_ERROR_BADMAGIC, argument_re)
         else if \<not> has (re_flags re) PCRE_MODE8 then Some (PCRE_ERROR_BADMODE, argument_re)
         else
           (case new_ref_count adjust (uint (re_ref_count re)) of
              None \<Rightarrow> None
            | Some n \<Rightarrow>
                let re = re\<lparr>re_ref_count := word_of_int n\<rparr>
                in Some (uint (re_ref_count re), Some re)))"

subsection \<open>Byte order\<close>

definition swap_uint32 :: "32 word \<Rightarrow> 32 word" where
  "swap_uint32 value =
    push_bit 24 (value AND 0x000000ff) OR
    push_bit 8 (value AND 0x0000ff00) OR
    drop_bit 8 (value AND 0x00ff0000) OR
    drop_bit 24 value"

definition swap_uint16 :: "16 word \<Rightarrow> 16 word" where
  "swap_uint16 value = drop_bit 8 value OR push_bit 8 value"

definition swap_study :: "pcre_study_data \<Rightarrow> pcre_study_data" where
  "swap_study s = s\<lparr>sd_size := swap_uint32 (sd_size s), sd_flags := swap_uint32 (sd_flags s),
     sd_minlength := swap_uint32 (sd_minlength s)\<rparr>"

definition swap_header :: "byte list option \<Rightarrow> real_pcre \<Rightarrow> real_pcre" where
  "swap_header tabs re = re\<lparr>
     re_magic_number := MAGIC_NUMBER,
     re_size := swap_uint32 (re_size re),
     re_options := swap_uint32 (re_options re),
     re_flags := swap_uint32 (re_flags re),
     re_limit_match := swap_uint32 (re_limit_match re),
     re_limit_recursion := swap_uint32 (re_limit_recursion re),
     re_first_char := swap_uint16 (re_first_char re),
     re_req_char := swap_uint16 (re_req_char re),
     re_max_lookbehind := swap_uint16 (re_max_lookbehind re),
     re_top_bracket := swap_uint16 (re_top_bracket re),
     re_top_backref := swap_uint16 (re_top_backref re),
     re_name_table_offset := swap_uint16 (re_name_table_offset re),
     re_name_entry_size := swap_uint16 (re_name_entry_size re),
     re_name_count := swap_uint16 (re_name_count re),
     re_ref_count := swap_uint16 (re_ref_count re),
     re_tables := tabs\<rparr>"

text \<open>
  The result, the pattern and the extra block afterwards. An extra block that claims study data
  and has none makes the code follow a null pointer: \<open>None\<close>.
\<close>

definition swap_extra :: "pcre_extra option \<Rightarrow> pcre_extra option option" where
  "swap_extra extra =
    (case extra of
       None \<Rightarrow> Some None
     | Some ex \<Rightarrow>
         if \<not> has (ex_flags ex) PCRE_EXTRA_STUDY_DATA then Some extra
         else
           (case ex_study_data ex of
              None \<Rightarrow> None
            | Some s \<Rightarrow> Some (Some (ex\<lparr>ex_study_data := Some (swap_study s)\<rparr>))))"

definition pcre_pattern_to_host_byte_order ::
  "real_pcre option \<Rightarrow> pcre_extra option \<Rightarrow> byte list option \<Rightarrow>
     (int \<times> real_pcre option \<times> pcre_extra option) option"
where
  "pcre_pattern_to_host_byte_order argument_re extra tabs =
    (case argument_re of
       None \<Rightarrow> Some (PCRE_ERROR_NULL, argument_re, extra)
     | Some re \<Rightarrow>
         if re_magic_number re = MAGIC_NUMBER then
           (if \<not> has (re_flags re) PCRE_MODE8 then Some (PCRE_ERROR_BADMODE, argument_re, extra)
            else Some (0, Some (re\<lparr>re_tables := tabs\<rparr>), extra))
         else if re_magic_number re \<noteq> REVERSED_MAGIC_NUMBER then Some (PCRE_ERROR_BADMAGIC, argument_re, extra)
         else if \<not> has (swap_uint32 (re_flags re)) PCRE_MODE8 then Some (PCRE_ERROR_BADMODE, argument_re, extra)
         else
           (case swap_extra extra of
              None \<Rightarrow> None
            | Some extra \<Rightarrow> Some (0, Some (swap_header tabs re), extra)))"

subsection \<open>Lemmas\<close>

lemma bit_byte_masks:
  "bit (0xff :: 32 word) n \<longleftrightarrow> n < 8"
  "bit (0xff00 :: 32 word) n \<longleftrightarrow> 8 \<le> n \<and> n < 16"
  "bit (0xff0000 :: 32 word) n \<longleftrightarrow> 16 \<le> n \<and> n < 24"
proof -
  have m: "(0xff :: 32 word) = mask 8" "(0xff00 :: 32 word) = push_bit 8 (mask 8)"
    "(0xff0000 :: 32 word) = push_bit 16 (mask 8)" by (simp_all add: mask_eq_exp_minus_1)
  show "bit (0xff :: 32 word) n \<longleftrightarrow> n < 8" "bit (0xff00 :: 32 word) n \<longleftrightarrow> 8 \<le> n \<and> n < 16"
    "bit (0xff0000 :: 32 word) n \<longleftrightarrow> 16 \<le> n \<and> n < 24"
    unfolding m by (auto simp: bit_simps)
qed

lemma bit_swap_uint32:
  "bit (swap_uint32 v) n \<longleftrightarrow> n < 32 \<and>
     bit v (if n < 8 then n + 24 else if n < 16 then n + 8 else if n < 24 then n - 8 else n - 24)"
  unfolding swap_uint32_def bit_or_iff bit_push_bit_iff bit_drop_bit_eq bit_and_iff comp_def bit_byte_masks
  by (auto simp: add.commute dest: bit_imp_le_length)

lemma swap_uint32_twice [simp]: "swap_uint32 (swap_uint32 v) = v"
  by (rule bit_word_eqI) (auto simp: bit_swap_uint32)

lemma bit_swap_uint16: "bit (swap_uint16 v) n \<longleftrightarrow> n < 16 \<and> bit v (if n < 8 then n + 8 else n - 8)"
  by (auto simp: swap_uint16_def bit_simps add.commute dest: bit_imp_le_length)

lemma swap_uint16_twice [simp]: "swap_uint16 (swap_uint16 v) = v"
  by (rule bit_word_eqI) (auto simp: bit_swap_uint16)

subsection \<open>Properties\<close>

text \<open>What a host sees of a pattern that was saved on a host of the other byte order.\<close>

definition other_host :: "byte list option \<Rightarrow> real_pcre \<Rightarrow> real_pcre" where
  "other_host junk re = (swap_header junk re)\<lparr>re_magic_number := REVERSED_MAGIC_NUMBER\<rparr>"

definition other_extra :: "pcre_extra option \<Rightarrow> pcre_extra option" where
  "other_extra extra = map_option (\<lambda>ex. if has (ex_flags ex) PCRE_EXTRA_STUDY_DATA
     then ex\<lparr>ex_study_data := map_option swap_study (ex_study_data ex)\<rparr> else ex) extra"

definition study_present :: "pcre_extra option \<Rightarrow> bool" where
  "study_present extra \<longleftrightarrow>
    (case extra of None \<Rightarrow> True
     | Some ex \<Rightarrow> has (ex_flags ex) PCRE_EXTRA_STUDY_DATA \<longrightarrow> ex_study_data ex \<noteq> None)"

definition valid_block :: "real_pcre \<Rightarrow> bool" where
  "valid_block re \<longleftrightarrow> re_magic_number re = MAGIC_NUMBER \<and> has (re_flags re) PCRE_MODE8"

lemma swap_study_twice [simp]: "swap_study (swap_study s) = s"
  by (simp add: swap_study_def)

lemma swap_header_other [simp]:
  "re_magic_number re = MAGIC_NUMBER \<Longrightarrow> swap_header tabs (other_host junk re) = re\<lparr>re_tables := tabs\<rparr>"
  by (simp add: swap_header_def other_host_def)

lemma swap_extra_other: "study_present extra \<Longrightarrow> swap_extra (other_extra extra) = Some extra"
  by (auto simp: swap_extra_def other_extra_def study_present_def split: option.splits)

definition example_re :: real_pcre where
  "example_re = \<lparr>re_magic_number = MAGIC_NUMBER, re_size = 72, re_options = 0x800, re_flags = 0x11,
     re_limit_match = 1000, re_limit_recursion = 0, re_first_char = 97, re_req_char = 98,
     re_max_lookbehind = 1, re_top_bracket = 2, re_top_backref = 0, re_name_table_offset = 64,
     re_name_entry_size = 4, re_name_count = 2, re_ref_count = 3, re_tables = None,
     re_block = replicate 64 0 @ [0, 2, 97, 0, 0, 1, 98, 0]\<rparr>"

lemma example_re_valid: "valid_block example_re"
  by (simp add: valid_block_def example_re_def has_def)



text \<open>
  Such a pattern is refused by \<open>pcre_fullinfo()\<close> and \<open>pcre_refcount()\<close> until it is converted,
  and then gives the same information about every item.
\<close>

theorem fullinfo_other_host:
  assumes "valid_block re" "study_present extra"
  shows "pcre_fullinfo js (Some (other_host junk re)) (other_extra extra) what False = Inl PCRE_ERROR_BADENDIANNESS \<and>
    pcre_refcount (Some (other_host junk re)) adjust = Some (PCRE_ERROR_BADMAGIC, Some (other_host junk re)) \<and>
    (\<exists>re' extra'. pcre_pattern_to_host_byte_order (Some (other_host junk re)) (other_extra extra) tabs =
       Some (0, Some re', extra') \<and>
       pcre_fullinfo js (Some re') extra' what null = pcre_fullinfo js (Some re) extra what null)"
proof -
  have "swap_extra (other_extra extra) = Some extra" using assms(2) by (rule swap_extra_other)
  moreover have "re_flags (other_host junk re) = swap_uint32 (re_flags re)"
    "re_magic_number (other_host junk re) = REVERSED_MAGIC_NUMBER"
    by (simp_all add: other_host_def swap_header_def)
  moreover have "fullinfo_item js (re\<lparr>re_tables := tabs\<rparr>) extra what = fullinfo_item js re extra what"
    by (simp add: fullinfo_item_def cong: if_cong)
  ultimately show ?thesis
    using assms(1)
    by (simp add: pcre_pattern_to_host_byte_order_def valid_block_def pcre_fullinfo_def pcre_refcount_def)
qed

theorem fullinfo_other_host_witness:
  "pcre_fullinfo id (Some (other_host None example_re)) None 2 False = Inl PCRE_ERROR_BADENDIANNESS"
  using fullinfo_other_host [OF example_re_valid, of None id None 2 0 None False]
  by (simp add: study_present_def other_extra_def)

text \<open>
  C38: The reference count is added to, and stays between 0 and 65535; nothing else is changed.
\<close>

theorem refcount_clamps:
  assumes "valid_block re" "- (2 ^ 31) < adjust" "adjust < 2 ^ 31 - 65536"
    and "n = max 0 (min 65535 (uint (re_ref_count re) + adjust))"
  shows "pcre_refcount (Some re) adjust = Some (n, Some (re\<lparr>re_ref_count := word_of_int n\<rparr>)) \<and>
    uint (word_of_int n :: 16 word) = n"
proof -
  have c: "0 \<le> uint (re_ref_count re)" "uint (re_ref_count re) \<le> 65535"
    using uint_bounded [of "re_ref_count re"] by simp_all
  then have n: "new_ref_count adjust (uint (re_ref_count re)) = Some n" "0 \<le> n" "n < 65536"
    using assms(2-4) by (auto simp: new_ref_count_def in_int_def)
  then have "uint (word_of_int n :: 16 word) = n" by (simp add: uint_word_of_int take_bit_int_eq_self)
  with n(1) assms(1) show ?thesis
    by (simp add: pcre_refcount_def valid_block_def)
qed

theorem refcount_clamps_witness:
  "pcre_refcount (Some example_re) (-5) = Some (0, Some (example_re\<lparr>re_ref_count := 0\<rparr>))"
  using refcount_clamps [OF example_re_valid, of "-5" 0] by (simp add: example_re_def)

text \<open>The test for the upper bound overflows itself for the largest adjustments.\<close>

theorem refcount_overflow:
  "pcre_refcount (Some example_re) (2 ^ 31 - 1) = None"
  by (simp add: pcre_refcount_def example_re_def has_def new_ref_count_def in_int_def)

end
