(* ===== verification/NameTable.thy ===== *)
theory NameTable
  imports CompiledPattern "HOL-Library.List_Lexorder" "HOL-Library.Multiset"
begin

text \<open>
  The table of the named groups: how the compiler adds a name (\<open>add_name()\<close> of \<open>pcre_compile.c\<close>)
  and how names are looked up afterwards (\<open>pcre_get_stringnumber()\<close>,
  \<open>pcre_get_stringtable_entries()\<close> and \<open>get_first_set()\<close> of \<open>pcre_get.c\<close>). The table is a run of
  bytes: entries of equal size, each a two-byte group number and a zero-terminated name. What
  the table means is the list of its names and numbers; the insertion keeps it sorted, which is
  what the binary search relies on.
\<close>

subsection \<open>Names\<close>

text \<open>A zero-terminated string in memory, and \<open>strcmp()\<close>.\<close>

definition c_string :: "byte list \<Rightarrow> nat \<Rightarrow> byte list" where
  "c_string mem p = takeWhile (\<lambda>b. b \<noteq> 0) (drop p mem)"

fun strcmp :: "byte list \<Rightarrow> byte list \<Rightarrow> int" where
  "strcmp [] [] = 0"
| "strcmp [] (y # ys) = -1"
| "strcmp (x # xs) [] = 1"
| "strcmp (x # xs) (y # ys) = (if x = y then strcmp xs ys else if x > y then 1 else -1)"

text \<open>Entry \<open>i\<close> of a table at \<open>nt\<close>.\<close>

definition name_at_entry :: "byte list \<Rightarrow> nat \<Rightarrow> nat \<Rightarrow> nat \<Rightarrow> byte list" where
  "name_at_entry mem nt es i = c_string mem (nt + es * i + IMM2_SIZE)"

definition number_at_entry :: "byte list \<Rightarrow> nat \<Rightarrow> nat \<Rightarrow> nat \<Rightarrow> nat" where
  "number_at_entry mem nt es i = GET2 mem (nt + es * i) 0"

subsection \<open>Lookup\<close>

text \<open>The header items that the lookups ask for, in their order.\<close>

definition name_info :: "real_pcre option \<Rightarrow> int + (nat \<times> nat \<times> nat)" where
  "name_info code =
    (case pcre_fullinfo (\<lambda>_. 0) code None 8 False of
       Inr (Info_int n) \<Rightarrow>
         if n \<le> 0 then Inl PCRE_ERROR_NOSUBSTRING
         else
           (case pcre_fullinfo (\<lambda>_. 0) code None 7 False of
              Inr (Info_int es) \<Rightarrow>
                (case pcre_fullinfo (\<lambda>_. 0) code None 9 False of
                   Inr (Info_pointer nt) \<Rightarrow> Inr (nat n, nat es, nt)
                 | Inl rc \<Rightarrow> Inl rc)
            | Inl rc \<Rightarrow> Inl rc)
     | Inl rc \<Rightarrow> Inl rc)"

text \<open>The binary search \<open>while (top > bot)\<close>: the index of an entry with the name.\<close>

function find_name :: "byte list \<Rightarrow> nat \<Rightarrow> nat \<Rightarrow> byte list \<Rightarrow> nat \<Rightarrow> nat \<Rightarrow> nat option" where
  "find_name mem nt es name hi lo =
    (if hi > lo then
       let mid = (hi + lo) div 2; c = strcmp name (name_at_entry mem nt es mid) in
       if c = 0 then Some mid
       else if c > 0 then find_name mem nt es name hi (mid + 1)
       else find_name mem nt es name mid lo
     else None)"
  by pat_completeness auto
termination
  by (relation "measure (\<lambda>(mem, nt, es, name, hi, lo). hi - lo)") auto

declare find_name.simps [simp del]

definition block_of :: "real_pcre option \<Rightarrow> byte list" where
  "block_of code = (case code of None \<Rightarrow> [] | Some re \<Rightarrow> re_block re)"

definition pcre_get_stringnumber :: "real_pcre option \<Rightarrow> byte list \<Rightarrow> int" where
  "pcre_get_stringnumber code stringname =
    (case name_info code of
       Inl rc \<Rightarrow> rc
     | Inr (n, es, nt) \<Rightarrow>
         (case find_name (block_of code) nt es stringname n 0 of
            None \<Rightarrow> PCRE_ERROR_NOSUBSTRING
          | Some i \<Rightarrow> int (number_at_entry (block_of code) nt es i)))"

text \<open>From an entry with the name, back to the first one and on to the last one.\<close>

fun run_first :: "(nat \<Rightarrow> byte list) \<Rightarrow> byte list \<Rightarrow> nat \<Rightarrow> nat" where
  "run_first entry name 0 = 0"
| "run_first entry name (Suc i) = (if strcmp name (entry i) \<noteq> 0 then Suc i else run_first entry name i)"

function run_last :: "(nat \<Rightarrow> byte list) \<Rightarrow> byte list \<Rightarrow> nat \<Rightarrow> nat \<Rightarrow> nat" where
  "run_last entry name lastentry i =
    (if i < lastentry then
       if strcmp name (entry (i + 1)) \<noteq> 0 then i else run_last entry name lastentry (i + 1)
     else i)"
  by pat_completeness auto
termination
  by (relation "measure (\<lambda>(entry, name, lastentry, i). lastentry - i)") auto

declare run_last.simps [simp del]

text \<open>An error, or the size of the entries with the indices of the first and last one.\<close>

definition pcre_get_stringtable_entries :: "real_pcre option \<Rightarrow> byte list \<Rightarrow> int + (nat \<times> nat \<times> nat)" where
  "pcre_get_stringtable_entries code stringname =
    (case name_info code of
       Inl rc \<Rightarrow> Inl rc
     | Inr (n, es, nt) \<Rightarrow>
         let entry = name_at_entry (block_of code) nt es in
         (case find_name (block_of code) nt es stringname n 0 of
            None \<Rightarrow> Inl PCRE_ERROR_NOSUBSTRING
          | Some i \<Rightarrow> Inr (es, run_first entry stringname i, run_last entry stringname (n - 1) i)))"

text \<open>
  The loop over the entries of a name for the first group that is set; after the loop the pointer
  is behind the last entry.
\<close>

function first_set_loop :: "(nat \<Rightarrow> nat) \<Rightarrow> int list \<Rightarrow> int \<Rightarrow> nat \<Rightarrow> nat \<Rightarrow> nat" where
  "first_set_loop number ovector stringcount lst i =
    (if i \<le> lst then
       let n = number i in
       if int n < stringcount \<and> nth_default (-1) ovector (n * 2) \<ge> 0 then n
       else first_set_loop number ovector stringcount lst (i + 1)
     else number i)"
  by pat_completeness auto
termination
  by (relation "measure (\<lambda>(number, ovector, stringcount, lst, i). Suc lst - i)") auto

declare first_set_loop.simps [simp del]

definition get_first_set :: "real_pcre \<Rightarrow> byte list \<Rightarrow> int list \<Rightarrow> int \<Rightarrow> int" where
  "get_first_set re stringname ovector stringcount =
    (if \<not> has (re_options re) PCRE_DUPNAMES \<and> \<not> has (re_flags re) PCRE_JCHANGED
     then pcre_get_stringnumber (Some re) stringname
     else
       (case pcre_get_stringtable_entries (Some re) stringname of
          Inl rc \<Rightarrow> rc
        | Inr (es, first, lst) \<Rightarrow>
            if es = 0 then 0
            else int (first_set_loop (number_at_entry (re_block re) (unat (re_name_table_offset re)) es)
                   ovector stringcount lst first)))"

subsection \<open>Adding a name\<close>

definition PUT2 :: "byte list \<Rightarrow> nat \<Rightarrow> nat \<Rightarrow> nat \<Rightarrow> byte list" where
  "PUT2 code p n d = code[p + n := to_byte (drop_bit 8 d), p + n + 1 := to_byte (d AND 255)]"

text \<open>\<open>memcpy()\<close> and \<open>memmove()\<close> inside one array.\<close>

definition store :: "byte list \<Rightarrow> nat \<Rightarrow> byte list \<Rightarrow> byte list" where
  "store mem p xs = take p mem @ xs @ drop (p + length xs) mem"

definition memmove :: "byte list \<Rightarrow> nat \<Rightarrow> nat \<Rightarrow> nat \<Rightarrow> byte list" where
  "memmove mem dst src n = store mem dst (take n (drop src mem))"

text \<open>\<open>memcmp()\<close> of a name with the bytes of an entry, corrected for a name that is a prefix.\<close>

fun memcmp :: "byte list \<Rightarrow> byte list \<Rightarrow> int" where
  "memcmp (x # xs) (y # ys) = (if x = y then memcmp xs ys else if x > y then 1 else -1)"
| "memcmp _ _ = 0"

definition name_compare :: "byte list \<Rightarrow> nat \<Rightarrow> byte list \<Rightarrow> int" where
  "name_compare tab slot name =
    (let crc = memcmp name (take (length name) (drop (slot + IMM2_SIZE) tab)) in
     if crc = 0 \<and> rd tab (slot + IMM2_SIZE + length name) \<noteq> 0 then -1 else crc)"

text \<open>The place for the new name: before the first later one.\<close>

function add_name_slot :: "byte list \<Rightarrow> nat \<Rightarrow> nat \<Rightarrow> byte list \<Rightarrow> nat \<Rightarrow> nat" where
  "add_name_slot tab es found name i =
    (if i < found then
       if name_compare tab (es * i) name < 0 then i else add_name_slot tab es found name (i + 1)
     else i)"
  by pat_completeness auto
termination
  by (relation "measure (\<lambda>(tab, es, found, name, i). found - i)") auto

declare add_name_slot.simps [simp del]

definition add_name :: "byte list \<Rightarrow> nat \<Rightarrow> nat \<Rightarrow> byte list \<Rightarrow> nat \<Rightarrow> byte list \<times> nat" where
  "add_name tab es found name groupno =
    (let i = add_name_slot tab es found name 0; slot = es * i;
         tab = (if i < found then memmove tab (slot + es) slot ((found - i) * es) else tab);
         tab = PUT2 tab slot 0 groupno;
         tab = store tab (slot + IMM2_SIZE) name;
         tab = tab[slot + IMM2_SIZE + length name := 0]
     in (tab, found + 1))"

text \<open>The table of all named groups of a pattern, in the order of the pattern.\<close>

fun add_names :: "byte list \<Rightarrow> nat \<Rightarrow> nat \<Rightarrow> (byte list \<times> nat) list \<Rightarrow> byte list \<times> nat" where
  "add_names tab es found [] = (tab, found)"
| "add_names tab es found ((name, groupno) # groups) =
    (let (tab, found) = add_name tab es found name groupno in add_names tab es found groups)"

subsection \<open>What the table means\<close>

definition name_entries :: "byte list \<Rightarrow> nat \<Rightarrow> nat \<Rightarrow> nat \<Rightarrow> (byte list \<times> nat) list" where
  "name_entries mem nt es n = map (\<lambda>i. (name_at_entry mem nt es i, number_at_entry mem nt es i)) [0..<n]"

text \<open>Every name ends inside its entry.\<close>

definition table_ok :: "byte list \<Rightarrow> nat \<Rightarrow> nat \<Rightarrow> bool" where
  "table_ok tab es n \<longleftrightarrow> es * n \<le> length tab \<and> 3 \<le> es \<and>
     list_all (\<lambda>i. 0 \<in> set (drop IMM2_SIZE (take es (drop (es * i) tab)))) [0..<n]"

lemma length_name_entries [simp]: "length (name_entries mem nt es n) = n"
  by (simp add: name_entries_def)

lemma nth_name_entries [simp]:
  "i < n \<Longrightarrow> name_entries mem nt es n ! i = (name_at_entry mem nt es i, number_at_entry mem nt es i)"
  by (simp add: name_entries_def)

text \<open>\<open>strcmp()\<close> is the lexicographic order.\<close>

lemma strcmp_order: "strcmp a b = (if a = b then 0 else if b < a then 1 else -1)"
  by (induction a b rule: strcmp.induct) (auto simp: less_le)

text \<open>So is the comparison with an entry, which stops at the end of the shorter name.\<close>

lemma compare_prefix:
  assumes "0 \<notin> set name" "length name < length ys" "0 \<in> set ys"
  shows "(let crc = memcmp name (take (length name) ys) in if crc = 0 \<and> ys ! length name \<noteq> 0 then -1 else crc) =
    strcmp name (takeWhile (\<lambda>b. b \<noteq> 0) ys)"
  using assms
proof (induction name arbitrary: ys)
  case Nil
  then show ?case by (cases ys) auto
next
  case (Cons x xs)
  then obtain y zs where ys: "ys = y # zs" by (cases ys) auto
  show ?case
  proof (cases "y = 0")
    case True
    with Cons.prems ys show ?thesis by (auto simp: Let_def word_gt_0)
  next
    case False
    with Cons.prems ys Cons.IH [of zs] show ?thesis by (auto simp: Let_def split: if_splits)
  qed
qed

lemma takeWhile_take: "x \<in> set (take n xs) \<Longrightarrow> \<not> P x \<Longrightarrow> takeWhile P (take n xs) = takeWhile P xs"
  by (metis append_take_drop_id takeWhile_append1)

text \<open>The name in an entry depends on the bytes of the entry alone.\<close>

lemma name_of_block:
  assumes "0 \<in> set (drop IMM2_SIZE (take es (drop (es * i) tab)))"
  shows "name_at_entry tab 0 es i = takeWhile (\<lambda>b. b \<noteq> 0) (drop IMM2_SIZE (take es (drop (es * i) tab)))"
  using assms takeWhile_take [of 0 "es - 2" "drop (es * i + 2) tab" "\<lambda>b. b \<noteq> 0"]
  by (simp add: name_at_entry_def c_string_def drop_take add.commute)

lemma number_of_block:
  assumes "2 \<le> es" "es * i + es \<le> length tab"
  shows "number_at_entry tab 0 es i = GET2 (take es (drop (es * i) tab)) 0 0"
  using assms by (simp add: number_at_entry_def GET2_def rd_def)

lemma name_compare_strcmp:
  assumes "0 \<in> set (drop IMM2_SIZE (take es (drop slot tab)))" "0 \<notin> set name"
    "length name + 3 \<le> es" "slot + es \<le> length tab"
  shows "name_compare tab slot name = strcmp name (takeWhile (\<lambda>b. b \<noteq> 0) (drop IMM2_SIZE (take es (drop slot tab))))"
proof -
  let ?ys = "drop IMM2_SIZE (take es (drop slot tab))"
  have ys: "take (length name) (drop (slot + IMM2_SIZE) tab) = take (length name) ?ys"
    "rd tab (slot + IMM2_SIZE + length name) = ?ys ! length name" "length name < length ?ys"
    using assms(3,4) by (auto simp: drop_take add.commute min_def rd_def)
  show ?thesis
    unfolding name_compare_def ys(1,2) using compare_prefix [OF assms(2) ys(3) assms(1)] .
qed

text \<open>The slot is before the first later name.\<close>

lemma add_name_slot_spec:
  "i \<le> found \<Longrightarrow> add_name_slot tab es found name i = j \<Longrightarrow>
     i \<le> j \<and> j \<le> found \<and> (\<forall>k. i \<le> k \<and> k < j \<longrightarrow> \<not> name_compare tab (es * k) name < 0) \<and>
     (j < found \<longrightarrow> name_compare tab (es * j) name < 0)"
proof (induction tab es found name i rule: add_name_slot.induct)
  case (1 tab es found name i)
  show ?case
  proof (cases "i < found \<and> \<not> name_compare tab (es * i) name < 0")
    case True
    with "1.prems"(2) have "add_name_slot tab es found name (i + 1) = j"
      by (subst (asm) add_name_slot.simps) simp
    with True "1.IH" have "i + 1 \<le> j \<and> j \<le> found \<and>
        (\<forall>k. i + 1 \<le> k \<and> k < j \<longrightarrow> \<not> name_compare tab (es * k) name < 0) \<and>
        (j < found \<longrightarrow> name_compare tab (es * j) name < 0)" by simp
    with True show ?thesis by (metis Suc_eq_plus1 Suc_leD Suc_leI le_neq_implies_less)
  next
    case False
    with "1.prems" show ?thesis by (subst (asm) add_name_slot.simps) (auto split: if_splits)
  qed
qed

text \<open>The bytes of the table after the insertion: the new entry keeps the bytes behind its name.\<close>

definition new_entry :: "nat \<Rightarrow> byte list \<Rightarrow> nat \<Rightarrow> byte list \<Rightarrow> byte list" where
  "new_entry es name groupno old =
    [to_byte (drop_bit 8 groupno), to_byte (groupno AND 255)] @ name @ [0] @ drop (length name + 3) old"

lemma write_entry:
  assumes "slot + es \<le> length tab" "length name + 3 \<le> es"
  shows "(store (PUT2 tab slot 0 g) (slot + IMM2_SIZE) name)[slot + IMM2_SIZE + length name := 0] =
    take slot tab @ new_entry es name g (take es (drop slot tab)) @ drop (slot + es) tab"
proof (rule nth_equalityI)
  let ?l = "(store (PUT2 tab slot 0 g) (slot + IMM2_SIZE) name)[slot + IMM2_SIZE + length name := 0]"
  let ?r = "take slot tab @ new_entry es name g (take es (drop slot tab)) @ drop (slot + es) tab"
  show len: "length ?l = length ?r"
    using assms by (simp add: store_def PUT2_def new_entry_def)
  fix i assume "i < length ?l"
  moreover have "Suc (Suc (i - 2)) = i" if "2 \<le> i" using that by simp
  ultimately show "?l ! i = ?r ! i"
    using assms by (auto simp: store_def PUT2_def new_entry_def nth_append nth_list_update nth_Cons' min_def)
qed

lemma make_space:
  assumes "slot + es + n \<le> length tab"
  shows "take slot (memmove tab (slot + es) slot n) = take slot tab"
    "take es (drop slot (memmove tab (slot + es) slot n)) = take es (drop slot tab)"
    "drop (slot + es) (memmove tab (slot + es) slot n) = take n (drop slot tab) @ drop (slot + es + n) tab"
    "length (memmove tab (slot + es) slot n) = length tab"
  using assms by (auto simp: memmove_def store_def min_def drop_take add.commute add.left_commute)

lemma add_name_bytes:
  assumes "es * (found + 1) \<le> length tab" "length name + 3 \<le> es"
    and j: "j = add_name_slot tab es found name 0"
  shows "add_name tab es found name g =
    (take (es * j) tab @ new_entry es name g (take es (drop (es * j) tab)) @
     take (es * (found - j)) (drop (es * j) tab) @ drop (es * (found + 1)) tab, found + 1)"
proof -
  have jf: "j \<le> found" using add_name_slot_spec [of 0 found tab es name j] j by simp
  have n: "(found - j) * es = es * (found - j)" by simp
  let ?t = "if j < found then memmove tab (es * j + es) (es * j) ((found - j) * es) else tab"
  have le: "es * j + es + es * (found - j) = es * (found + 1)"
    using jf by (simp flip: distrib_left mult_Suc_right) (simp add: algebra_simps)
  have parts: "take (es * j) ?t = take (es * j) tab" "take es (drop (es * j) ?t) = take es (drop (es * j) tab)"
    "drop (es * j + es) ?t = take (es * (found - j)) (drop (es * j) tab) @ drop (es * (found + 1)) tab"
    "length ?t = length tab"
    using make_space [of "es * j" es "es * (found - j)" tab] assms(1) le jf unfolding n
    by (cases "j < found"; simp add: le [symmetric] algebra_simps)+
  have "es * j + es \<le> length ?t" using parts(4) le assms(1) by simp
  from write_entry [OF this assms(2), of g] show ?thesis
    unfolding add_name_def Let_def j [symmetric] parts by simp
qed

text \<open>The entries of the new table, as blocks of bytes.\<close>

definition entry_block :: "byte list \<Rightarrow> nat \<Rightarrow> nat \<Rightarrow> byte list" where
  "entry_block tab es i = take es (drop (es * i) tab)"

lemma entry_block_before:
  assumes "i < j" "es * j \<le> length tab"
  shows "entry_block (take (es * j) tab @ rest) es i = entry_block tab es i"
proof -
  have "es * i + es \<le> es * j" using assms(1) by (metis Suc_leI mult_Suc_right mult_le_mono2 add.commute)
  then have "es \<le> es * j - es * i" "es * i + (es * j - es * i) = es * j" by linarith+
  moreover from this assms(2) have "es \<le> length tab - es * i" by linarith
  ultimately show ?thesis by (simp add: entry_block_def drop_take del: diff_is_0_eq' diff_mult_distrib2)
qed

lemma entry_block_at:
  assumes "es * j \<le> length tab" "length e = es"
  shows "entry_block (take (es * j) tab @ e @ rest) es j = e"
  using assms by (simp add: entry_block_def)

lemma entry_block_after:
  assumes "j < i" "i \<le> found" "es * found \<le> length tab" "length e = es"
  shows "entry_block (take (es * j) tab @ e @ take (es * (found - j)) (drop (es * j) tab) @ rest) es i =
    entry_block tab es (i - 1)"
proof -
  obtain k where i: "i = Suc (j + k)" using assms(1) less_imp_Suc_add by blast
  then obtain m where f: "found = Suc (j + k) + m" using assms(2) le_Suc_ex by blast
  have le: "es * j + es * k + es + es * m \<le> length tab" using assms(3) f by (simp add: algebra_simps)
  have "es * (found - j) = es * k + es + es * m" using f by (simp add: algebra_simps)
  with le assms(4) i show ?thesis by (simp add: entry_block_def algebra_simps min_def drop_take)
qed

lemma length_new_entry: "length old = es \<Longrightarrow> length name + 3 \<le> es \<Longrightarrow> length (new_entry es name g old) = es"
  by (simp add: new_entry_def)

lemma new_entry_parts:
  assumes "0 \<notin> set name" "g < 65536"
  shows "0 \<in> set (drop IMM2_SIZE (new_entry es name g old))"
    "takeWhile (\<lambda>b. b \<noteq> 0) (drop IMM2_SIZE (new_entry es name g old)) = name"
    "GET2 (new_entry es name g old) 0 0 = g"
proof -
  show "0 \<in> set (drop IMM2_SIZE (new_entry es name g old))" by (simp add: new_entry_def)
  have "\<forall>b \<in> set name. b \<noteq> 0" using assms(1) by auto
  then show "takeWhile (\<lambda>b. b \<noteq> 0) (drop IMM2_SIZE (new_entry es name g old)) = name"
    by (simp add: new_entry_def takeWhile_append2)
  have "g AND 255 = g mod 256" using nat_and_mask [of g 8] by simp
  moreover have "g div 256 < 256" using assms(2) by simp
  ultimately show "GET2 (new_entry es name g old) 0 0 = g"
    by (simp add: GET2_GET GET_eq new_entry_def rd_def drop_bit_eq_div)
qed

text \<open>The entry that a block of bytes stands for.\<close>

definition block_entry :: "byte list \<Rightarrow> byte list \<times> nat" where
  "block_entry b = (takeWhile (\<lambda>b. b \<noteq> 0) (drop IMM2_SIZE b), GET2 b 0 0)"

lemma table_okD:
  "table_ok tab es n \<Longrightarrow> i < n \<Longrightarrow> 0 \<in> set (drop IMM2_SIZE (entry_block tab es i))"
  "table_ok tab es n \<Longrightarrow> 3 \<le> es" "table_ok tab es n \<Longrightarrow> es * n \<le> length tab"
  by (simp_all add: table_ok_def entry_block_def list_all_iff)

lemma table_ok_entry:
  assumes "table_ok tab es n" "i < n"
  shows "name_entries tab 0 es n ! i = block_entry (entry_block tab es i)" "es * i + es \<le> length tab"
proof -
  have "es * i + es \<le> es * n" using assms(2) by (metis Suc_leI mult_Suc_right mult_le_mono2 add.commute)
  then show le: "es * i + es \<le> length tab" using table_okD(3) [OF assms(1)] by simp
  show "name_entries tab 0 es n ! i = block_entry (entry_block tab es i)"
    using assms(2) name_of_block [of es i tab] number_of_block [of es i tab] table_okD(1,2) [OF assms(1)] le
    by (simp add: block_entry_def entry_block_def)
qed

lemma add_name_blocks:
  assumes "table_ok tab es found" "es * (found + 1) \<le> length tab" "length name + 3 \<le> es" "0 \<notin> set name"
    "g < 65536" "add_name tab es found name g = (tab', n)" "j = add_name_slot tab es found name 0"
  shows "n = found + 1" "length tab' = length tab" "table_ok tab' es n"
    "name_entries tab' 0 es n = take j (name_entries tab 0 es found) @ (name, g) # drop j (name_entries tab 0 es found)"
proof -
  have j: "j \<le> found" using add_name_slot_spec [of 0 found tab es name j] assms(7) by simp
  have lej: "es * j + es * (found - j) + es = es * (found + 1)"
    using j by (simp flip: distrib_left)
  let ?old = "take es (drop (es * j) tab)"
  let ?e = "new_entry es name g ?old"
  have old: "length ?old = es" using lej assms(2) by simp
  have e: "length ?e = es" using length_new_entry [OF old assms(3)] .
  have t: "tab' = take (es * j) tab @ ?e @ take (es * (found - j)) (drop (es * j) tab) @ drop (es * (found + 1)) tab"
    "n = found + 1"
    using add_name_bytes [OF assms(2,3,7), of g] assms(6) by simp_all
  show "n = found + 1" by (rule t(2))
  show len: "length tab' = length tab" using t(1) e assms(2) lej by simp
  have jl: "es * j \<le> length tab" "es * found \<le> length tab" using lej assms(2) by simp_all
  have before: "entry_block tab' es i = entry_block tab es i" if "i < j" for i
    using entry_block_before [OF that jl(1)] t(1) by simp
  have at: "entry_block tab' es j = ?e" using entry_block_at [OF jl(1) e] t(1) by simp
  have after: "entry_block tab' es i = entry_block tab es (i - 1)" if "j < i" "i \<le> found" for i
    using entry_block_after [OF that jl(2) e] t(1) by simp
  show ok: "table_ok tab' es n"
    unfolding table_ok_def list_all_iff
  proof (intro conjI ballI)
    show "es * n \<le> length tab'" using len assms(2) t(2) by simp
    show "3 \<le> es" using assms(3) by simp
    fix i assume "i \<in> set [0..<n]"
    then have i: "i \<le> found" using t(2) by auto
    consider "i < j" | "i = j" | "j < i" by linarith
    then have "0 \<in> set (drop IMM2_SIZE (entry_block tab' es i))"
    proof cases
      case 1 then show ?thesis using before [OF 1] table_okD(1) [OF assms(1), of i] j by simp
    next
      case 2 then show ?thesis using at new_entry_parts(1) [OF assms(4,5)] by simp
    next
      case 3 then show ?thesis using after [OF 3 i] table_okD(1) [OF assms(1), of "i - 1"] i by simp
    qed
    then show "0 \<in> set (drop IMM2_SIZE (take es (drop (es * i) tab')))" by (simp add: entry_block_def)
  qed
  show "name_entries tab' 0 es n = take j (name_entries tab 0 es found) @ (name, g) # drop j (name_entries tab 0 es found)"
    (is "?l = ?r")
  proof (rule nth_equalityI)
    show "length ?l = length ?r" using t(2) j by simp
    fix i assume "i < length ?l"
    then have i: "i < n" "i \<le> found" using t(2) by simp_all
    note l = table_ok_entry(1) [OF ok i(1)]
    consider "i < j" | "i = j" | "j < i" by linarith
    then show "?l ! i = ?r ! i"
    proof cases
      case 1
      with l before [OF 1] table_ok_entry(1) [OF assms(1), of i] j i show ?thesis
        by (simp add: nth_append del: nth_name_entries)
    next
      case 2
      with l at new_entry_parts(2,3) [OF assms(4,5)] j show ?thesis
        by (simp add: nth_append block_entry_def del: nth_name_entries)
    next
      case 3
      with l after [OF 3 i(2)] table_ok_entry(1) [OF assms(1), of "i - 1"] j i show ?thesis
        by (simp add: nth_append nth_Cons' del: nth_name_entries)
    qed
  qed
qed

subsection \<open>Sorted tables\<close>

definition names_sorted :: "(byte list \<times> nat) list \<Rightarrow> bool" where
  "names_sorted entries = sorted (map fst entries)"

text \<open>Insertion behind the earlier and equal elements of a sorted list.\<close>

lemma dropWhile_later:
  assumes "sorted (map f xs)" "y \<in> set (dropWhile (\<lambda>e. f e \<le> k) xs)"
  shows "k < f y"
proof -
  have "dropWhile (\<lambda>e. f e \<le> k) xs \<noteq> []" using assms(2) by (metis empty_iff list.set(1))
  then have hd: "k < f (hd (dropWhile (\<lambda>e. f e \<le> k) xs))" using hd_dropWhile not_le by blast
  have "sorted (map f (dropWhile (\<lambda>e. f e \<le> k) xs))"
    using assms(1) by (metis dropWhile_eq_drop drop_map sorted_wrt_drop)
  with assms(2) hd show ?thesis
    by (cases "dropWhile (\<lambda>e. f e \<le> k) xs") (auto intro: less_le_trans)
qed

lemma sorted_insert_after:
  assumes "sorted (map fst ents)"
  shows "sorted (map fst (takeWhile (\<lambda>e. fst e \<le> name) ents @ (name, g) # dropWhile (\<lambda>e. fst e \<le> name) ents))"
proof -
  have "sorted (map fst (takeWhile (\<lambda>e. fst e \<le> name) ents))" "sorted (map fst (dropWhile (\<lambda>e. fst e \<le> name) ents))"
    using assms by (metis takeWhile_dropWhile_id map_append sorted_append)+
  then show ?thesis
    using dropWhile_later [OF assms, of _ name]
    by (fastforce simp: sorted_append dest: set_takeWhileD intro: less_imp_le)
qed

lemma insert_after_sort:
  assumes "sorted (map fst ents)"
  shows "takeWhile (\<lambda>e. fst e \<le> name) ents @ (name, g) # dropWhile (\<lambda>e. fst e \<le> name) ents =
    sort_key fst (ents @ [(name, g)])"
proof (rule properties_for_sort_key [symmetric])
  let ?l = "takeWhile (\<lambda>e. fst e \<le> name) ents @ (name, g) # dropWhile (\<lambda>e. fst e \<le> name) ents"
  show "mset ?l = mset (ents @ [(name, g)])"
    by (simp flip: mset_append [of "takeWhile _ _"])
  show "sorted (map fst ?l)" by (rule sorted_insert_after [OF assms])
  show "filter (\<lambda>x. fst k = fst x) ?l = filter (\<lambda>x. fst k = fst x) (ents @ [(name, g)])" for k
  proof -
    have split: "filter (\<lambda>x. fst k = fst x) ents =
        filter (\<lambda>x. fst k = fst x) (takeWhile (\<lambda>e. fst e \<le> name) ents) @
        filter (\<lambda>x. fst k = fst x) (dropWhile (\<lambda>e. fst e \<le> name) ents)"
      by (simp flip: filter_append)
    show ?thesis
    proof (cases "fst k = name")
      case True
      then have "filter (\<lambda>x. fst k = fst x) (dropWhile (\<lambda>e. fst e \<le> name) ents) = []"
        using dropWhile_later [OF assms, of _ name] by (fastforce simp: filter_empty_conv)
      with split True show ?thesis by simp
    next
      case False
      with split show ?thesis by simp
    qed
  qed
qed

lemma sort_key_sort_append: "sort_key f (sort_key f xs @ ys) = sort_key f (xs @ ys)"
proof (rule properties_for_sort_key)
  show "filter (\<lambda>x. f k = f x) (sort_key f (xs @ ys)) = filter (\<lambda>x. f k = f x) (sort_key f xs @ ys)" for k
    using sort_key_stable [of f "f k"] by (simp add: eq_commute [of "f k"])
qed simp_all

lemma name_compare_entry:
  assumes "table_ok tab es found" "0 \<notin> set name" "length name + 3 \<le> es" "k < found"
  shows "name_compare tab (es * k) name < 0 \<longleftrightarrow> name < fst (name_entries tab 0 es found ! k)"
  using name_compare_strcmp [of es "es * k" tab name] table_okD(1) [OF assms(1,4)]
    table_ok_entry [OF assms(1,4)] assms(2,3)
  by (auto simp: strcmp_order block_entry_def entry_block_def less_le simp del: nth_name_entries)

text \<open>In a sorted table the place is behind all names that are not later.\<close>

lemma add_name_slot_sorted:
  assumes "table_ok tab es found" "0 \<notin> set name" "length name + 3 \<le> es"
    "names_sorted (name_entries tab 0 es found)" "j = add_name_slot tab es found name 0"
  shows "take j (name_entries tab 0 es found) = takeWhile (\<lambda>e. fst e \<le> name) (name_entries tab 0 es found)"
proof (rule takeWhile_eq_take_P_nth [symmetric])
  have j: "j \<le> found" "\<And>k. k < j \<Longrightarrow> \<not> name_compare tab (es * k) name < 0"
    "j < found \<Longrightarrow> name_compare tab (es * j) name < 0"
    using add_name_slot_spec [of 0 found tab es name j] assms(5) by auto
  show "fst (name_entries tab 0 es found ! i) \<le> name" if "i < j" "i < length (name_entries tab 0 es found)" for i
    using j(2) [OF that(1)] name_compare_entry [OF assms(1-3), of i] that(2) by (simp del: nth_name_entries)
  show "\<not> fst (name_entries tab 0 es found ! j) \<le> name" if "j < length (name_entries tab 0 es found)"
    using j(3) that name_compare_entry [OF assms(1-3), of j] by (simp del: nth_name_entries)
qed

text \<open>
  \<open>add_name()\<close> puts the new name before the first later one, behind all earlier and equal
  ones; the table stays well formed and sorted, and no byte outside its room is written.
\<close>

lemma add_name_inserts:
  assumes "table_ok tab es found" "names_sorted (name_entries tab 0 es found)" "es * (found + 1) \<le> length tab"
    "length name + 3 \<le> es" "0 \<notin> set name" "g < 65536" "add_name tab es found name g = (tab', n)"
  shows "n = found + 1 \<and> length tab' = length tab \<and> table_ok tab' es n \<and>
    names_sorted (name_entries tab' 0 es n) \<and>
    name_entries tab' 0 es n = takeWhile (\<lambda>e. fst e \<le> name) (name_entries tab 0 es found) @ (name, g) #
      dropWhile (\<lambda>e. fst e \<le> name) (name_entries tab 0 es found)"
proof -
  let ?l = "name_entries tab 0 es found" and ?j = "add_name_slot tab es found name 0"
  note b = add_name_blocks [OF assms(1,3-7) refl]
  have tk: "take ?j ?l = takeWhile (\<lambda>e. fst e \<le> name) ?l"
    by (rule add_name_slot_sorted [OF assms(1,5,4,2) refl])
  have jn: "?j \<le> length ?l" using add_name_slot_spec [of 0 found tab es name ?j] by simp
  then have "?j = length (takeWhile (\<lambda>e. fst e \<le> name) ?l)" using arg_cong [OF tk, of length] by simp
  then have dk: "drop ?j ?l = dropWhile (\<lambda>e. fst e \<le> name) ?l" by (simp add: dropWhile_eq_drop)
  have e: "name_entries tab' 0 es n = takeWhile (\<lambda>e. fst e \<le> name) ?l @ (name, g) # dropWhile (\<lambda>e. fst e \<le> name) ?l"
    using b(4) unfolding tk dk .
  show ?thesis
    using b(1-3) e sorted_insert_after [OF assms(2) [unfolded names_sorted_def]] by (simp add: names_sorted_def)
qed

text \<open>A named group whose name fits into the entries.\<close>

definition group_fits :: "nat \<Rightarrow> byte list \<times> nat \<Rightarrow> bool" where
  "group_fits es = (\<lambda>(name, g). length name + 3 \<le> es \<and> 0 \<notin> set name \<and> g < 65536)"

lemma table_empty [simp]:
  "3 \<le> es \<Longrightarrow> table_ok tab es 0" "name_entries mem nt es 0 = []" "names_sorted []"
  by (simp_all add: table_ok_def name_entries_def names_sorted_def)

lemma add_names_from:
  assumes "table_ok tab es found" "names_sorted (name_entries tab 0 es found)"
    "es * (found + length groups) \<le> length tab" "list_all (group_fits es) groups"
    "add_names tab es found groups = (tab', n)"
  shows "n = found + length groups \<and> length tab' = length tab \<and> table_ok tab' es n \<and>
    name_entries tab' 0 es n = sort_key fst (name_entries tab 0 es found @ groups)"
  using assms
proof (induction tab es found groups rule: add_names.induct)
  case (1 tab es found)
  then show ?case by (simp add: names_sorted_def sort_key_id_if_sorted)
next
  case (2 tab es found name g groups)
  obtain tab1 n1 where add: "add_name tab es found name g = (tab1, n1)" by fastforce
  have fits: "length name + 3 \<le> es" "0 \<notin> set name" "g < 65536" "list_all (group_fits es) groups"
    using "2.prems"(4) by (simp_all add: group_fits_def)
  have room: "es * (found + 1) \<le> length tab"
    using "2.prems"(3) by (rule order_trans [rotated]) simp
  from add_name_inserts [OF "2.prems"(1,2) room fits(1-3) add]
    insert_after_sort [OF "2.prems"(2) [unfolded names_sorted_def], of name g]
  have i: "n1 = found + 1" "length tab1 = length tab" "table_ok tab1 es n1"
    "names_sorted (name_entries tab1 0 es n1)"
    "name_entries tab1 0 es n1 = sort_key fst (name_entries tab 0 es found @ [(name, g)])" by auto
  have "n = n1 + length groups \<and> length tab' = length tab1 \<and> table_ok tab' es n \<and>
      name_entries tab' 0 es n = sort_key fst (name_entries tab1 0 es n1 @ groups)"
    using "2.IH" [OF add [symmetric] refl i(3,4) _ fits(4)] "2.prems"(3,5) i(1,2) add by auto
  moreover have "sort_key fst (name_entries tab1 0 es n1 @ groups) = sort_key fst (name_entries tab 0 es found @ (name, g) # groups)"
    by (simp add: i(5) sort_key_sort_append)
  ultimately show ?case using i(1,2) by auto
qed

text \<open>
  C23: the name table of a pattern holds its named groups sorted by name, the groups of a name in the
  order of the pattern.
\<close>

lemma name_table_sorted:
  assumes "3 \<le> es" "es * length groups \<le> length tab" "list_all (group_fits es) groups"
    "add_names tab es 0 groups = (tab', n)"
  shows "n = length groups \<and> length tab' = length tab \<and> name_entries tab' 0 es n = sort_key fst groups"
  using add_names_from [of tab es 0 groups tab' n] assms by auto

lemma add_names_example:
  "add_names (replicate 8 0) 4 0 [([98], 1), ([97], 2)] = ([0, 2, 97, 0, 0, 1, 98, 0], 2)"
  by code_simp

lemma name_table_sorted_witness:
  "name_entries [0, 2, 97, 0, 0, 1, 98, 0] 0 4 2 = [([97], 2), ([98], 1)]"
  using name_table_sorted [OF _ _ _ add_names_example] by (simp add: group_fits_def)

subsection \<open>The binary search\<close>

lemma find_name_spec:
  assumes "names_sorted (name_entries mem nt es n)" "hi \<le> n"
  shows "case find_name mem nt es name hi lo of
      None \<Rightarrow> \<forall>i. lo \<le> i \<and> i < hi \<longrightarrow> name_at_entry mem nt es i \<noteq> name
    | Some i \<Rightarrow> lo \<le> i \<and> i < hi \<and> name_at_entry mem nt es i = name"
  using assms
proof (induction mem nt es name hi lo rule: find_name.induct)
  case (1 mem nt es name hi lo)
  have mono: "name_at_entry mem nt es i \<le> name_at_entry mem nt es k" if "i \<le> k" "k < n" for i k
    using sorted_nth_mono [of "map fst (name_entries mem nt es n)" i k] "1.prems"(1) that
    by (simp add: names_sorted_def)
  define mid where "mid = (hi + lo) div 2"
  define e where "e = name_at_entry mem nt es mid"
  show ?case
  proof (cases "hi > lo")
    case False then show ?thesis by (subst find_name.simps) auto
  next
    case True
    then have mid: "lo \<le> mid" "mid < hi" by (auto simp: mid_def)
    consider (eq) "name = e" | (gt) "e < name" | (lt) "name < e" by (metis linorder_neq_iff)
    then show ?thesis
    proof cases
      case eq
      then show ?thesis using True mid
        by (subst find_name.simps) (simp add: strcmp_order e_def flip: mid_def)
    next
      case gt
      then have step: "find_name mem nt es name hi lo = find_name mem nt es name hi (mid + 1)"
        using True by (subst find_name.simps) (auto simp: strcmp_order e_def Let_def simp flip: mid_def)
      have low: "name_at_entry mem nt es i \<noteq> name" if "\<not> mid + 1 \<le> i" for i
        using mono [of i mid] that mid "1.prems"(2) gt by (auto simp: e_def)
      have "case find_name mem nt es name hi (mid + 1) of
          None \<Rightarrow> \<forall>i. mid + 1 \<le> i \<and> i < hi \<longrightarrow> name_at_entry mem nt es i \<noteq> name
        | Some i \<Rightarrow> mid + 1 \<le> i \<and> i < hi \<and> name_at_entry mem nt es i = name"
        by (rule "1.IH"(1) [OF True mid_def refl _ _ "1.prems"]) (use gt in \<open>auto simp: strcmp_order e_def\<close>)
      with step low mid(1) show ?thesis by (cases "find_name mem nt es name hi (mid + 1)") (simp, blast, simp)
    next
      case lt
      then have step: "find_name mem nt es name hi lo = find_name mem nt es name mid lo"
        using True by (subst find_name.simps) (auto simp: strcmp_order e_def Let_def simp flip: mid_def)
      have high: "name_at_entry mem nt es i \<noteq> name" if "\<not> i < mid" "i < hi" for i
        using mono [of mid i] that lt "1.prems"(2) by (auto simp: e_def)
      have "case find_name mem nt es name mid lo of
          None \<Rightarrow> \<forall>i. lo \<le> i \<and> i < mid \<longrightarrow> name_at_entry mem nt es i \<noteq> name
        | Some i \<Rightarrow> lo \<le> i \<and> i < mid \<and> name_at_entry mem nt es i = name"
        by (rule "1.IH"(2) [OF True mid_def refl _ _ "1.prems"(1)])
          (use lt mid "1.prems"(2) in \<open>auto simp: strcmp_order e_def\<close>)
      with step high mid(2) show ?thesis by (cases "find_name mem nt es name mid lo") (simp, blast, simp)
    qed
  qed
qed

lemma find_name_None:
  assumes "names_sorted (name_entries mem nt es n)"
  shows "find_name mem nt es name n 0 = None \<longleftrightarrow> name \<notin> fst ` set (name_entries mem nt es n)"
  using find_name_spec [OF assms order_refl, where name = name and lo = 0]
  by (force simp: name_entries_def split: option.splits)

lemma find_name_Some:
  assumes "names_sorted (name_entries mem nt es n)" "find_name mem nt es name n 0 = Some i"
  shows "i < n" "name_at_entry mem nt es i = name"
  using find_name_spec [OF assms(1) order_refl, where name = name and lo = 0] assms(2) by simp_all

subsection \<open>The lookups\<close>

text \<open>A pattern that this library has compiled on this host, with names.\<close>

definition named_pattern :: "real_pcre \<Rightarrow> bool" where
  "named_pattern re \<longleftrightarrow> re_magic_number re = MAGIC_NUMBER \<and> has (re_flags re) PCRE_MODE8 \<and> 0 < re_name_count re"

definition name_table_of :: "real_pcre \<Rightarrow> (byte list \<times> nat) list" where
  "name_table_of re = name_entries (re_block re) (unat (re_name_table_offset re))
     (unat (re_name_entry_size re)) (unat (re_name_count re))"

lemma name_info_named:
  assumes "named_pattern re"
  shows "name_info (Some re) = Inr (unat (re_name_count re), unat (re_name_entry_size re), unat (re_name_table_offset re))"
proof -
  have "0 < uint (re_name_count re)" using assms by (simp add: named_pattern_def word_less_def)
  with assms show ?thesis
    by (simp add: name_info_def pcre_fullinfo_def fullinfo_item_def named_pattern_def)
qed

text \<open>
  In a table sorted by name, \<open>pcre_get_stringnumber()\<close> finds the number of a group with the
  name when there is one, and answers PCRE\_ERROR\_NOSUBSTRING when there is none.
\<close>

lemma get_stringnumber_correct:
  assumes "named_pattern re" "names_sorted (name_table_of re)"
  shows "if name \<in> fst ` set (name_table_of re)
    then \<exists>n. (name, n) \<in> set (name_table_of re) \<and> pcre_get_stringnumber (Some re) name = int n
    else pcre_get_stringnumber (Some re) name = PCRE_ERROR_NOSUBSTRING"
proof (cases "find_name (re_block re) (unat (re_name_table_offset re)) (unat (re_name_entry_size re)) name
    (unat (re_name_count re)) 0")
  case None
  then show ?thesis
    using find_name_None [OF assms(2) [unfolded name_table_of_def], of name] assms(1)
    by (simp add: pcre_get_stringnumber_def name_info_named block_of_def name_table_of_def)
next
  case (Some i)
  note i = find_name_Some [OF assms(2) [unfolded name_table_of_def] Some]
  then have "name_table_of re ! i \<in> set (name_table_of re)" by (simp add: name_table_of_def del: nth_name_entries)
  then have "(name, number_at_entry (re_block re) (unat (re_name_table_offset re)) (unat (re_name_entry_size re)) i)
      \<in> set (name_table_of re)" using i by (simp add: name_table_of_def)
  then show ?thesis
    using Some assms(1) by (force simp: pcre_get_stringnumber_def name_info_named block_of_def)
qed

text \<open>The entries with the name are a run, and both ends of it are found.\<close>

lemma run_first_spec:
  assumes "entry i = name" "run_first entry name i = f"
  shows "f \<le> i \<and> (\<forall>k. f \<le> k \<and> k \<le> i \<longrightarrow> entry k = name) \<and> (0 < f \<longrightarrow> entry (f - 1) \<noteq> name)"
  using assms
proof (induction entry name i rule: run_first.induct)
  case (2 entry name i)
  show ?case
  proof (cases "entry i = name")
    case True
    with 2 have "f \<le> i \<and> (\<forall>k. f \<le> k \<and> k \<le> i \<longrightarrow> entry k = name) \<and> (0 < f \<longrightarrow> entry (f - 1) \<noteq> name)"
      by (simp add: strcmp_order)
    moreover from this have "entry k = name" if "f \<le> k" "k \<le> Suc i" for k
      using that "2.prems"(1) by (cases "k = Suc i") auto
    ultimately show ?thesis by simp
  next
    case False
    with "2.prems"(2) have f: "f = Suc i" by (auto simp: strcmp_order split: if_splits)
    with False "2.prems"(1) show ?thesis by (auto simp: le_antisym)
  qed
qed simp

lemma run_last_spec:
  assumes "entry i = name" "run_last entry name lastentry i = l" "i \<le> lastentry"
  shows "i \<le> l \<and> l \<le> lastentry \<and> (\<forall>k. i \<le> k \<and> k \<le> l \<longrightarrow> entry k = name) \<and>
    (l < lastentry \<longrightarrow> entry (l + 1) \<noteq> name)"
  using assms
proof (induction entry name lastentry i rule: run_last.induct)
  case (1 entry name lastentry i)
  show ?case
  proof (cases "i < lastentry \<and> entry (i + 1) = name")
    case True
    with "1.prems" have "run_last entry name lastentry (i + 1) = l"
      by (subst (asm) run_last.simps) (simp add: strcmp_order)
    with True "1.IH" "1.prems" have
      "i + 1 \<le> l \<and> l \<le> lastentry \<and> (\<forall>k. i + 1 \<le> k \<and> k \<le> l \<longrightarrow> entry k = name) \<and>
       (l < lastentry \<longrightarrow> entry (l + 1) \<noteq> name)"
      by (simp add: strcmp_order)
    moreover from this have "entry k = name" if "i \<le> k" "k \<le> l" for k
      using that "1.prems"(1) by (cases "k = i") auto
    ultimately show ?thesis by simp
  next
    case False
    with "1.prems" have "l = i" by (subst (asm) run_last.simps) (auto simp: strcmp_order split: if_splits)
    moreover from this have "entry k = name" if "i \<le> k" "k \<le> l" for k
      using that "1.prems"(1) by (cases "k = i") auto
    ultimately show ?thesis using False "1.prems"(3) by auto
  qed
qed


text \<open>In a sorted table the entries between two equal names have that name.\<close>

lemma sorted_run:
  assumes "names_sorted (name_entries mem nt es n)" "i \<le> k" "k \<le> j" "j < n"
    "name_at_entry mem nt es i = name" "name_at_entry mem nt es j = name"
  shows "name_at_entry mem nt es k = name"
proof -
  have "name_at_entry mem nt es i \<le> name_at_entry mem nt es k" "name_at_entry mem nt es k \<le> name_at_entry mem nt es j"
    using sorted_nth_mono [of "map fst (name_entries mem nt es n)" i k]
      sorted_nth_mono [of "map fst (name_entries mem nt es n)" k j] assms(1-4)
    by (simp_all add: names_sorted_def)
  with assms(5,6) show ?thesis by simp
qed

text \<open>
  In a table sorted by name, \<open>pcre_get_stringtable_entries()\<close> returns the first and the last
  of the entries with the name, and between them lie all of these entries and no others; without
  such an entry it answers PCRE\_ERROR\_NOSUBSTRING.
\<close>

lemma stringtable_entries_correct:
  assumes "named_pattern re" "names_sorted (name_table_of re)"
  shows "case pcre_get_stringtable_entries (Some re) name of
      Inl rc \<Rightarrow> rc = PCRE_ERROR_NOSUBSTRING \<and> name \<notin> fst ` set (name_table_of re)
    | Inr (es, first, lst) \<Rightarrow> es = unat (re_name_entry_size re) \<and> first \<le> lst \<and>
        {i. i < unat (re_name_count re) \<and> fst (name_table_of re ! i) = name} = {first..lst}"
proof -
  define nt where "nt = unat (re_name_table_offset re)"
  define es where "es = unat (re_name_entry_size re)"
  define n where "n = unat (re_name_count re)"
  define entry where "entry = name_at_entry (re_block re) nt es"
  note info = name_info_named [OF assms(1), folded nt_def es_def n_def]
  have tab: "name_table_of re = name_entries (re_block re) nt es n"
    by (simp add: name_table_of_def nt_def es_def n_def)
  note sorted = assms(2) [unfolded tab]
  show ?thesis
  proof (cases "find_name (re_block re) nt es name n 0")
    case None
    with find_name_None [OF sorted, of name] show ?thesis
      by (simp add: pcre_get_stringtable_entries_def info block_of_def tab Let_def)
  next
    case (Some i)
    note i = find_name_Some [OF sorted Some, folded entry_def]
    define f where "f = run_first entry name i"
    define l where "l = run_last entry name (n - 1) i"
    have f: "f \<le> i \<and> (\<forall>k. f \<le> k \<and> k \<le> i \<longrightarrow> entry k = name) \<and> (0 < f \<longrightarrow> entry (f - 1) \<noteq> name)"
      using run_first_spec [OF i(2) f_def [symmetric]] .
    have l: "i \<le> l \<and> l \<le> n - 1 \<and> (\<forall>k. i \<le> k \<and> k \<le> l \<longrightarrow> entry k = name) \<and> (l < n - 1 \<longrightarrow> entry (l + 1) \<noteq> name)"
      using run_last_spec [OF i(2) l_def [symmetric]] i(1) by simp
    have inside: "f \<le> k \<and> k \<le> l" if k: "k < n" "entry k = name" for k
    proof (rule ccontr)
      assume "\<not> (f \<le> k \<and> k \<le> l)"
      then consider "k \<le> f - 1" "0 < f" | "l + 1 \<le> k" by linarith
      then show False
      proof cases
        case 1
        have "f - 1 \<le> i" using f by linarith
        from sorted_run [OF sorted, of k "f - 1" i name, folded entry_def, OF 1(1) this i(1) k(2) i(2)] f 1(2)
        show False by blast
      next
        case 2
        have "i \<le> l + 1" "l < n - 1" using l 2 k(1) by linarith+
        from sorted_run [OF sorted, of i "l + 1" k name, folded entry_def, OF this(1) 2 k(1) i(2) k(2)] l this(2)
        show False by blast
      qed
    qed
    have covered: "k < n \<and> entry k = name" if "f \<le> k" "k \<le> l" for k
    proof -
      have "k < n" "k \<le> i \<or> i \<le> k" using that(2) l i(1) by linarith+
      with that f l show ?thesis by blast
    qed
    have "{k. k < n \<and> fst (name_table_of re ! k) = name} = {k. k < n \<and> entry k = name}"
      by (auto simp: tab entry_def)
    also have "\<dots> = {f..l}"
    proof (intro equalityI subsetI)
      show "k \<in> {f..l}" if "k \<in> {k. k < n \<and> entry k = name}" for k using inside [of k] that by simp
      show "k \<in> {k. k < n \<and> entry k = name}" if "k \<in> {f..l}" for k using covered [of k] that by simp
    qed
    finally have run: "{k. k < n \<and> fst (name_table_of re ! k) = name} = {f..l}" .
    have "pcre_get_stringtable_entries (Some re) name = Inr (es, f, l)"
      by (simp add: pcre_get_stringtable_entries_def info block_of_def Some Let_def f_def l_def entry_def)
    moreover have "f \<le> l" using f l by linarith
    ultimately show ?thesis using run by (simp add: es_def n_def)
  qed
qed

subsection \<open>The group that is set\<close>

definition group_set :: "int list \<Rightarrow> int \<Rightarrow> nat \<Rightarrow> bool" where
  "group_set ovector stringcount n \<longleftrightarrow> int n < stringcount \<and> nth_default (-1) ovector (n * 2) \<ge> 0"

lemma first_set_loop_found:
  assumes "i \<le> k" "k \<le> lst" "group_set ovector stringcount (number k)"
    "\<And>m. i \<le> m \<Longrightarrow> m < k \<Longrightarrow> \<not> group_set ovector stringcount (number m)"
  shows "first_set_loop number ovector stringcount lst i = number k"
  using assms
proof (induction number ovector stringcount lst i rule: first_set_loop.induct)
  case (1 number ovector stringcount lst i)
  show ?case
  proof (cases "i = k")
    case True
    with "1.prems" show ?thesis
      by (subst first_set_loop.simps) (simp add: group_set_def Let_def)
  next
    case False
    with "1.prems"(1,4) have i: "i < k" "\<not> group_set ovector stringcount (number i)" by auto
    have "first_set_loop number ovector stringcount lst (i + 1) = number k"
      by (rule "1.IH" [OF _ refl]) (use i "1.prems" in \<open>auto simp: group_set_def\<close>)
    with i "1.prems"(2) show ?thesis
      by (subst first_set_loop.simps) (auto simp: group_set_def Let_def)
  qed
qed

lemma first_set_loop_none:
  assumes "i \<le> lst + 1" "\<And>m. i \<le> m \<Longrightarrow> m \<le> lst \<Longrightarrow> \<not> group_set ovector stringcount (number m)"
  shows "first_set_loop number ovector stringcount lst i = number (lst + 1)"
  using assms
proof (induction number ovector stringcount lst i rule: first_set_loop.induct)
  case (1 number ovector stringcount lst i)
  show ?case
  proof (cases "i \<le> lst")
    case True
    with "1.prems"(2) have i: "\<not> group_set ovector stringcount (number i)" by simp
    have "first_set_loop number ovector stringcount lst (i + 1) = number (lst + 1)"
      by (rule "1.IH" [OF True refl]) (use i True "1.prems" in \<open>auto simp: group_set_def\<close>)
    with i True show ?thesis
      by (subst first_set_loop.simps) (auto simp: group_set_def Let_def)
  next
    case False
    with "1.prems"(1) have "i = lst + 1" by simp
    with False show ?thesis by (subst first_set_loop.simps) simp
  qed
qed

text \<open>With duplicate names, the answer is the loop over the entries of the name.\<close>

lemma get_first_set_loop:
  assumes "named_pattern re" "names_sorted (name_table_of re)" "name \<in> fst ` set (name_table_of re)"
    "has (re_options re) PCRE_DUPNAMES" "0 < re_name_entry_size re"
  obtains first lst where "first \<le> lst" "lst < unat (re_name_count re)"
    "{i. i < unat (re_name_count re) \<and> fst (name_table_of re ! i) = name} = {first..lst}"
    "get_first_set re name ovector stringcount =
      int (first_set_loop (number_at_entry (re_block re) (unat (re_name_table_offset re)) (unat (re_name_entry_size re)))
        ovector stringcount lst first)"
proof (cases "pcre_get_stringtable_entries (Some re) name")
  case (Inl rc)
  with stringtable_entries_correct [OF assms(1,2), of name] assms(3) show ?thesis by simp
next
  case (Inr r)
  obtain es first lst where r: "r = (es, first, lst)" by (cases r) auto
  from stringtable_entries_correct [OF assms(1,2), of name] Inr r
  have e: "es = unat (re_name_entry_size re)" "first \<le> lst"
    "{i. i < unat (re_name_count re) \<and> fst (name_table_of re ! i) = name} = {first..lst}" by simp_all
  from e(2) have "lst \<in> {first..lst}" by simp
  then have l: "lst < unat (re_name_count re)" unfolding e(3) [symmetric] by simp
  have "es \<noteq> 0" using assms(5) e(1) by (simp add: word_less_nat_alt)
  then have "get_first_set re name ovector stringcount =
      int (first_set_loop (number_at_entry (re_block re) (unat (re_name_table_offset re)) (unat (re_name_entry_size re)))
        ovector stringcount lst first)"
    using assms(4) by (simp add: get_first_set_def Inr r e(1))
  from that [OF e(2) l e(3) this] show ?thesis .
qed

text \<open>
  C24: with duplicate names, the name of a group that is set stands for the first set group with
  that name in the order of the table.
\<close>

lemma get_first_set_first:
  assumes "named_pattern re" "names_sorted (name_table_of re)" "has (re_options re) PCRE_DUPNAMES"
    "0 < re_name_entry_size re" "k < unat (re_name_count re)" "name_table_of re ! k = (name, n)"
    "group_set ovector stringcount n"
    "list_all (\<lambda>(name', m). name' \<noteq> name \<or> \<not> group_set ovector stringcount m) (take k (name_table_of re))"
  shows "get_first_set re name ovector stringcount = int n"
proof -
  define number where
    "number = number_at_entry (re_block re) (unat (re_name_table_offset re)) (unat (re_name_entry_size re))"
  have len: "length (name_table_of re) = unat (re_name_count re)" by (simp add: name_table_of_def)
  have nth: "snd (name_table_of re ! i) = number i" if "i < unat (re_name_count re)" for i
    using that by (simp add: name_table_of_def number_def)
  have "(name, n) \<in> set (name_table_of re)" using assms(5,6) len by (metis nth_mem)
  then have "name \<in> fst ` set (name_table_of re)" by force
  then obtain first lst where fl:
    "lst < unat (re_name_count re)"
    "{i. i < unat (re_name_count re) \<and> fst (name_table_of re ! i) = name} = {first..lst}"
    "get_first_set re name ovector stringcount = int (first_set_loop number ovector stringcount lst first)"
    by (rule get_first_set_loop [OF assms(1,2) _ assms(3,4), of name ovector stringcount, folded number_def])
  have "k \<in> {first..lst}" unfolding fl(2) [symmetric] using assms(5,6) by simp
  then have k: "first \<le> k" "k \<le> lst" by simp_all
  have n: "number k = n" using nth [OF assms(5)] assms(6) by simp
  have "first_set_loop number ovector stringcount lst first = number k"
  proof (rule first_set_loop_found [OF k])
    show "group_set ovector stringcount (number k)" using assms(7) n by simp
    fix m assume m: "first \<le> m" "m < k"
    then have "m \<in> {first..lst}" using k by simp
    then have m': "m < unat (re_name_count re)" "fst (name_table_of re ! m) = name" unfolding fl(2) [symmetric] by simp_all
    have "name_table_of re ! m \<in> set (take k (name_table_of re))"
      using m(2) m'(1) len by (metis length_take min_less_iff_conj nth_mem nth_take)
    with assms(8) m'(2) nth [OF m'(1)] show "\<not> group_set ovector stringcount (number m)"
      by (auto simp: list_all_iff split_beta)
  qed
  with fl(3) n show ?thesis by simp
qed

text \<open>
  C25: but when none of the groups with the name is set, and the table does not end with the name,
  the answer is the number of a group with another name: the pointer has left the entries of the
  name when it is read after the loop.
\<close>

lemma get_first_set_unset:
  assumes "named_pattern re" "names_sorted (name_table_of re)" "has (re_options re) PCRE_DUPNAMES"
    "0 < re_name_entry_size re" "name \<in> fst ` set (name_table_of re)" "fst (last (name_table_of re)) \<noteq> name"
    "list_all (\<lambda>(name', m). name' \<noteq> name \<or> \<not> group_set ovector stringcount m) (name_table_of re)"
  shows "\<exists>other n. (other, n) \<in> set (name_table_of re) \<and> other \<noteq> name \<and>
    get_first_set re name ovector stringcount = int n"
proof -
  define number where
    "number = number_at_entry (re_block re) (unat (re_name_table_offset re)) (unat (re_name_entry_size re))"
  have len: "length (name_table_of re) = unat (re_name_count re)" by (simp add: name_table_of_def)
  have nth: "snd (name_table_of re ! i) = number i" if "i < unat (re_name_count re)" for i
    using that by (simp add: name_table_of_def number_def)
  obtain first lst where fl:
    "first \<le> lst" "lst < unat (re_name_count re)"
    "{i. i < unat (re_name_count re) \<and> fst (name_table_of re ! i) = name} = {first..lst}"
    "get_first_set re name ovector stringcount = int (first_set_loop number ovector stringcount lst first)"
    by (rule get_first_set_loop [OF assms(1,2,5,3,4), of ovector stringcount, folded number_def])
  have "first_set_loop number ovector stringcount lst first = number (lst + 1)"
  proof (rule first_set_loop_none)
    from fl(1) show "first \<le> lst + 1" by (rule trans_le_add1)
    fix m assume "first \<le> m" "m \<le> lst"
    then have "m \<in> {first..lst}" by simp
    then have m: "m < unat (re_name_count re)" "fst (name_table_of re ! m) = name" unfolding fl(3) [symmetric] by simp_all
    have "name_table_of re ! m \<in> set (name_table_of re)" using m(1) len by simp
    with assms(7) m(2) nth [OF m(1)] show "\<not> group_set ovector stringcount (number m)"
      by (auto simp: list_all_iff split_beta)
  qed
  moreover have "lst \<noteq> unat (re_name_count re) - 1"
  proof
    assume l: "lst = unat (re_name_count re) - 1"
    have "lst \<in> {first..lst}" using fl(1) by simp
    then have "fst (name_table_of re ! lst) = name" unfolding fl(3) [symmetric] by simp
    moreover have "name_table_of re \<noteq> []" using assms(5) by auto
    ultimately show False using assms(6) l len by (simp add: last_conv_nth)
  qed
  then have l: "lst + 1 < unat (re_name_count re)" using fl(2) by simp
  moreover have "lst + 1 \<notin> {first..lst}" by simp
  then have "fst (name_table_of re ! (lst + 1)) \<noteq> name" unfolding fl(3) [symmetric] using l by simp
  moreover have "name_table_of re ! (lst + 1) \<in> set (name_table_of re)" using l len by simp
  ultimately show ?thesis using fl(4) nth [OF l] by (metis prod.collapse)
qed

subsection \<open>Names of a compiled pattern\<close>

text \<open>The table inside the block of a pattern.\<close>

lemma name_entries_inside:
  assumes "table_ok tab es n"
  shows "name_entries (hdr @ tab @ rest) (length hdr) es n = name_entries tab 0 es n"
proof (rule nth_equalityI)
  fix i assume "i < length (name_entries (hdr @ tab @ rest) (length hdr) es n)"
  then have i: "i < n" by simp
  have le: "es * i + es \<le> length tab" using table_ok_entry(2) [OF assms i] .
  have z: "0 \<in> set (drop (es * i + 2) tab)"
    using table_okD(1) [OF assms i] set_drop_subset [of 2 "take es (drop (es * i) tab)"]
    by (auto simp: entry_block_def drop_take add.commute dest: in_set_takeD)
  have "name_at_entry (hdr @ tab @ rest) (length hdr) es i = name_at_entry tab 0 es i"
    using z le table_okD(2) [OF assms] by (simp add: name_at_entry_def c_string_def takeWhile_append1)
  moreover have "number_at_entry (hdr @ tab @ rest) (length hdr) es i = number_at_entry tab 0 es i"
    using le table_okD(2) [OF assms] by (simp add: number_at_entry_def GET2_def rd_def nth_append)
  ultimately show "name_entries (hdr @ tab @ rest) (length hdr) es n ! i = name_entries tab 0 es n ! i"
    using i by simp
qed simp

text \<open>
  C22: what the compiler has put into the table is what the lookup finds: the number of every
  named group, from its name.
\<close>

lemma named_group_roundtrip:
  assumes "3 \<le> es" "es * length groups \<le> length tab" "list_all (group_fits es) groups"
    "distinct (map fst groups)" "(name, g) \<in> set groups" "add_names tab es 0 groups = (tab', n)"
    "named_pattern re" "re_block re = hdr @ tab' @ code" "unat (re_name_table_offset re) = length hdr"
    "unat (re_name_entry_size re) = es" "unat (re_name_count re) = n"
  shows "pcre_get_stringnumber (Some re) name = int g"
proof -
  have t: "table_ok tab' es n" "name_entries tab' 0 es n = sort_key fst groups"
    using add_names_from [of tab es 0 groups tab' n] assms(1-3,6) by auto
  have tab: "name_table_of re = sort_key fst groups"
    using name_entries_inside [OF t(1), of hdr code] t(2) assms(8-11) by (simp add: name_table_of_def)
  have "names_sorted (name_table_of re)" "name \<in> fst ` set (name_table_of re)"
    using assms(5) by (force simp: tab names_sorted_def)+
  with get_stringnumber_correct [OF assms(7), of name] obtain m where
    "(name, m) \<in> set groups" "pcre_get_stringnumber (Some re) name = int m" by (auto simp: tab)
  with assms(4,5) show ?thesis by (metis eq_key_imp_eq_value)
qed

definition example_pattern :: "byte list \<Rightarrow> 16 word \<Rightarrow> real_pcre" where
  "example_pattern block n =
    \<lparr>re_magic_number = 0x50435245, re_size = 16, re_options = 0x80000, re_flags = 1, re_limit_match = 0,
     re_limit_recursion = 0, re_first_char = 0, re_req_char = 0, re_max_lookbehind = 0, re_top_bracket = 3,
     re_top_backref = 0, re_name_table_offset = 2, re_name_entry_size = 4, re_name_count = n, re_ref_count = 0,
     re_tables = None, re_block = block\<rparr>"

lemma example_pattern_simps [simp]:
  "named_pattern (example_pattern block n) \<longleftrightarrow> 0 < n" "has (re_options (example_pattern block n)) PCRE_DUPNAMES"
  "re_name_entry_size (example_pattern block n) = 4" "re_name_table_offset (example_pattern block n) = 2"
  "re_name_count (example_pattern block n) = n" "re_block (example_pattern block n) = block"
  by (simp_all add: example_pattern_def named_pattern_def has_def)

lemma named_group_roundtrip_witness:
  "pcre_get_stringnumber (Some (example_pattern [9, 9, 0, 2, 97, 0, 0, 1, 98, 0, 0] 2)) [98] = 1"
  using named_group_roundtrip [OF _ _ _ _ _ add_names_example, of "[98]" 1
    "example_pattern [9, 9, 0, 2, 97, 0, 0, 1, 98, 0, 0] 2" "[9, 9]" "[0]"]
  by (simp add: group_fits_def)

text \<open>The names a (groups 1 and 3) and b (group 2).\<close>

abbreviation (input) "dup_names_block \<equiv> [9, 9, 0, 1, 97, 0, 0, 3, 97, 0, 0, 2, 98, 0, 0]"

lemma dup_names_table: "name_table_of (example_pattern dup_names_block 3) = [([97], 1), ([97], 3), ([98], 2)]"
  by code_simp

lemmas dup_names_simps = dup_names_table group_set_def nth_default_def names_sorted_def

lemma get_first_set_first_witness:
  "get_first_set (example_pattern dup_names_block 3) [97] [0, 5, -1, -1, -1, -1, 2, 4] 4 = 3"
  using get_first_set_first [of "example_pattern dup_names_block 3" 1 "[97]" 3 "[0, 5, -1, -1, -1, -1, 2, 4]" 4]
  by (simp add: dup_names_simps)

lemma get_first_set_unset_witness:
  "get_first_set (example_pattern dup_names_block 3) [97] [0, 5, -1, -1, 1, 2, -1, -1] 4 = 2"
  using get_first_set_unset [of "example_pattern dup_names_block 3" "[97]" "[0, 5, -1, -1, 1, 2, -1, -1]" 4]
  by (auto simp: dup_names_simps)

end
