(* ===== verification/Substring.thy ===== *)
theory Substring
  imports NameTable "HOL-Library.Monad_Syntax"
begin

text \<open>
  The functions that give the captured strings to the caller: \<open>pcre_copy_substring()\<close>,
  \<open>pcre_get_substring()\<close>, their versions by name, and \<open>pcre_get_substring_list()\<close>
  (\<open>pcre_get.c\<close>). Store from \<open>malloc()\<close> is a list of bytes with arbitrary contents; the
  allocator is a parameter, \<open>None\<close> from it is a failure. A result \<open>None\<close> of a function is a
  behaviour that C leaves undefined: an access outside an array or an overflow of the type \<open>int\<close>.
\<close>

subsection \<open>Reading and writing\<close>

definition read_bytes :: "byte list \<Rightarrow> int \<Rightarrow> int \<Rightarrow> byte list option" where
  "read_bytes mem start n =
    (if n = 0 then Some []
     else if n < 0 \<or> start < 0 \<or> start + n > int (length mem) then None
     else Some (take (nat n) (drop (nat start) mem)))"

definition write_bytes :: "byte list \<Rightarrow> nat \<Rightarrow> byte list \<Rightarrow> byte list option" where
  "write_bytes mem p xs = (if p + length xs \<le> length mem then Some (store mem p xs) else None)"

text \<open>The two offsets of a group.\<close>

definition pair_at :: "int list \<Rightarrow> int \<Rightarrow> (int \<times> int) option" where
  "pair_at ovector stringnumber =
    (let i = stringnumber * 2 in
     if i < 0 \<or> \<not> in_int (i + 1) \<or> i + 1 \<ge> int (length ovector) then None
     else Some (ovector ! nat i, ovector ! nat (i + 1)))"

subsection \<open>One string\<close>

text \<open>The result and the buffer afterwards.\<close>

definition pcre_copy_substring ::
  "byte list \<Rightarrow> int list \<Rightarrow> int \<Rightarrow> int \<Rightarrow> byte list \<Rightarrow> int \<Rightarrow> (int \<times> byte list) option"
where
  "pcre_copy_substring subject ovector stringcount stringnumber buffer sz =
    (if stringnumber < 0 \<or> stringnumber \<ge> stringcount then Some (PCRE_ERROR_NOSUBSTRING, buffer)
     else do {
       (start, stop) \<leftarrow> pair_at ovector stringnumber;
       let yield = stop - start;
       if \<not> in_int yield \<or> \<not> in_int (yield + 1) then None
       else if sz < yield + 1 then Some (PCRE_ERROR_NOMEMORY, buffer)
       else do {
         xs \<leftarrow> read_bytes subject start yield;
         buffer \<leftarrow> write_bytes buffer 0 (xs @ [0]);
         Some (yield, buffer) } })"

text \<open>The result and the new store.\<close>

definition pcre_get_substring ::
  "(nat \<Rightarrow> byte list option) \<Rightarrow> byte list \<Rightarrow> int list \<Rightarrow> int \<Rightarrow> int \<Rightarrow> (int \<times> byte list option) option"
where
  "pcre_get_substring malloc subject ovector stringcount stringnumber =
    (if stringnumber < 0 \<or> stringnumber \<ge> stringcount then Some (PCRE_ERROR_NOSUBSTRING, None)
     else do {
       (start, stop) \<leftarrow> pair_at ovector stringnumber;
       let yield = stop - start;
       if \<not> in_int yield \<or> \<not> in_int (yield + 1) \<or> yield + 1 < 0 then None
       else
         (case malloc (nat (yield + 1)) of
            None \<Rightarrow> Some (PCRE_ERROR_NOMEMORY, None)
          | Some substring \<Rightarrow> do {
              xs \<leftarrow> read_bytes subject start yield;
              substring \<leftarrow> write_bytes substring 0 (xs @ [0]);
              Some (yield, Some substring) }) })"

definition pcre_copy_named_substring ::
  "real_pcre \<Rightarrow> byte list \<Rightarrow> int list \<Rightarrow> int \<Rightarrow> byte list \<Rightarrow> byte list \<Rightarrow> int \<Rightarrow> (int \<times> byte list) option"
where
  "pcre_copy_named_substring code subject ovector stringcount stringname buffer sz =
    (let n = get_first_set code stringname ovector stringcount in
     if n \<le> 0 then Some (n, buffer)
     else pcre_copy_substring subject ovector stringcount n buffer sz)"

definition pcre_get_named_substring ::
  "(nat \<Rightarrow> byte list option) \<Rightarrow> real_pcre \<Rightarrow> byte list \<Rightarrow> int list \<Rightarrow> int \<Rightarrow> byte list \<Rightarrow> (int \<times> byte list option) option"
where
  "pcre_get_named_substring malloc code subject ovector stringcount stringname =
    (let n = get_first_set code stringname ovector stringcount in
     if n \<le> 0 then Some (n, None)
     else pcre_get_substring malloc subject ovector stringcount n)"

subsection \<open>All strings\<close>

text \<open>The size of the store: a pointer and a zero for each string, and its bytes.\<close>

fun list_size :: "int list \<Rightarrow> nat \<Rightarrow> int \<Rightarrow> int option" where
  "list_size ovector 0 sz = Some sz"
| "list_size (start # stop # ovector) (Suc n) sz =
    (let sz = sz + 8 + 1; len = stop - start in
     if \<not> in_int sz then None
     else if stop > start then
       (if \<not> in_int len \<or> \<not> in_int (sz + len) then None else list_size ovector n (sz + len))
     else list_size ovector n sz)"
| "list_size ovector (Suc n) sz = None"

text \<open>The strings one behind the other from \<open>p\<close>; the pointers to them, and the store.\<close>

fun fill_list :: "byte list \<Rightarrow> int list \<Rightarrow> nat \<Rightarrow> nat \<Rightarrow> byte list \<Rightarrow> (nat list \<times> byte list) option" where
  "fill_list subject ovector 0 p block = Some ([], block)"
| "fill_list subject (start # stop # ovector) (Suc n) p block = do {
     let len = (if stop > start then stop - start else 0);
     xs \<leftarrow> read_bytes subject start len;
     block \<leftarrow> write_bytes block p (xs @ [0]);
     (pointers, block) \<leftarrow> fill_list subject ovector n (p + nat len + 1) block;
     Some (p # pointers, block) }"
| "fill_list subject ovector (Suc n) p block = None"

text \<open>
  The result, and the list: the pointers, offsets into the store, before the final NULL. The
  first \<open>8 * (stringcount + 1)\<close> bytes of the store are for the pointers themselves.
\<close>

definition pcre_get_substring_list ::
  "(nat \<Rightarrow> byte list option) \<Rightarrow> byte list \<Rightarrow> int list \<Rightarrow> int \<Rightarrow> (int \<times> (nat list \<times> byte list) option) option"
where
  "pcre_get_substring_list malloc subject ovector stringcount =
    (if \<not> in_int (stringcount * 2) then None
     else do {
       sz \<leftarrow> list_size ovector (nat stringcount) 8;
       (case malloc (nat sz) of
          None \<Rightarrow> Some (PCRE_ERROR_NOMEMORY, None)
        | Some block \<Rightarrow> do {
            (pointers, block) \<leftarrow> fill_list subject ovector (nat stringcount) (8 * nat (stringcount + 1)) block;
            if length block < 8 * nat (stringcount + 1) then None else Some (0, Some (pointers, block)) }) })"

subsection \<open>What the caller gets\<close>

text \<open>A group that is set inside the subject, or unset.\<close>

fun good_pair :: "byte list \<Rightarrow> int \<times> int \<Rightarrow> bool" where
  "good_pair subject (start, stop) \<longleftrightarrow>
     start = -1 \<and> stop = -1 \<or> 0 \<le> start \<and> start \<le> stop \<and> stop \<le> int (length subject)"

fun captured :: "byte list \<Rightarrow> int \<times> int \<Rightarrow> byte list" where
  "captured subject (start, stop) = take (nat (stop - start)) (drop (nat start) subject)"

lemma read_captured:
  "good_pair subject (start, stop) \<Longrightarrow> read_bytes subject start (stop - start) = Some (captured subject (start, stop))"
  by (auto simp: read_bytes_def)

lemma length_captured:
  "good_pair subject pr \<Longrightarrow> int (length (captured subject pr)) = snd pr - fst pr"
  by (cases pr) (auto simp: min_def)

lemma length_store: "p + length xs \<le> length mem \<Longrightarrow> length (store mem p xs) = length mem"
  by (simp add: store_def)

text \<open>The facts that all four functions need of such a group.\<close>

lemma captured_facts:
  assumes "good_pair subject (start, stop)" "int (length subject) < 2 ^ 31 - 1"
  shows "stop - start = int (length (captured subject (start, stop)))"
    "in_int (stop - start)" "in_int (stop - start + 1)"
    "read_bytes subject start (stop - start) = Some (captured subject (start, stop))"
proof -
  show len: "stop - start = int (length (captured subject (start, stop)))"
    using length_captured [OF assms(1)] by simp
  have "length (captured subject (start, stop)) \<le> length subject" by simp
  then show "in_int (stop - start)" "in_int (stop - start + 1)"
    using assms(2) unfolding len by (simp_all add: in_int_def del: captured.simps)
  show "read_bytes subject start (stop - start) = Some (captured subject (start, stop))"
    by (rule read_captured [OF assms(1)])
qed

text \<open>
  C40: \<open>pcre_copy_substring()\<close> copies exactly the captured bytes and a zero, leaves the rest of
  the buffer alone and returns the length; when the buffer is too small it writes nothing.
\<close>

lemma copy_substring_copies:
  assumes "pair_at ovector n = Some pr" "good_pair subject pr" "0 \<le> n" "n < stringcount"
    "int (length subject) < 2 ^ 31 - 1" "sz = int (length buffer)"
  shows "pcre_copy_substring subject ovector stringcount n buffer sz =
    (let xs = captured subject pr in
     if length xs < length buffer then Some (int (length xs), xs @ [0] @ drop (length xs + 1) buffer)
     else Some (PCRE_ERROR_NOMEMORY, buffer))"
proof -
  obtain start stop where pr: "pr = (start, stop)" by fastforce
  note f = captured_facts [OF assms(2) [unfolded pr] assms(5)]
  show ?thesis
    using assms(1,3,4,6) f(2-4) unfolding pcre_copy_substring_def pr f(1)
    by (simp add: f(1) write_bytes_def store_def Let_def del: captured.simps)
qed

lemma copy_substring_copies_witness:
  "pcre_copy_substring [97, 98, 99, 100] [0, 4, 1, 3] 2 1 [7, 7, 7, 7, 7] 5 = Some (2, [98, 99, 0, 7, 7])"
  using copy_substring_copies [of "[0, 4, 1, 3]" 1 "(1, 3)" "[97, 98, 99, 100]" 2 5 "[7, 7, 7, 7, 7]"]
  by (simp add: pair_at_def in_int_def)

text \<open>The same for new store, which is exactly as long as the string and its zero.\<close>

lemma get_substring_copies:
  assumes "pair_at ovector n = Some pr" "good_pair subject pr" "0 \<le> n" "n < stringcount"
    "int (length subject) < 2 ^ 31 - 1" "\<And>k mem. malloc k = Some mem \<Longrightarrow> length mem = k"
  shows "pcre_get_substring malloc subject ovector stringcount n =
    (let xs = captured subject pr in
     if malloc (length xs + 1) = None then Some (PCRE_ERROR_NOMEMORY, None)
     else Some (int (length xs), Some (xs @ [0])))"
proof -
  obtain start stop where pr: "pr = (start, stop)" by fastforce
  note f = captured_facts [OF assms(2) [unfolded pr] assms(5)]
  define xs where "xs = captured subject (start, stop)"
  note len = f(1) [folded xs_def]
  have n: "nat (int (length xs) + 1) = length xs + 1" by simp
  show ?thesis
    using assms(1,3,4) assms(6) [of "length xs + 1"] f(2-4)
    unfolding pcre_get_substring_def pr f(1) xs_def [symmetric] n
    by (cases "malloc (length xs + 1)") (simp_all add: len n write_bytes_def store_def Let_def)
qed

lemma get_substring_copies_witness:
  "pcre_get_substring (\<lambda>k. Some (replicate k 7)) [97, 98, 99, 100] [0, 4, 1, 3] 2 1 = Some (2, Some [98, 99, 0])"
  using get_substring_copies [of "[0, 4, 1, 3]" 1 "(1, 3)" "[97, 98, 99, 100]" 2 "\<lambda>k. Some (replicate k 7)"]
  by (simp add: pair_at_def in_int_def)

subsection \<open>The list of all strings\<close>

text \<open>The pairs of the offset vector, and the layout of the strings behind \<open>p\<close>.\<close>

fun pairs_of :: "int list \<Rightarrow> nat \<Rightarrow> (int \<times> int) list" where
  "pairs_of (start # stop # ovector) (Suc n) = (start, stop) # pairs_of ovector n"
| "pairs_of ovector n = []"

fun strings_at :: "nat \<Rightarrow> byte list list \<Rightarrow> nat list" where
  "strings_at p [] = []"
| "strings_at p (xs # xss) = p # strings_at (p + length xs + 1) xss"

definition string_bytes :: "byte list list \<Rightarrow> byte list" where
  "string_bytes xss = concat (map (\<lambda>xs. xs @ [0]) xss)"

lemma list_size_value:
  assumes "list_all (good_pair subject) (pairs_of ovector n)" "2 * n \<le> length ovector" "0 \<le> sz"
    "sz + 8 * int n + int (length (string_bytes (map (captured subject) (pairs_of ovector n)))) < 2 ^ 31"
  shows "list_size ovector n sz =
    Some (sz + 8 * int n + int (length (string_bytes (map (captured subject) (pairs_of ovector n)))))"
  using assms
proof (induction ovector n sz rule: list_size.induct)
  case (2 start stop ovector n sz)
  define xs where "xs = captured subject (start, stop)"
  have len: "int (length xs) = stop - start"
    using length_captured [of subject "(start, stop)"] "2.prems"(1) by (simp add: xs_def)
  have b: "string_bytes (map (captured subject) (pairs_of (start # stop # ovector) (Suc n))) =
      xs @ 0 # string_bytes (map (captured subject) (pairs_of ovector n))"
    by (simp add: string_bytes_def xs_def)
  define r where "r = int (length (string_bytes (map (captured subject) (pairs_of ovector n))))"
  have total: "int (length (string_bytes (map (captured subject) (pairs_of (start # stop # ovector) (Suc n))))) =
      (stop - start) + 1 + r"
    unfolding b r_def by (simp add: len)
  have bound: "sz + 8 * int (Suc n) + (stop - start + 1 + r) < 2 ^ 31" "0 \<le> r" "0 \<le> stop - start"
    using "2.prems"(4) total len by (simp_all add: r_def del: pairs_of.simps)
  then have ints: "in_int (sz + 8 + 1)" "in_int (stop - start)" "in_int (sz + 8 + 1 + (stop - start))"
    using "2.prems"(3) by (simp_all add: in_int_def)
  have rest: "list_all (good_pair subject) (pairs_of ovector n)" "2 * n \<le> length ovector"
    using "2.prems"(1,2) by simp_all
  show ?case
  proof (cases "stop > start")
    case True
    have "list_size ovector n (sz + 8 + 1 + (stop - start)) = Some (sz + 8 + 1 + (stop - start) + 8 * int n + r)"
      unfolding r_def
      by (rule "2.IH"(1) [OF refl refl _ True _ rest])
        (use ints bound "2.prems"(3) in \<open>simp_all add: r_def\<close>)
    with True ints show ?thesis unfolding total by simp
  next
    case False
    have "list_size ovector n (sz + 8 + 1) = Some (sz + 8 + 1 + 8 * int n + r)"
      unfolding r_def
      by (rule "2.IH"(2) [OF refl refl _ False rest])
        (use ints bound "2.prems"(3) in \<open>simp_all add: r_def\<close>)
    with False ints bound(3) show ?thesis unfolding total by simp
  qed
qed (auto simp: string_bytes_def)

lemma store_append:
  "p \<le> length mem \<Longrightarrow> store (store mem p xs) (p + length xs) ys = store mem p (xs @ ys)"
  by (simp add: store_def add.commute add.left_commute)

lemma fill_list_value:
  assumes "list_all (good_pair subject) (pairs_of ovector n)" "2 * n \<le> length ovector"
    "xss = map (captured subject) (pairs_of ovector n)" "p + length (string_bytes xss) \<le> length block"
  shows "fill_list subject ovector n p block = Some (strings_at p xss, store block p (string_bytes xss))"
  using assms
proof (induction subject ovector n p block arbitrary: xss rule: fill_list.induct)
  case (1 subject ovector p block)
  then show ?case by (simp add: string_bytes_def store_def)
next
  case (2 subject start stop ovector n p block)
  define xs where "xs = captured subject (start, stop)"
  define yss where "yss = map (captured subject) (pairs_of ovector n)"
  have xss: "xss = xs # yss" using "2.prems"(3) by (simp add: xs_def yss_def)
  have bytes: "string_bytes xss = (xs @ [0]) @ string_bytes yss" by (simp add: xss string_bytes_def)
  have good: "good_pair subject (start, stop)" using "2.prems"(1) by simp
  have len: "(if stop > start then stop - start else 0) = int (length xs)"
    using length_captured [OF good] by (simp add: xs_def del: captured.simps)
  have rd: "read_bytes subject start (int (length xs)) = Some xs"
    using read_captured [OF good] length_captured [OF good] by (simp add: xs_def del: captured.simps)
  have room: "p + length (xs @ [0]) \<le> length block" using "2.prems"(4) bytes by simp
  then have wr: "write_bytes block p (xs @ [0]) = Some (store block p (xs @ [0]))"
    by (simp only: write_bytes_def if_True)
  have "fill_list subject ovector n (p + length xs + 1) (store block p (xs @ [0])) =
      Some (strings_at (p + length xs + 1) yss, store (store block p (xs @ [0])) (p + length xs + 1) (string_bytes yss))"
    using "2.IH" [OF len [symmetric] rd wr _ _ yss_def] "2.prems"(1,2,4) room
    by (simp add: bytes length_store)
  moreover have "store (store block p (xs @ [0])) (p + length xs + 1) (string_bytes yss) = store block p (string_bytes xss)"
    using store_append [of p block "xs @ [0]" "string_bytes yss"] room by (simp add: bytes)
  ultimately show ?case by (simp only: fill_list.simps Let_def len rd wr) (simp add: xss wr)
qed auto

text \<open>
  C39: \<open>pcre_get_substring_list()\<close> asks for exactly the store that the pointers and the strings
  with their zeros need, and fills it: the strings lie one behind the other behind the pointers,
  every pointer leads to its string, nothing is written outside, and no byte is left over.
\<close>

lemma substring_list_layout:
  assumes "list_all (good_pair subject) (pairs_of ovector n)" "2 * n \<le> length ovector"
    "xss = map (captured subject) (pairs_of ovector n)" "base = 8 * (n + 1)"
    "int (base + length (string_bytes xss)) < 2 ^ 31"
    "\<And>k mem. malloc k = Some mem \<Longrightarrow> length mem = k"
  shows "pcre_get_substring_list malloc subject ovector (int n) =
    (case malloc (base + length (string_bytes xss)) of
       None \<Rightarrow> Some (PCRE_ERROR_NOMEMORY, None)
     | Some block \<Rightarrow> Some (0, Some (strings_at base xss, take base block @ string_bytes xss)))"
proof -
  define total where "total = base + length (string_bytes xss)"
  have "list_size ovector (nat (int n)) 8 = Some (int total)"
    using list_size_value [OF assms(1,2), of 8] assms(3-5) by (simp add: total_def)
  moreover have "in_int (int n * 2)" using assms(4,5) by (simp add: in_int_def)
  moreover have "8 * nat (int n + 1) = base" using assms(4) by simp
  moreover have "fill_list subject ovector n base block =
      Some (strings_at base xss, take base block @ string_bytes xss)"
    if "malloc total = Some block" for block
    using fill_list_value [OF assms(1-3), of base block] assms(6) [OF that] by (simp add: store_def total_def)
  moreover have "base \<le> length block" if "malloc total = Some block" for block
    using assms(6) [OF that] by (simp add: total_def)
  ultimately show ?thesis
    unfolding total_def [symmetric]
    by (cases "malloc total") (auto simp: pcre_get_substring_list_def)
qed

lemma substring_list_layout_witness:
  "pcre_get_substring_list (\<lambda>k. Some (replicate k 7)) [97, 98, 99] [0, 3, -1, -1, 1, 2] 3 =
     Some (0, Some ([32, 36, 37], replicate 32 7 @ [97, 98, 99, 0, 0, 98, 0]))"
  using substring_list_layout [of "[97, 98, 99]" "[0, 3, -1, -1, 1, 2]" 3 "[[97, 98, 99], [], [98]]" 32 "\<lambda>k. Some (replicate k 7)"]
  by (simp add: numeral_3_eq_3 string_bytes_def)

end
