(* ===== verification/ExecDriver.thy ===== *)
theory ExecDriver
  imports Exec CompiledPattern
begin

text \<open>
  The function \<open>pcre_exec()\<close> of \<open>pcre_exec.c\<close>, which the callers of the library use: the checks of
  its arguments, the set-up of the match block, the loop over the starting positions with the
  optimisations that skip some of them, and what it puts into the offset vector.

  What is not part of the program is in a record of the environment: the tables of \<open>pcre_ucd.c\<close>
  and of \<open>pcre_chartables.c\<close>, the callout function, the allocator and the contents of its new
  store, the just-in-time compiled code, and the size of a stack frame. A vector or string that
  may be NULL is an option; \<open>length\<close> is meant to be the length of the subject and \<open>offsetcount\<close>
  the length of the vector. The fields of the match block that the function leaves uninitialised
  start with zeros.
\<close>

subsection \<open>Options\<close>

abbreviation (input) "PCRE_ANCHORED \<equiv> (0x10 :: 32 word)"
abbreviation (input) "PCRE_DOLLAR_ENDONLY \<equiv> (0x20 :: 32 word)"
abbreviation (input) "PCRE_NOTBOL \<equiv> (0x80 :: 32 word)"
abbreviation (input) "PCRE_NOTEOL \<equiv> (0x100 :: 32 word)"
abbreviation (input) "PCRE_NOTEMPTY \<equiv> (0x400 :: 32 word)"
abbreviation (input) "PCRE_UTF8 \<equiv> (0x800 :: 32 word)"
abbreviation (input) "PCRE_NO_UTF8_CHECK \<equiv> (0x2000 :: 32 word)"
abbreviation (input) "PCRE_PARTIAL_SOFT \<equiv> (0x8000 :: 32 word)"
abbreviation (input) "PCRE_FIRSTLINE \<equiv> (0x40000 :: 32 word)"
abbreviation (input) "PCRE_NEWLINE_BITS \<equiv> (0x700000 :: 32 word)"
abbreviation (input) "PCRE_BSR_ANYCRLF \<equiv> (0x800000 :: 32 word)"
abbreviation (input) "PCRE_BSR_UNICODE \<equiv> (0x1000000 :: 32 word)"
abbreviation (input) "PCRE_JAVASCRIPT_COMPAT \<equiv> (0x2000000 :: 32 word)"
abbreviation (input) "PCRE_NO_START_OPTIMIZE \<equiv> (0x4000000 :: 32 word)"
abbreviation (input) "PCRE_PARTIAL_HARD \<equiv> (0x8000000 :: 32 word)"
abbreviation (input) "PCRE_NOTEMPTY_ATSTART \<equiv> (0x10000000 :: 32 word)"
abbreviation (input) "PCRE_UCP \<equiv> (0x20000000 :: 32 word)"

definition PUBLIC_EXEC_OPTIONS :: "32 word" where
  "PUBLIC_EXEC_OPTIONS =
    PCRE_ANCHORED OR PCRE_NOTBOL OR PCRE_NOTEOL OR PCRE_NOTEMPTY OR PCRE_NOTEMPTY_ATSTART OR
    PCRE_NO_UTF8_CHECK OR PCRE_PARTIAL_HARD OR PCRE_PARTIAL_SOFT OR PCRE_NEWLINE_BITS OR
    PCRE_BSR_ANYCRLF OR PCRE_BSR_UNICODE OR PCRE_NO_START_OPTIMIZE"

definition PUBLIC_JIT_EXEC_OPTIONS :: "32 word" where
  "PUBLIC_JIT_EXEC_OPTIONS =
    PCRE_NO_UTF8_CHECK OR PCRE_NOTBOL OR PCRE_NOTEOL OR PCRE_NOTEMPTY OR PCRE_NOTEMPTY_ATSTART OR
    PCRE_PARTIAL_SOFT OR PCRE_PARTIAL_HARD"

text \<open>The limits of the build, and the offsets of the parts of the character tables.\<close>

abbreviation (input) MATCH_LIMIT :: nat where "MATCH_LIMIT \<equiv> 10000000"
abbreviation (input) MATCH_LIMIT_RECURSION :: nat where "MATCH_LIMIT_RECURSION \<equiv> 10000000"
abbreviation (input) REQ_BYTE_MAX :: nat where "REQ_BYTE_MAX \<equiv> 1000"
abbreviation (input) fcc_offset :: nat where "fcc_offset \<equiv> 256"
abbreviation (input) cbits_offset :: nat where "cbits_offset \<equiv> 512"
abbreviation (input) ctypes_offset :: nat where "ctypes_offset \<equiv> 832"

subsection \<open>The environment and the arguments\<close>

record exec_env =
  env_ucd :: ucd_tables
  env_default_tables :: "byte list"
  env_callout :: "(callout_block \<Rightarrow> int) option"
  env_malloc_ok :: "nat \<Rightarrow> bool"
  env_fresh :: "nat \<Rightarrow> int list"
  env_jit_exec :: "nat \<Rightarrow> byte list \<Rightarrow> int \<Rightarrow> int \<Rightarrow> 32 word \<Rightarrow> int list option \<Rightarrow> int \<Rightarrow> int \<times> int list option"
  env_frame_size :: int

text \<open>The result: the return value, the offset vector, and what is stored through \<open>extra->mark\<close>.\<close>

type_synonym exec_result = "int \<times> int list option \<times> nat option option"

subsection \<open>Checks\<close>

text \<open>The checks of the plain arguments, in their order; the code of the first that fails.\<close>

definition plausible ::
  "32 word \<Rightarrow> real_pcre option \<Rightarrow> byte list option \<Rightarrow> int list option \<Rightarrow> int \<Rightarrow> int \<Rightarrow> int \<Rightarrow> int option"
where
  "plausible options code subject offsets offsetcount len start_off =
    (if options AND NOT PUBLIC_EXEC_OPTIONS \<noteq> 0 then Some PCRE_ERROR_BADOPTION
     else if code = None \<or> subject = None \<or> (offsets = None \<and> offsetcount > 0) then Some PCRE_ERROR_NULL
     else if offsetcount < 0 then Some PCRE_ERROR_BADCOUNT
     else if len < 0 then Some PCRE_ERROR_BADLENGTH
     else if start_off < 0 \<or> start_off > len then Some PCRE_ERROR_BADOFFSET
     else None)"

definition check_header :: "real_pcre \<Rightarrow> int option" where
  "check_header re =
    (if re_magic_number re \<noteq> MAGIC_NUMBER then
       Some (if re_magic_number re = REVERSED_MAGIC_NUMBER then PCRE_ERROR_BADENDIANNESS else PCRE_ERROR_BADMAGIC)
     else if \<not> has (re_flags re) PCRE_MODE8 then Some PCRE_ERROR_BADMODE
     else None)"

definition partial_of :: "32 word \<Rightarrow> nat" where
  "partial_of options =
    (if has options PCRE_PARTIAL_HARD then 2 else if has options PCRE_PARTIAL_SOFT then 1 else 0)"

text \<open>The check of the subject: an error with the two values for the offset vector.\<close>

definition check_utf :: "32 word \<Rightarrow> byte list \<Rightarrow> int \<Rightarrow> nat \<Rightarrow> (int \<times> (int \<times> int) option) option" where
  "check_utf options s len start_off =
    (case valid_utf s len of
       (errorcode, erroroffset) \<Rightarrow>
         if errorcode \<noteq> 0 then
           Some (if errorcode \<le> 5 \<and> partial_of options > 1 then PCRE_ERROR_SHORTUTF8 else PCRE_ERROR_BADUTF8,
                 Some (case erroroffset of None \<Rightarrow> 0 | Some p \<Rightarrow> int p, int errorcode))
         else if start_off > 0 \<and> int start_off < len \<and> cont_byte (rd s start_off) then
           Some (PCRE_ERROR_BADUTF8_OFFSET, None)
         else None)"

definition bsr_of :: "32 word \<Rightarrow> 32 word \<Rightarrow> bool option" where
  "bsr_of options re_opts =
    (let o' = options AND (PCRE_BSR_ANYCRLF OR PCRE_BSR_UNICODE) in
     if o' = 0 then
       Some (if re_opts AND (PCRE_BSR_ANYCRLF OR PCRE_BSR_UNICODE) \<noteq> 0 then has re_opts PCRE_BSR_ANYCRLF else False)
     else if o' = PCRE_BSR_ANYCRLF then Some True
     else if o' = PCRE_BSR_UNICODE then Some False
     else None)"

text \<open>The newline of the run: its type, and the bytes of a fixed one.\<close>

definition newline_of :: "32 word \<Rightarrow> 32 word \<Rightarrow> (nat \<times> byte list) option" where
  "newline_of options re_opts =
    (let n = (if options AND PCRE_NEWLINE_BITS = 0 then re_opts else options) AND PCRE_NEWLINE_BITS in
     if n = 0 then Some (NLTYPE_FIXED, [10])
     else if n = 0x100000 then Some (NLTYPE_FIXED, [13])
     else if n = 0x200000 then Some (NLTYPE_FIXED, [10])
     else if n = 0x300000 then Some (NLTYPE_FIXED, [13, 10])
     else if n = 0x400000 then Some (NLTYPE_ANY, [])
     else if n = 0x500000 then Some (NLTYPE_ANYCRLF, [])
     else None)"

subsection \<open>The match block\<close>

text \<open>A limit: the default, or the one of the extra block, unless the pattern has a smaller one.\<close>

definition limit_of :: "pcre_extra option \<Rightarrow> 64 word \<Rightarrow> (pcre_extra \<Rightarrow> 64 word) \<Rightarrow> nat \<Rightarrow> real_pcre \<Rightarrow> 32 word \<Rightarrow>
  (real_pcre \<Rightarrow> 32 word) \<Rightarrow> nat" where
  "limit_of extra ebit efield dflt re rbit rfield =
    (let l = (case extra of None \<Rightarrow> dflt | Some ex \<Rightarrow> if has (ex_flags ex) ebit then unat (efield ex) else dflt) in
     if has (re_flags re) rbit \<and> unat (rfield re) < l then unat (rfield re) else l)"

definition tables_of :: "exec_env \<Rightarrow> real_pcre \<Rightarrow> pcre_extra option \<Rightarrow> byte list" where
  "tables_of env re extra =
    (let t = (case extra of None \<Rightarrow> re_tables re
              | Some ex \<Rightarrow> if has (ex_flags ex) PCRE_EXTRA_TABLES then ex_tables ex else re_tables re) in
     case t of None \<Rightarrow> env_default_tables env | Some t \<Rightarrow> t)"

text \<open>\<open>while (--iptr >= iend) *iptr = -1;\<close>, and the first two slots.\<close>

definition reset_offsets :: "nat \<Rightarrow> nat \<Rightarrow> int \<Rightarrow> int list \<Rightarrow> int list" where
  "reset_offsets ocount top_bracket offsetcount v =
    (let iend = max 2 (ocount - top_bracket);
         v = fold (\<lambda>i v. v[i := -1]) (rev [iend..<ocount]) v;
         v = (if offsetcount > 0 then v[0 := -1] else v)
     in if offsetcount > 1 then v[1 := -1] else v)"

definition set_up_md ::
  "exec_env \<Rightarrow> real_pcre \<Rightarrow> pcre_extra option \<Rightarrow> byte list \<Rightarrow> nat \<Rightarrow> nat \<Rightarrow> 32 word \<Rightarrow> bool \<Rightarrow> nat \<Rightarrow> byte list \<Rightarrow>
   int list \<Rightarrow> nat \<Rightarrow> match_data"
where
  "set_up_md env re extra s len start_off options bsr nlt nls v ocount =
    (let tables = tables_of env re extra; nt = unat (re_name_table_offset re) in
     \<lparr>nltype = nlt, nllen = length nls, nl = nls,
      match_call_count = 0,
      match_limit = limit_of extra PCRE_EXTRA_MATCH_LIMIT ex_match_limit MATCH_LIMIT re PCRE_MLSET re_limit_match,
      match_limit_recursion = limit_of extra PCRE_EXTRA_MATCH_LIMIT_RECURSION ex_match_limit_recursion
        MATCH_LIMIT_RECURSION re PCRE_RLSET re_limit_recursion,
      offset_vector = v, offset_end = ocount, offset_max = (2 * ocount) div 3,
      name_entry_size = unat (re_name_entry_size re), skip_arg_count = 0, ignore_skip_arg = 0,
      name_table = drop nt (re_block re),
      lcc = tables, fcc = drop fcc_offset tables, ctypes = drop ctypes_offset tables,
      notbol = has options PCRE_NOTBOL, noteol = has options PCRE_NOTEOL,
      utf = has (re_options re) PCRE_UTF8, jscript_compat = has (re_options re) PCRE_JAVASCRIPT_COMPAT,
      use_ucp = has (re_options re) PCRE_UCP, endonly = has (re_options re) PCRE_DOLLAR_ENDONLY,
      notempty = has options PCRE_NOTEMPTY, notempty_atstart = has options PCRE_NOTEMPTY_ATSTART,
      hitend = False, bsr_anycrlf = bsr, hasthen = has (re_flags re) PCRE_HASTHEN,
      start_code = drop (nt + unat (re_name_count re) * unat (re_name_entry_size re)) (re_block re),
      start_subject = s, end_subject = len, start_match_ptr = 0, end_match_ptr = 0, start_used_ptr = 0,
      partial = partial_of options, end_offset_top = 0, capture_last = 0, start_offset = start_off,
      match_function_type = 0, recursive = [],
      callout_data = (case extra of None \<Rightarrow> 0
        | Some ex \<Rightarrow> if has (ex_flags ex) PCRE_EXTRA_CALLOUT_DATA then ex_callout_data ex else 0),
      mark = None, nomatch_mark = None, once_target = None,
      callout = env_callout env, malloc_ok = env_malloc_ok env, ucd = env_ucd env\<rparr>)"

text \<open>The characters for the start optimisations.\<close>

record start_info =
  si_first_char :: "(byte \<times> byte) option"
  si_req_char :: "(byte \<times> byte) option"
  si_start_bits :: "byte list option"
  si_minlength :: "nat option"
  si_anchored :: bool
  si_startline :: bool
  si_firstline :: bool
  si_no_optimize :: bool
  si_hascrorlf :: bool

definition with_case :: "match_data \<Rightarrow> bool \<Rightarrow> byte \<Rightarrow> byte \<times> byte" where
  "with_case md caseless c = (c, if caseless then to_byte (table_get (fcc md) (unat c)) else c)"

definition start_info_of :: "match_data \<Rightarrow> real_pcre \<Rightarrow> pcre_extra option \<Rightarrow> 32 word \<Rightarrow> start_info" where
  "start_info_of md re extra options =
    (let anchored = has (re_options re OR options) PCRE_ANCHORED; flag = has (re_flags re);
         study = study_of extra in
     \<lparr>si_first_char =
        (if \<not> anchored \<and> flag PCRE_FIRSTSET
         then Some (with_case md (flag PCRE_FCH_CASELESS) (ucast (re_first_char re))) else None),
      si_req_char =
        (if flag PCRE_REQCHSET
         then Some (with_case md (flag PCRE_RCH_CASELESS) (ucast (re_req_char re))) else None),
      si_start_bits =
        (if \<not> anchored \<and> \<not> flag PCRE_FIRSTSET \<and> \<not> flag PCRE_STARTLINE then
           (case study of None \<Rightarrow> None
            | Some st \<Rightarrow> if has (sd_flags st) PCRE_STUDY_MAPPED then Some (sd_start_bits st) else None)
         else None),
      si_minlength =
        (case study of None \<Rightarrow> None
         | Some st \<Rightarrow> if has (sd_flags st) PCRE_STUDY_MINLEN then Some (unat (sd_minlength st)) else None),
      si_anchored = anchored, si_startline = flag PCRE_STARTLINE, si_firstline = has (re_options re) PCRE_FIRSTLINE,
      si_no_optimize = has (options OR re_options re) PCRE_NO_START_OPTIMIZE,
      si_hascrorlf = flag PCRE_HASCRORLF\<rparr>)"

subsection \<open>Start optimisations\<close>

lemma acrosschar_ge: "e \<le> acrosschar s endp e"
proof (induction s endp e rule: acrosschar.induct)
  case (1 s endp e)
  then show ?case by (subst acrosschar.simps) (auto dest: Suc_leD)
qed

text \<open>The end of the first line from \<open>t\<close>, for PCRE\_FIRSTLINE.\<close>

function first_line_end :: "match_data \<Rightarrow> nat \<Rightarrow> nat \<times> match_data" where
  "first_line_end md t =
    (if t < end_subject md then
       if fst (md_is_newline md t) then (t, snd (md_is_newline md t))
       else first_line_end (snd (md_is_newline md t))
              (if utf md then acrosschar (start_subject md) (end_subject md) (t + 1) else t + 1)
     else (t, md))"
  by pat_completeness auto
termination
  by (relation "measure (\<lambda>(md, t). end_subject md - t)")
    (auto simp: md_is_newline_def split: prod.split intro!: diff_less_mono2 less_le_trans [OF lessI acrosschar_ge])

declare first_line_end.simps [simp del]

text \<open>\<open>while (start_match < end_subject && ...) start_match++;\<close>\<close>

function scan_while :: "(nat \<Rightarrow> bool) \<Rightarrow> nat \<Rightarrow> nat \<Rightarrow> nat" where
  "scan_while go endp p = (if p < endp \<and> go p then scan_while go endp (p + 1) else p)"
  by pat_completeness auto
termination
  by (relation "measure (\<lambda>(go, endp, p). endp - p)") auto

declare scan_while.simps [simp del]

definition to_first_char :: "byte list \<Rightarrow> byte \<times> byte \<Rightarrow> nat \<Rightarrow> nat \<Rightarrow> nat" where
  "to_first_char s cc endp p =
    (if fst cc \<noteq> snd cc then scan_while (\<lambda>i. rd s i \<noteq> fst cc \<and> rd s i \<noteq> snd cc) endp p
     else scan_while (\<lambda>i. rd s i \<noteq> fst cc) endp p)"

definition to_start_bits :: "byte list \<Rightarrow> byte list \<Rightarrow> nat \<Rightarrow> nat \<Rightarrow> nat" where
  "to_start_bits s bits endp p =
    scan_while (\<lambda>i. unat (rd bits (unat (rd s i) div 8)) AND push_bit (unat (rd s i) AND 7) 1 = 0) endp p"

text \<open>To just after a line break.\<close>

function to_line_start :: "match_data \<Rightarrow> nat \<Rightarrow> nat \<Rightarrow> nat \<times> match_data" where
  "to_line_start md endp p =
    (if p < endp then
       if fst (md_was_newline md p) then (p, snd (md_was_newline md p))
       else to_line_start (snd (md_was_newline md p)) endp
              (if utf md then acrosschar (start_subject md) endp (p + 1) else p + 1)
     else (p, md))"
  by pat_completeness auto
termination
  by (relation "measure (\<lambda>(md, endp, p). endp - p)")
    (auto intro!: diff_less_mono2 less_le_trans [OF lessI acrosschar_ge])

declare to_line_start.simps [simp del]

definition past_crlf :: "match_data \<Rightarrow> nat \<Rightarrow> nat \<Rightarrow> nat" where
  "past_crlf md endp p =
    (if unat (rd (start_subject md) (p - 1)) = CHAR_CR \<and> (nltype md = NLTYPE_ANY \<or> nltype md = NLTYPE_ANYCRLF) \<and>
        p < endp \<and> unat (rd (start_subject md) p) = CHAR_LF
     then p + 1 else p)"

text \<open>The start position after the optimisations that skip positions.\<close>

definition advance_start :: "start_info \<Rightarrow> match_data \<Rightarrow> nat \<Rightarrow> nat \<times> match_data" where
  "advance_start si md start_match =
    (let (endp, md) = (if si_firstline si then first_line_end md start_match else (end_subject md, md)) in
     if si_no_optimize si then (start_match, md)
     else
       (case si_first_char si of
          Some cc \<Rightarrow> (to_first_char (start_subject md) cc endp start_match, md)
        | None \<Rightarrow>
            if si_startline si then
              (if start_match > start_offset md then
                 let (p, md) = to_line_start md endp start_match in (past_crlf md endp p, md)
               else (start_match, md))
            else
              (case si_start_bits si of
                 Some bits \<Rightarrow> (to_start_bits (start_subject md) bits endp start_match, md)
               | None \<Rightarrow> (start_match, md))))"

text \<open>
  The tests that end the whole run: \<open>None\<close> if the subject is too short or does not have the
  required character, otherwise the new place where this character was seen.
\<close>

definition required_char :: "start_info \<Rightarrow> match_data \<Rightarrow> nat \<Rightarrow> int \<Rightarrow> int option" where
  "required_char si md start_match req_char_ptr =
    (if si_no_optimize si \<or> partial md \<noteq> 0 then Some req_char_ptr
     else if (case si_minlength si of None \<Rightarrow> False | Some m \<Rightarrow> end_subject md - start_match < m) then None
     else
       (case si_req_char si of
          None \<Rightarrow> Some req_char_ptr
        | Some cc \<Rightarrow>
            if end_subject md - start_match < REQ_BYTE_MAX then
              let p = start_match + (if si_first_char si = None then 0 else 1) in
              if int p > req_char_ptr then
                let p = to_first_char (start_subject md) cc (end_subject md) p in
                if p \<ge> end_subject md then None else Some (int p)
              else Some req_char_ptr
            else Some req_char_ptr))"

subsection \<open>The loop over the starting positions\<close>

record bump =
  bu_start_match :: nat
  bu_req_char_ptr :: int
  bu_partial :: "(nat \<times> nat) option"

text \<open>The next position after an attempt, and \<open>ignore_skip_arg\<close>; \<open>None\<close> for the results that end the loop.\<close>

definition next_start :: "match_data \<Rightarrow> nat \<Rightarrow> int \<Rightarrow> (nat \<times> nat) option" where
  "next_start md start_match rc =
    (if rc = MATCH_SKIP_ARG then Some (start_match, skip_arg_count md)
     else if rc = MATCH_SKIP \<and> start_match_ptr md > start_match then Some (start_match_ptr md, ignore_skip_arg md)
     else if rc = MATCH_SKIP \<or> rc = MATCH_NOMATCH \<or> rc = MATCH_PRUNE \<or> rc = MATCH_THEN then
       Some (if utf md then acrosschar (start_subject md) (end_subject md) (start_match + 1) else start_match + 1, 0)
     else None)"

text \<open>The step over the LF of a CRLF that the last step has split.\<close>

definition over_crlf :: "start_info \<Rightarrow> match_data \<Rightarrow> nat \<Rightarrow> nat" where
  "over_crlf si md p =
    (if p > start_offset md \<and> unat (rd (start_subject md) (p - 1)) = CHAR_CR \<and> p < end_subject md \<and>
        unat (rd (start_subject md) p) = CHAR_LF \<and> \<not> si_hascrorlf si \<and>
        (nltype md = NLTYPE_ANY \<or> nltype md = NLTYPE_ANYCRLF \<or> nllen md = 2)
     then p + 1 else p)"

text \<open>One call of \<open>match()\<close> from the top.\<close>

definition attempt :: "match_data \<Rightarrow> nat \<Rightarrow> (int \<times> match_data) option" where
  "attempt md start_match =
    match (md\<lparr>start_match_ptr := start_match, start_used_ptr := start_match, match_call_count := 0,
             match_function_type := 0, end_offset_top := 0, skip_arg_count := 0\<rparr>)
      \<lparr>eptr = start_match, ecode = 0, mstart = start_match, offset_top = 2, eptrb = [], rdepth = 0\<rparr>"

partial_function (option) exec_loop :: "start_info \<Rightarrow> match_data \<Rightarrow> bump \<Rightarrow> (int \<times> match_data \<times> bump) option" where
  [code]: "exec_loop si md bu =
    (let (start_match, md) = advance_start si md (bu_start_match bu);
         bu = bu\<lparr>bu_start_match := start_match\<rparr> in
     (case required_char si md start_match (bu_req_char_ptr bu) of
        None \<Rightarrow> Some (MATCH_NOMATCH, md, bu)
      | Some req_char_ptr \<Rightarrow> do {
          let bu = bu\<lparr>bu_req_char_ptr := req_char_ptr\<rparr>;
          (rc, md) \<leftarrow> attempt md start_match;
          let bu = (if hitend md \<and> bu_partial bu = None
                    then bu\<lparr>bu_partial := Some (start_used_ptr md, start_match)\<rparr> else bu);
          (case next_start md start_match rc of
             None \<Rightarrow> Some (if rc = MATCH_COMMIT then MATCH_NOMATCH else rc, md, bu)
           | Some (new_start, ignore) \<Rightarrow>
               let (at_newline, md) =
                     (if si_firstline si then md_is_newline (md\<lparr>ignore_skip_arg := ignore\<rparr>) start_match
                      else (False, md\<lparr>ignore_skip_arg := ignore\<rparr>)) in
               if at_newline then Some (MATCH_NOMATCH, md, bu)
               else if si_anchored si \<or> new_start > end_subject md
               then Some (MATCH_NOMATCH, md, bu\<lparr>bu_start_match := new_start\<rparr>)
               else exec_loop si (md\<lparr>mark := None\<rparr>) (bu\<lparr>bu_start_match := over_crlf si md new_start\<rparr>)) }))"

subsection \<open>The result\<close>

text \<open>\<open>while (iptr < iend) *iptr++ = -1;\<close> on the vector of the caller.\<close>

definition unset_slots :: "nat \<Rightarrow> nat \<Rightarrow> int list \<Rightarrow> int list" where
  "unset_slots i j v = fold (\<lambda>k v. v[k := -1]) [i..<j] v"

text \<open>
  After a match: the return value and the vector of the caller. \<open>temporary\<close> says that the
  matcher worked on a vector of its own, \<open>v\<close> is the vector of the caller.
\<close>

definition matched_result ::
  "match_data \<Rightarrow> bool \<Rightarrow> nat \<Rightarrow> nat \<Rightarrow> int list option \<Rightarrow> nat \<Rightarrow> int \<times> int list option"
where
  "matched_result md temporary top_bracket arg_offset_max offsets offsetcount =
    (let v = (case offsets of None \<Rightarrow> [] | Some v \<Rightarrow> v);
         v = (if \<not> temporary then offset_vector md
              else if arg_offset_max \<ge> 4
              then take 2 v @ take (arg_offset_max - 2) (drop 2 (offset_vector md)) @ drop arg_offset_max v
              else v);
         cl = (if temporary \<and> end_offset_top md > arg_offset_max then capture_last md OR OVFLBIT
               else capture_last md);
         rc = (if cl AND OVFLBIT \<noteq> 0 \<and> end_offset_top md \<ge> arg_offset_max then 0 else end_offset_top md div 2);
         v = (if end_offset_top md div 2 \<le> top_bracket \<and> offsets \<noteq> None
              then unset_slots (end_offset_top md) (min (2 + top_bracket * 2) offsetcount) v else v)
     in if offsetcount < 2 then (0, if offsets = None then None else Some v)
        else (int rc, Some (v[0 := int (start_match_ptr md), 1 := int (end_match_ptr md)])))"

definition partial_result :: "nat \<times> nat \<Rightarrow> nat \<Rightarrow> nat \<Rightarrow> int list \<Rightarrow> int list" where
  "partial_result pm len offsetcount v =
    (if offsetcount > 1 then
       let v = v[0 := int (fst pm), 1 := int len] in if offsetcount > 2 then v[2 := int (snd pm)] else v
     else v)"

definition mark_result :: "pcre_extra option \<Rightarrow> nat option \<Rightarrow> nat option option" where
  "mark_result extra m =
    (case extra of None \<Rightarrow> None | Some ex \<Rightarrow> if has (ex_flags ex) PCRE_EXTRA_MARK then Some m else None)"

definition exec_finish ::
  "int \<Rightarrow> match_data \<Rightarrow> bump \<Rightarrow> bool \<Rightarrow> real_pcre \<Rightarrow> pcre_extra option \<Rightarrow> nat \<Rightarrow> int list option \<Rightarrow> nat \<Rightarrow> exec_result"
where
  "exec_finish rc md bu temporary re extra arg_offset_max offsets offsetcount =
    (let now = (if temporary \<or> offsets = None then offsets else Some (offset_vector md)) in
     if rc = MATCH_MATCH \<or> rc = MATCH_ACCEPT then
       let (rc, v) = matched_result md temporary (unat (re_top_bracket re)) arg_offset_max offsets offsetcount
       in (rc, v, mark_result extra (mark md))
     else if rc \<noteq> MATCH_NOMATCH \<and> rc \<noteq> PCRE_ERROR_PARTIAL then (rc, now, None)
     else
       (case bu_partial bu of
          Some pm \<Rightarrow>
            (PCRE_ERROR_PARTIAL, map_option (partial_result pm (end_subject md) offsetcount) now,
             mark_result extra (nomatch_mark md))
        | None \<Rightarrow> (PCRE_ERROR_NOMATCH, now, mark_result extra (nomatch_mark md))))"

subsection \<open>The function\<close>

text \<open>Whether the matcher gets a vector of its own, and the size of the vector that it uses.\<close>

definition own_vector :: "real_pcre \<Rightarrow> nat \<Rightarrow> bool \<times> nat" where
  "own_vector re ocount =
    (let tb = unat (re_top_backref re) in
     if tb > 0 \<and> tb \<ge> ocount div 3 then (True, tb * 3 + 3) else (False, ocount))"

definition try_jit ::
  "exec_env \<Rightarrow> pcre_extra option \<Rightarrow> byte list \<Rightarrow> int \<Rightarrow> int \<Rightarrow> 32 word \<Rightarrow> int list option \<Rightarrow> int \<Rightarrow> (int \<times> int list option) option"
where
  "try_jit env extra s len start_off options offsets offsetcount =
    (case extra of None \<Rightarrow> None
     | Some ex \<Rightarrow>
         if ex_flags ex AND (PCRE_EXTRA_EXECUTABLE_JIT OR PCRE_EXTRA_TABLES) = PCRE_EXTRA_EXECUTABLE_JIT \<and>
            options AND NOT PUBLIC_JIT_EXEC_OPTIONS = 0
         then
           (case ex_executable_jit ex of None \<Rightarrow> None
            | Some j \<Rightarrow>
                let (rc, v) = env_jit_exec env j s len start_off options offsets offsetcount in
                if rc \<noteq> PCRE_ERROR_JIT_BADOPTION then Some (rc, v) else None)
         else None)"

text \<open>The interpreter: from the options for line breaks on.\<close>

definition exec_interpreted ::
  "exec_env \<Rightarrow> real_pcre \<Rightarrow> pcre_extra option \<Rightarrow> byte list \<Rightarrow> nat \<Rightarrow> nat \<Rightarrow> 32 word \<Rightarrow> int list option \<Rightarrow> nat \<Rightarrow>
     exec_result option"
where
  "exec_interpreted env re extra s len start_off options offsets offsetcount =
    (case bsr_of options (re_options re) of None \<Rightarrow> Some (PCRE_ERROR_BADNEWLINE, offsets, None)
     | Some bsr \<Rightarrow>
       (case newline_of options (re_options re) of None \<Rightarrow> Some (PCRE_ERROR_BADNEWLINE, offsets, None)
        | Some (nlt, nls) \<Rightarrow>
            if partial_of options \<noteq> 0 \<and> has (re_flags re) PCRE_NOPARTIAL then Some (PCRE_ERROR_BADPARTIAL, offsets, None)
            else
              let ocount = offsetcount - offsetcount mod 3; arg_offset_max = (2 * ocount) div 3;
                  (temporary, ocount) = own_vector re ocount in
              if temporary \<and> \<not> env_malloc_ok env (ocount * 4) then Some (PCRE_ERROR_NOMEMORY, offsets, None)
              else
                let v = (if temporary then env_fresh env ocount else case offsets of None \<Rightarrow> [] | Some v \<Rightarrow> v);
                    v = reset_offsets ocount (unat (re_top_bracket re)) (int offsetcount) v;
                    md = set_up_md env re extra s len start_off options bsr nlt nls v ocount;
                    si = start_info_of md re extra options;
                    bu = \<lparr>bu_start_match = start_off, bu_req_char_ptr = int start_off - 1, bu_partial = None\<rparr> in
                do {
                  (rc, md, bu) \<leftarrow> exec_loop si md bu;
                  Some (exec_finish rc md bu temporary re extra arg_offset_max offsets offsetcount) }))"

definition pcre_exec ::
  "exec_env \<Rightarrow> real_pcre option \<Rightarrow> pcre_extra option \<Rightarrow> byte list option \<Rightarrow> int \<Rightarrow> int \<Rightarrow> 32 word \<Rightarrow> int list option \<Rightarrow>
     int \<Rightarrow> exec_result option"
where
  "pcre_exec env code extra subject len start_off options offsets offsetcount =
    (if code = None \<and> extra = None \<and> subject = None \<and> len = -999 \<and> start_off = -999
     then Some (- env_frame_size env, offsets, None)
     else
       (case plausible options code subject offsets offsetcount len start_off of
          Some rc \<Rightarrow> Some (rc, offsets, None)
        | None \<Rightarrow>
            (case (code, subject) of
               (Some re, Some s) \<Rightarrow>
                 (case check_header re of
                    Some rc \<Rightarrow> Some (rc, offsets, None)
                  | None \<Rightarrow>
                      (case (if has (re_options re) PCRE_UTF8 \<and> \<not> has options PCRE_NO_UTF8_CHECK
                             then check_utf options s len (nat start_off) else None) of
                         Some (rc, Some (a, b)) \<Rightarrow>
                           Some (rc, if offsetcount \<ge> 2 then map_option (\<lambda>v. v[0 := a, 1 := b]) offsets else offsets, None)
                       | Some (rc, None) \<Rightarrow> Some (rc, offsets, None)
                       | None \<Rightarrow>
                           (case try_jit env extra s len start_off options offsets offsetcount of
                              Some (rc, v) \<Rightarrow> Some (rc, v, None)
                            | None \<Rightarrow>
                                exec_interpreted env re extra s (nat len) (nat start_off) options offsets
                                  (nat offsetcount))))
             | _ \<Rightarrow> None)))"

end
