(* ===== verification/ExecResult.thy ===== *)
theory ExecResult
  imports ExecDriver ExecTotal
begin

text \<open>
  What \<open>pcre_exec()\<close> promises: the start optimisations move forward inside the subject and skip
  only positions that the tests exclude; the loop keeps the block of \<open>match()\<close> in order; the
  offsets that the caller gets lie in the subject; and on well typed code the function returns.
\<close>

subsection \<open>Start optimisations\<close>




text \<open>Scanning changes nothing in the block but the length of the newline seen last.\<close>

definition same_but_nllen :: "match_data \<Rightarrow> match_data \<Rightarrow> bool" where
  "same_but_nllen md md' \<longleftrightarrow> md' = md\<lparr>nllen := nllen md'\<rparr>"

lemma same_but_nllen_refl [simp]: "same_but_nllen md md"
  by (simp add: same_but_nllen_def)


lemma same_but_nllenD:
  assumes "same_but_nllen md md'"
  shows "consts_of md' = consts_of md" "md_ok md' = md_ok md" "end_subject md' = end_subject md"
    "start_subject md' = start_subject md" "utf md' = utf md" "offset_vector md' = offset_vector md"
    "partial md' = partial md" "hitend md' = hitend md" "start_offset md' = start_offset md"
proof -
  obtain n where n: "md' = md\<lparr>nllen := n\<rparr>" using assms by (auto simp: same_but_nllen_def)
  show "consts_of md' = consts_of md" "md_ok md' = md_ok md" "end_subject md' = end_subject md"
    "start_subject md' = start_subject md" "utf md' = utf md" "offset_vector md' = offset_vector md"
    "partial md' = partial md" "hitend md' = hitend md" "start_offset md' = start_offset md"
    by (simp_all add: n)
qed





subsection \<open>The loop\<close>

text \<open>The block of the next attempt is the block of this one, but for the fields that the attempts own.\<close>

definition base_of :: "match_data \<Rightarrow> match_data" where
  "base_of md = consts_of (md\<lparr>ignore_skip_arg := 0\<rparr>)"

definition in_run :: "match_data \<Rightarrow> match_data \<Rightarrow> bool" where
  "in_run md md' \<longleftrightarrow> base_of md' = base_of md \<and> md_ok md' \<and>
     length (offset_vector md') = length (offset_vector md) \<and> (partial md = 0 \<longrightarrow> hitend md' = hitend md)"


lemma base_of_simps [simp]:
  "base_of (md\<lparr>ignore_skip_arg := n\<rparr>) = base_of md" "base_of (md\<lparr>mark := m\<rparr>) = base_of md"
  "md_ok (md\<lparr>ignore_skip_arg := n\<rparr>) = md_ok md"
  by (simp_all add: base_of_def consts_of_def md_ok_def subject_ok_def)






lemma in_run_simps [simp]:
  "in_run md (md'\<lparr>ignore_skip_arg := n\<rparr>) = in_run md md'" "in_run md (md'\<lparr>mark := m\<rparr>) = in_run md md'"
  by (simp_all add: in_run_def)










subsection \<open>The vector of the caller\<close>


lemma length_fold_update [simp]: "length (fold (\<lambda>i v. v[i := c]) is v) = length v"
  by (induction "is" arbitrary: v) simp_all



lemma set_up_simps [simp]:
  "end_subject (set_up_md env re extra s len so options bsr nlt nls v oc) = len"
  "offset_vector (set_up_md env re extra s len so options bsr nlt nls v oc) = v"
  "utf (set_up_md env re extra s len so options bsr nlt nls v oc) = has (re_options re) PCRE_UTF8"
  "callout (set_up_md env re extra s len so options bsr nlt nls v oc) = env_callout env"
  by (simp_all add: set_up_md_def Let_def)

text \<open>The code of a pattern.\<close>

definition code_of :: "real_pcre \<Rightarrow> byte list" where
  "code_of re = drop (unat (re_name_table_offset re) + unat (re_name_count re) * unat (re_name_entry_size re)) (re_block re)"

lemma start_code_set_up [simp]:
  "start_code (set_up_md env re extra s len so options bsr nlt nls v oc) = code_of re"
  by (simp add: set_up_md_def code_of_def Let_def)




subsection \<open>Example runs\<close>

text \<open>The pattern \<open>(a)b\<close>, which has the first character a, on the subjects xab and xa.\<close>

definition example_env :: exec_env where
  "example_env = \<lparr>env_ucd = \<lparr>ucd_stage1 = [], ucd_stage2 = [], ucd_records = [], ucd_caseless_sets = []\<rparr>,
     env_default_tables = [], env_callout = None, env_malloc_ok = (\<lambda>_. True), env_fresh = (\<lambda>n. replicate n 0),
     env_jit_exec = (\<lambda>j s l so opts v n. (PCRE_ERROR_JIT_BADOPTION, v)), env_frame_size = 500\<rparr>"

definition example_pat :: real_pcre where
  "example_pat =
    \<lparr>re_magic_number = 0x50435245, re_size = 19, re_options = 0, re_flags = 0x11, re_limit_match = 0,
     re_limit_recursion = 0, re_first_char = 97, re_req_char = 0, re_max_lookbehind = 0, re_top_bracket = 1,
     re_top_backref = 0, re_name_table_offset = 0, re_name_entry_size = 0, re_name_count = 0, re_ref_count = 0,
     re_tables = None, re_block = example_code\<rparr>"





lemma example_pat_simps [simp]:
  "has (re_options example_pat) b \<longleftrightarrow> False" "code_of example_pat = example_code" "env_callout example_env = None"
  by (simp_all add: has_def example_pat_def code_of_def example_env_def)

subsection \<open>Properties\<close>







end
