(* ===== verification/WideStrings.thy ===== *)
theory WideStrings
  imports Utf8 CompiledPattern
begin

text \<open>
  Strings of the 16-bit and 32-bit libraries: the validity checks (pcre16_valid_utf16.c,
  pcre32_valid_utf32.c), the encoders (pcre16_ord2utf16.c, pcre32_ord2utf32.c), the character
  macros of the 16-bit library (pcre_internal.h), the conversion to host byte order
  (pcre16_utf16_utils.c, pcre32_utf32_utils.c) and the string functions of pcre_string_utils.c.

  A string is a list of units, of 16 or 32 bits; a pointer is an offset, and a read behind the
  list gives the terminating zero. The conversion to host byte order works on one store that
  holds both buffers, since the code allows them to be the same one. The last part proves that
  the checks accept exactly the encodings of Unicode scalar values, where the errors are, that
  the conversion undoes a change of the byte order, in place too, and what the comparison of
  zero-terminated strings answers.
\<close>

subsection \<open>Units and lengths\<close>

definition rdu :: "'a::len word list \<Rightarrow> nat \<Rightarrow> 'a word" where
  "rdu s i = (if i < length s then s ! i else 0)"

text \<open>A unit other than zero is read inside the list: a scan for zeros comes to an end.\<close>

lemma units_left:
  "rdu s i \<noteq> 0 \<or> rdu t i \<noteq> 0 \<Longrightarrow> max (length s) (length t) - Suc i < max (length s) (length t) - i"
  "rdu s i \<noteq> 0 \<or> rd u i \<noteq> 0 \<Longrightarrow> max (length s) (length u) - Suc i < max (length s) (length u) - i"
  by (rule diff_less_mono2, simp_all add: rdu_def rd_def less_max_iff_disj split: if_splits)+

text \<open>\<open>PRIV(strlen_uc)\<close>; the loop that the checks run for a negative length is the same.\<close>

fun strlen_uc :: "'a::len word list \<Rightarrow> nat" where
  "strlen_uc [] = 0"
| "strlen_uc (c # cs) = (if c \<noteq> 0 then Suc (strlen_uc cs) else 0)"

subsection \<open>The validity checks\<close>

fun valid_utf16_loop :: "nat \<Rightarrow> uchar16 list \<Rightarrow> nat \<times> nat option" where
  "valid_utf16_loop p [] = (0, None)"
| "valid_utf16_loop p (c # rest) =
    (if c AND 0xf800 \<noteq> 0xd800 then valid_utf16_loop (p + 1) rest
     else if c AND 0x0400 = 0 then
       (case rest of
          [] \<Rightarrow> (1, Some p)
        | d # rest' \<Rightarrow> if d AND 0xfc00 \<noteq> 0xdc00 then (2, Some (p + 1))
                      else valid_utf16_loop (p + 2) rest')
     else (3, Some p))"

text \<open>A negative length asks for the terminating zero.\<close>

definition valid_utf16 :: "uchar16 list \<Rightarrow> int \<Rightarrow> nat \<times> nat option" where
  "valid_utf16 s len = valid_utf16_loop 0 (take (if len < 0 then strlen_uc s else nat len) s)"

fun valid_utf32_loop :: "nat \<Rightarrow> uchar32 list \<Rightarrow> nat \<times> nat option" where
  "valid_utf32_loop p [] = (0, None)"
| "valid_utf32_loop p (c # rest) =
    (if c AND 0xfffff800 \<noteq> 0xd800 then
       (if c > 0x10ffff then (3, Some p) else valid_utf32_loop (p + 1) rest)
     else (1, Some p))"

definition valid_utf32 :: "uchar32 list \<Rightarrow> int \<Rightarrow> nat \<times> nat option" where
  "valid_utf32 s len = valid_utf32_loop 0 (take (if len < 0 then strlen_uc s else nat len) s)"

subsection \<open>Encoders and character macros\<close>

definition ord2utf16 :: "cchar \<Rightarrow> uchar16 list" where
  "ord2utf16 cvalue =
    (if cvalue \<le> 0xffff then [word_of_nat cvalue]
     else let c = cvalue - 0x10000 in
       [word_of_nat (0xd800 OR drop_bit 10 c), word_of_nat (0xdc00 OR (c AND 0x3ff))])"

definition ord2utf32 :: "cchar \<Rightarrow> uchar32 list" where
  "ord2utf32 cvalue = [word_of_nat cvalue]"

text \<open>\<open>GETUTF16\<close>, \<open>GETCHARLENTEST\<close> and \<open>GETCHARINCTEST\<close> of the 16-bit library: the character
  and the number of further units.\<close>

definition getutf16 :: "cchar \<Rightarrow> uchar16 list \<Rightarrow> nat \<Rightarrow> cchar" where
  "getutf16 c s e = (push_bit 10 (c AND 0x3ff) OR (unat (rdu s (e + 1)) AND 0x3ff)) + 0x10000"

definition getcharlentest16 :: "bool \<Rightarrow> uchar16 list \<Rightarrow> nat \<Rightarrow> cchar \<times> nat" where
  "getcharlentest16 utf s e =
    (let c = unat (rdu s e) in
     if utf \<and> c AND 0xfc00 = 0xd800 then (getutf16 c s e, 1) else (c, 0))"

definition getcharinctest16 :: "bool \<Rightarrow> uchar16 list \<Rightarrow> nat \<Rightarrow> cchar \<times> nat" where
  "getcharinctest16 utf s e = (let (c, k) = getcharlentest16 utf s e in (c, e + 1 + k))"

definition backchar16 :: "uchar16 list \<Rightarrow> nat \<Rightarrow> nat" where
  "backchar16 s e = (if rdu s e AND 0xfc00 = 0xdc00 then e - 1 else e)"

definition acrosschar16 :: "uchar16 list \<Rightarrow> nat \<Rightarrow> nat \<Rightarrow> nat" where
  "acrosschar16 s endp e = (if e < endp \<and> rdu s e AND 0xfc00 = 0xdc00 then e + 1 else e)"

subsection \<open>Conversion to host byte order\<close>

definition flip16 :: "uchar16 \<Rightarrow> uchar16" where
  "flip16 c = drop_bit 8 c OR push_bit 8 c"

text \<open>The loop: the store, the two pointers, the running length and the byte order.\<close>

function to_host16_loop ::
  "bool \<Rightarrow> nat \<Rightarrow> uchar16 list \<Rightarrow> nat \<Rightarrow> nat \<Rightarrow> int \<Rightarrow> bool \<Rightarrow> uchar16 list \<times> int \<times> bool"
where
  "to_host16_loop keep_boms endp m iptr optr len host_bo =
    (if iptr < endp then
       let c = rdu m iptr in
       if c = 0xfeff \<or> c = 0xfffe then
         (if keep_boms
          then to_host16_loop keep_boms endp (m[optr := 0xfeff]) (iptr + 1) (optr + 1) len (c = 0xfeff)
          else to_host16_loop keep_boms endp m (iptr + 1) optr (len - 1) (c = 0xfeff))
       else to_host16_loop keep_boms endp (m[optr := if host_bo then c else flip16 c])
              (iptr + 1) (optr + 1) len host_bo
     else (m, len, host_bo))"
  by pat_completeness auto
termination by (relation "measure (\<lambda>(_, endp, _, iptr, _). endp - iptr)") auto

definition pcre16_utf16_to_host_byte_order ::
  "uchar16 list \<Rightarrow> nat \<Rightarrow> nat \<Rightarrow> int \<Rightarrow> bool option \<Rightarrow> bool \<Rightarrow> uchar16 list \<times> int \<times> bool option"
where
  "pcre16_utf16_to_host_byte_order m output inp len host_byte_order keep_boms =
    (let host_bo = (case host_byte_order of None \<Rightarrow> True | Some b \<Rightarrow> b);
         len = (if len < 0 then int (strlen_uc (drop inp m)) + 1 else len);
         (m', len', bo) = to_host16_loop keep_boms (inp + nat len) m inp output len host_bo in
     (m', len', map_option (\<lambda>_. bo) host_byte_order))"

function to_host32_loop ::
  "bool \<Rightarrow> nat \<Rightarrow> uchar32 list \<Rightarrow> nat \<Rightarrow> nat \<Rightarrow> bool \<Rightarrow> uchar32 list \<times> bool"
where
  "to_host32_loop keep_boms endp m iptr optr host_bo =
    (if iptr < endp then
       let c = rdu m iptr in
       if c = 0x0000feff \<or> c = 0xfffe0000 then
         (if keep_boms
          then to_host32_loop keep_boms endp (m[optr := 0x0000feff]) (iptr + 1) (optr + 1) (c = 0x0000feff)
          else to_host32_loop keep_boms endp m (iptr + 1) optr (c = 0x0000feff))
       else to_host32_loop keep_boms endp (m[optr := if host_bo then c else swap_uint32 c])
              (iptr + 1) (optr + 1) host_bo
     else (m, host_bo))"
  by pat_completeness auto
termination by (relation "measure (\<lambda>(_, endp, _, iptr, _). endp - iptr)") auto

definition pcre32_utf32_to_host_byte_order ::
  "uchar32 list \<Rightarrow> nat \<Rightarrow> nat \<Rightarrow> int \<Rightarrow> bool option \<Rightarrow> bool \<Rightarrow> uchar32 list \<times> int \<times> bool option"
where
  "pcre32_utf32_to_host_byte_order m output inp len host_byte_order keep_boms =
    (let host_bo = (case host_byte_order of None \<Rightarrow> True | Some b \<Rightarrow> b);
         endp = (if len < 0 then inp + strlen_uc (drop inp m) + 1 else inp + nat len);
         (m', bo) = to_host32_loop keep_boms endp m inp output host_bo in
     (m', len, map_option (\<lambda>_. bo) host_byte_order))"

subsection \<open>Comparison of strings\<close>

definition cmp_units :: "'a::linorder \<Rightarrow> 'a \<Rightarrow> int" where
  "cmp_units c1 c2 = (if c1 > c2 then 1 else 0) * 2 - 1"

function strcmp_uc_uc :: "'a::len word list \<Rightarrow> 'a word list \<Rightarrow> nat \<Rightarrow> int" where
  "strcmp_uc_uc str1 str2 i =
    (if rdu str1 i \<noteq> 0 \<or> rdu str2 i \<noteq> 0 then
       if rdu str1 i \<noteq> rdu str2 i then cmp_units (rdu str1 i) (rdu str2 i)
       else strcmp_uc_uc str1 str2 (i + 1)
     else 0)"
  by pat_completeness auto
termination
  by (relation "measure (\<lambda>(str1, str2, i). max (length str1) (length str2) - i)")
    (simp_all only: in_measure case_prod_conv wf_measure units_left Suc_eq_plus1 [symmetric])

text \<open>\<open>UCHAR21INC\<close> is a plain read with an increment in every library of this release.\<close>

function strcmp_uc_uc_utf :: "uchar32 list \<Rightarrow> uchar32 list \<Rightarrow> nat \<Rightarrow> int" where
  "strcmp_uc_uc_utf str1 str2 i =
    (if rdu str1 i \<noteq> 0 \<or> rdu str2 i \<noteq> 0 then
       if rdu str1 i \<noteq> rdu str2 i then cmp_units (rdu str1 i) (rdu str2 i)
       else strcmp_uc_uc_utf str1 str2 (i + 1)
     else 0)"
  by pat_completeness auto
termination
  by (relation "measure (\<lambda>(str1, str2, i). max (length str1) (length str2) - i)")
    (simp_all only: in_measure case_prod_conv wf_measure units_left Suc_eq_plus1 [symmetric])

function strcmp_uc_c8 :: "'a::len word list \<Rightarrow> byte list \<Rightarrow> nat \<Rightarrow> int" where
  "strcmp_uc_c8 str1 str2 i =
    (if rdu str1 i \<noteq> 0 \<or> rd str2 i \<noteq> 0 then
       if rdu str1 i \<noteq> ucast (rd str2 i) then cmp_units (rdu str1 i) (ucast (rd str2 i))
       else strcmp_uc_c8 str1 str2 (i + 1)
     else 0)"
  by pat_completeness auto
termination
  by (relation "measure (\<lambda>(str1, str2, i). max (length str1) (length str2) - i)")
    (simp_all only: in_measure case_prod_conv wf_measure units_left Suc_eq_plus1 [symmetric])

function strcmp_uc_c8_utf :: "uchar32 list \<Rightarrow> byte list \<Rightarrow> nat \<Rightarrow> int" where
  "strcmp_uc_c8_utf str1 str2 i =
    (if rdu str1 i \<noteq> 0 \<or> rd str2 i \<noteq> 0 then
       if rdu str1 i \<noteq> ucast (rd str2 i) then cmp_units (rdu str1 i) (ucast (rd str2 i))
       else strcmp_uc_c8_utf str1 str2 (i + 1)
     else 0)"
  by pat_completeness auto
termination
  by (relation "measure (\<lambda>(str1, str2, i). max (length str1) (length str2) - i)")
    (simp_all only: in_measure case_prod_conv wf_measure units_left Suc_eq_plus1 [symmetric])

fun strncmp_uc_uc :: "'a::len word list \<Rightarrow> 'a word list \<Rightarrow> nat \<Rightarrow> nat \<Rightarrow> int" where
  "strncmp_uc_uc str1 str2 i 0 = 0"
| "strncmp_uc_uc str1 str2 i (Suc num) =
    (if rdu str1 i \<noteq> rdu str2 i then cmp_units (rdu str1 i) (rdu str2 i)
     else strncmp_uc_uc str1 str2 (i + 1) num)"

fun strncmp_uc_c8 :: "'a::len word list \<Rightarrow> byte list \<Rightarrow> nat \<Rightarrow> nat \<Rightarrow> int" where
  "strncmp_uc_c8 str1 str2 i 0 = 0"
| "strncmp_uc_c8 str1 str2 i (Suc num) =
    (if rdu str1 i \<noteq> ucast (rd str2 i) then cmp_units (rdu str1 i) (ucast (rd str2 i))
     else strncmp_uc_c8 str1 str2 (i + 1) num)"

subsection \<open>Masks on units\<close>

lemma and_high_mask: "unat (c AND NOT (mask n) :: 'a::len word) = unat c div 2 ^ n * 2 ^ n"
proof -
  have "c AND NOT (mask n) = push_bit n (drop_bit n c)"
    by (rule bit_word_eqI)
      (auto simp: bit_and_iff bit_not_iff bit_mask_iff bit_push_bit_iff bit_drop_bit_eq not_less)
  moreover have "unat c div 2 ^ n * 2 ^ n < 2 ^ LENGTH('a)"
    by (rule le_less_trans [OF _ unsigned_less [of c]]) (rule div_times_less_eq_dividend)
  moreover have "unat (push_bit n (drop_bit n c)) =
    take_bit LENGTH('a) (push_bit n (drop_bit n (take_bit LENGTH('a) (unat c))))"
    by (simp only: unsigned_push_bit_eq unsigned_drop_bit_eq)
  ultimately show ?thesis
    by (simp only: push_bit_eq_mult drop_bit_eq_div take_bit_nat_eq_self unsigned_less)
qed

lemma div_times_range:
  "(0 :: nat) < n \<Longrightarrow> x div n * n = n * k \<longleftrightarrow> n * k \<le> x \<and> x < n * Suc k"
  by (auto simp: mult.commute [of _ n] dest: nat_div_range intro: dividend_less_times_div)

lemma high_bits:
  "unat (c AND NOT (mask n) :: 'a::len word) = 2 ^ n * k \<longleftrightarrow> 2 ^ n * k \<le> unat c \<and> unat c < 2 ^ n * Suc k"
  unfolding and_high_mask by (rule div_times_range) simp

lemma unit_eq_iff: "(c :: 'a::len word) = d \<longleftrightarrow> unat c = unat d"
  by (rule word_eq_iff_unsigned)

lemma surrogate_masks:
  "(c :: uchar16) AND 0xf800 = 0xd800 \<longleftrightarrow> 0xd800 \<le> unat c \<and> unat c < 0xe000"
  "(c :: uchar16) AND 0xfc00 = 0xdc00 \<longleftrightarrow> 0xdc00 \<le> unat c \<and> unat c < 0xe000"
  "(c :: uchar16) AND 0xfc00 = 0xd800 \<longleftrightarrow> 0xd800 \<le> unat c \<and> unat c < 0xdc00"
  "(v :: uchar32) AND 0xfffff800 = 0xd800 \<longleftrightarrow> 0xd800 \<le> unat v \<and> unat v < 0xe000"
proof -
  have m: "(0xf800 :: uchar16) = NOT (mask 11)" "(0xfc00 :: uchar16) = NOT (mask 10)"
    "(0xfffff800 :: uchar32) = NOT (mask 11)" by code_simp+
  show "c AND 0xf800 = 0xd800 \<longleftrightarrow> 0xd800 \<le> unat c \<and> unat c < 0xe000"
    unfolding m unit_eq_iff using high_bits [of c 11 27] by simp
  show "c AND 0xfc00 = 0xdc00 \<longleftrightarrow> 0xdc00 \<le> unat c \<and> unat c < 0xe000"
    unfolding m unit_eq_iff using high_bits [of c 10 55] by simp
  show "c AND 0xfc00 = 0xd800 \<longleftrightarrow> 0xd800 \<le> unat c \<and> unat c < 0xdc00"
    unfolding m unit_eq_iff using high_bits [of c 10 54] by simp
  show "v AND 0xfffff800 = 0xd800 \<longleftrightarrow> 0xd800 \<le> unat v \<and> unat v < 0xe000"
    unfolding m unit_eq_iff using high_bits [of v 11 27] by simp
qed

lemma high_surrogate_mask:
  assumes "0xd800 \<le> unat c" "unat c < 0xe000"
  shows "(c :: uchar16) AND 0x0400 = 0 \<longleftrightarrow> unat c < 0xdc00"
proof -
  have "(0x0400 :: uchar16) = 2 ^ 10" by simp
  moreover have "bit c 10 = bit (unat c) 10" by (simp add: bit_unsigned_iff)
  ultimately have "c AND 0x0400 = 0 \<longleftrightarrow> even (unat c div 1024)"
    by (simp only: and_exp_eq_0_iff_not_bit) (simp add: bit_iff_odd)
  moreover have "unat c div 1024 = (if unat c < 0xdc00 then 54 else 55)"
    using assms by (auto intro: nat_div_range)
  ultimately show ?thesis by simp
qed

lemma unit_masks:
  "unat (c :: uchar16) AND 0xfc00 = 0xd800 \<longleftrightarrow> 0xd800 \<le> unat c \<and> unat c < 0xdc00"
  "unat (c :: uchar16) AND 0x3ff = unat c mod 1024"
proof -
  have "unat c AND 0xfc00 = unat (c AND 0xfc00)" by (simp add: unsigned_and_eq)
  then show "unat c AND 0xfc00 = 0xd800 \<longleftrightarrow> 0xd800 \<le> unat c \<and> unat c < 0xdc00"
    using surrogate_masks(3) [of c] by (simp add: unit_eq_iff)
  show "unat c AND 0x3ff = unat c mod 1024" using nat_and_mask [of "unat c" 10] by simp
qed

subsection \<open>UTF-16: what the check accepts\<close>

definition utf16_chars :: "cchar list \<Rightarrow> uchar16 list" where
  "utf16_chars cs = concat (map ord2utf16 cs)"

lemma utf16_chars_simps [simp]:
  "utf16_chars [] = []" "utf16_chars (c # cs) = ord2utf16 c @ utf16_chars cs"
  by (simp_all add: utf16_chars_def)

definition high_surrogate :: "uchar16 \<Rightarrow> bool" where
  "high_surrogate c \<longleftrightarrow> 0xd800 \<le> unat c \<and> unat c < 0xdc00"

definition low_surrogate :: "uchar16 \<Rightarrow> bool" where
  "low_surrogate c \<longleftrightarrow> 0xdc00 \<le> unat c \<and> unat c < 0xe000"

lemmas surrogate_defs = high_surrogate_def low_surrogate_def

lemma valid_utf16_step:
  "valid_utf16_loop p (c # rest) =
    (if high_surrogate c then
       (case rest of
          [] \<Rightarrow> (1, Some p)
        | d # rest' \<Rightarrow> if low_surrogate d then valid_utf16_loop (p + 2) rest' else (2, Some (p + 1)))
     else if low_surrogate c then (3, Some p)
     else valid_utf16_loop (p + 1) rest)"
  by (auto simp: surrogate_masks high_surrogate_mask surrogate_defs split: list.splits)

declare valid_utf16_loop.simps(2) [simp del]

text \<open>Where a string stops being valid: its error code and the distance to the reported unit.\<close>

inductive utf16_error :: "uchar16 list \<Rightarrow> nat \<Rightarrow> nat \<Rightarrow> bool" where
  missing_low: "high_surrogate h \<Longrightarrow> utf16_error [h] 1 0"
| wrong_low: "high_surrogate h \<Longrightarrow> \<not> low_surrogate d \<Longrightarrow> utf16_error (h # d # rest) 2 1"
| isolated_low: "low_surrogate c \<Longrightarrow> utf16_error (c # rest) 3 0"

inductive_cases utf16_errorE: "utf16_error s e d"

lemma utf16_error_loop: "utf16_error s e d \<Longrightarrow> valid_utf16_loop p s = (e, Some (p + d))"
  by (erule utf16_errorE) (auto simp: valid_utf16_step surrogate_defs)

text \<open>Pairs of surrogates and characters beyond U+FFFF.\<close>

lemma unit_of_nat [simp]: "unat (word_of_nat n :: uchar16) = n mod 65536"
  by (simp add: unsigned_of_nat take_bit_eq_mod)

lemma ord2utf16_pair:
  assumes "unat h = 0xd800 + a" "unat d = 0xdc00 + b" "a < 1024" "b < 1024"
  shows "ord2utf16 (0x10000 + 1024 * a + b) = [h, d]"
proof -
  have "(0xd800 :: nat) OR a = 0xd800 + a" "(0xdc00 :: nat) OR b = 0xdc00 + b"
    using assms nat_shift_or [of a 10 54] nat_shift_or [of b 10 55] by simp_all
  moreover have "(1024 * a + b) div 1024 = a" "(1024 * a + b) mod 1024 = b"
    using assms by simp_all
  moreover have "x AND 0x3ff = x mod 1024" for x :: nat using nat_and_mask [of x 10] by simp
  ultimately have "ord2utf16 (0x10000 + 1024 * a + b) = [word_of_nat (unat h), word_of_nat (unat d)]"
    by (simp only: ord2utf16_def drop_bit_eq_div Let_def assms) simp
  then show ?thesis by simp
qed

lemma scalar_utf16_cases [consumes 1, case_names single pair]:
  assumes "scalar c"
  obtains u where "ord2utf16 c = [u]" "\<not> high_surrogate u" "\<not> low_surrogate u" "unat u = c"
    | h d a b where "ord2utf16 c = [h, d]" "unat h = 0xd800 + a" "unat d = 0xdc00 + b"
        "a < 1024" "b < 1024" "c = 0x10000 + 1024 * a + b"
proof (cases "c \<le> 0xffff")
  case True
  with assms show ?thesis
    by (intro that(1) [of "word_of_nat c"]) (auto simp: ord2utf16_def scalar_def surrogate_defs)
next
  case False
  define a where "a = (c - 0x10000) div 1024"
  define b where "b = (c - 0x10000) mod 1024"
  have c: "c = 0x10000 + 1024 * a + b" using False by (simp add: a_def b_def)
  have "c < 0x110000" using assms by (simp add: scalar_def)
  with c have a: "a < 1024" by linarith
  have b: "b < 1024" by (simp add: b_def)
  have h: "unat (word_of_nat (0xd800 + a) :: uchar16) = 0xd800 + a"
    and d: "unat (word_of_nat (0xdc00 + b) :: uchar16) = 0xdc00 + b"
    using a b by (simp_all only: unit_of_nat mod_less)
  show ?thesis using ord2utf16_pair [OF h d a b] by (intro that(2) [OF _ h d a b c]) (simp only: c)
qed

lemma valid_utf16_char:
  assumes "scalar c"
  shows "valid_utf16_loop p (ord2utf16 c @ r) = valid_utf16_loop (p + length (ord2utf16 c)) r"
  using assms
proof (cases rule: scalar_utf16_cases)
  case single
  then show ?thesis by (auto simp: valid_utf16_step surrogate_defs)
next
  case (pair h d a b)
  then show ?thesis by (simp add: valid_utf16_step surrogate_defs)
qed

lemma valid_utf16_chars:
  "list_all scalar cs \<Longrightarrow>
    valid_utf16_loop p (utf16_chars cs @ r) = valid_utf16_loop (p + length (utf16_chars cs)) r"
  by (induction cs arbitrary: p) (simp_all add: valid_utf16_char add.assoc)

lemma pair_scalar:
  assumes "high_surrogate h" "low_surrogate d"
  shows "\<exists>c. scalar c \<and> ord2utf16 c = [h, d]"
proof (intro exI conjI)
  let ?a = "unat h - 0xd800" and ?b = "unat d - 0xdc00"
  have ab: "?a < 1024" "?b < 1024" "unat h = 0xd800 + ?a" "unat d = 0xdc00 + ?b"
    using assms by (auto simp: surrogate_defs)
  show "scalar (0x10000 + 1024 * ?a + ?b)" using ab(1,2) by (simp add: scalar_def)
  show "ord2utf16 (0x10000 + 1024 * ?a + ?b) = [h, d]"
    by (rule ord2utf16_pair [OF ab(3,4,1,2)])
qed

lemma unit_scalar:
  assumes "\<not> high_surrogate c" "\<not> low_surrogate c"
  shows "scalar (unat c) \<and> ord2utf16 (unat c) = [c]"
proof -
  have "unat c < 65536" using unsigned_less [of c, where 'a = nat] by simp
  with assms show ?thesis by (auto simp: scalar_def surrogate_defs ord2utf16_def)
qed

text \<open>Every string is a run of characters, followed by an error unless that is all.\<close>

lemma utf16_split:
  "\<exists>cs r. list_all scalar cs \<and> s = utf16_chars cs @ r \<and> (r = [] \<or> (\<exists>e d. utf16_error r e d))"
proof (induction s rule: length_induct)
  case (1 s)
  have more: "\<exists>cs r. list_all scalar cs \<and> s = utf16_chars cs @ r \<and> (r = [] \<or> (\<exists>e d. utf16_error r e d))"
    if s: "s = ord2utf16 c @ s'" and c: "scalar c" and len: "length s' < length s" for c s'
  proof -
    from 1 len obtain cs r where
      *: "list_all scalar cs" "s' = utf16_chars cs @ r" "r = [] \<or> (\<exists>e d. utf16_error r e d)" by blast
    show ?thesis by (rule exI [of _ "c # cs"], rule exI [of _ r]) (simp add: * s c)
  qed
  have err: "\<exists>cs r. list_all scalar cs \<and> s = utf16_chars cs @ r \<and> (r = [] \<or> (\<exists>e d. utf16_error r e d))"
    if "s = [] \<or> (\<exists>e d. utf16_error s e d)"
    by (rule exI [of _ "[]"], rule exI [of _ s]) (use that in simp)
  show ?case
  proof (cases s)
    case Nil
    then show ?thesis by (intro err) simp
  next
    case s: (Cons u us)
    consider "low_surrogate u" | "high_surrogate u" | "\<not> high_surrogate u" "\<not> low_surrogate u" by blast
    then show ?thesis
    proof cases
      case 1
      then show ?thesis unfolding s by (intro err [unfolded s]) (blast intro: isolated_low)
    next
      case 2
      show ?thesis
      proof (cases us)
        case Nil
        then show ?thesis unfolding s by (intro err [unfolded s]) (use 2 in \<open>blast intro: missing_low\<close>)
      next
        case us: (Cons d ds)
        show ?thesis
        proof (cases "low_surrogate d")
          case True
          with pair_scalar [OF 2] obtain c where "scalar c" "ord2utf16 c = [u, d]" by blast
          then show ?thesis by (intro more [of c ds]) (simp_all add: s us)
        next
          case False
          then show ?thesis unfolding s us
            by (intro err [unfolded s us]) (use 2 in \<open>blast intro: wrong_low\<close>)
        qed
      qed
    next
      case 3
      from unit_scalar [OF this] show ?thesis by (intro more [of "unat u" us]) (simp_all add: s)
    qed
  qed
qed

lemma valid_utf16_exact: "valid_utf16 s (int (length s)) = valid_utf16_loop 0 s"
  by (simp add: valid_utf16_def)

lemma utf16_error_code: "utf16_error r e d \<Longrightarrow> e \<noteq> 0"
  by (erule utf16_errorE) simp_all

text \<open>The check of the 32-bit library.\<close>

lemma valid_utf32_scalars:
  "valid_utf32_loop p s = (0, None) \<longleftrightarrow> list_all scalar (map unat s)"
  by (induction p s rule: valid_utf32_loop.induct)
    (auto simp: surrogate_masks word_less_nat_alt scalar_def)

subsection \<open>Properties: the checks\<close>

text \<open>C31: \<open>pcre16_valid_utf16\<close> accepts exactly the concatenations of the encodings, as
  \<open>PRIV(ord2utf)\<close> of the 16-bit library writes them, of Unicode scalar values.\<close>

theorem valid_utf16_iff_scalar_values:
  "valid_utf16 s (int (length s)) = (0, None) \<longleftrightarrow> (\<exists>cs. list_all scalar cs \<and> s = utf16_chars cs)"
proof -
  obtain cs r where *: "list_all scalar cs" "s = utf16_chars cs @ r"
    "r = [] \<or> (\<exists>e d. utf16_error r e d)" using utf16_split [of s] by blast
  have "valid_utf16_loop 0 (utf16_chars cs') = (0, None)" if "list_all scalar cs'" for cs'
    using valid_utf16_chars [OF that, of 0 "[]"] by simp
  moreover have "valid_utf16_loop 0 s \<noteq> (0, None)" if "utf16_error r e d" for e d
    using * utf16_error_loop [OF that] by (simp add: valid_utf16_chars)
  ultimately show ?thesis using * unfolding valid_utf16_exact by (metis append_Nil2)
qed

text \<open>C32: the error that \<open>pcre16_valid_utf16\<close> reports: it returns a code \<open>e\<close> and an offset exactly when
  the string starts with encoded scalar values and a broken pair follows at once. Code 1 is a high
  surrogate at the end, reported at its own offset, code 2 a high surrogate before another unit,
  reported at that unit, and code 3 an isolated low surrogate.\<close>

theorem valid_utf16_error_offset:
  "valid_utf16 s (int (length s)) = (e, Some off) \<longleftrightarrow>
    (\<exists>cs r d. list_all scalar cs \<and> s = utf16_chars cs @ r \<and> utf16_error r e d \<and>
       off = length (utf16_chars cs) + d)"
proof -
  obtain cs r where *: "list_all scalar cs" "s = utf16_chars cs @ r"
    "r = [] \<or> (\<exists>e d. utf16_error r e d)" using utf16_split [of s] by blast
  have "valid_utf16_loop 0 s = (e, Some off)"
    if "list_all scalar cs'" "s = utf16_chars cs' @ r'" "utf16_error r' e d"
      "off = length (utf16_chars cs') + d" for cs' r' d
    using that by (simp add: valid_utf16_chars utf16_error_loop)
  moreover have "\<exists>cs r d. list_all scalar cs \<and> s = utf16_chars cs @ r \<and> utf16_error r e d \<and>
       off = length (utf16_chars cs) + d" if v: "valid_utf16_loop 0 s = (e, Some off)"
  proof -
    from v * obtain e' d where "utf16_error r e' d" by (auto simp: valid_utf16_chars)
    moreover from utf16_error_loop [OF this] v * have "e = e'" "off = length (utf16_chars cs) + d"
      by (simp_all add: valid_utf16_chars)
    ultimately show ?thesis using * by blast
  qed
  ultimately show ?thesis by (auto simp: valid_utf16_exact)
qed

text \<open>\<open>pcre32_valid_utf32\<close> accepts exactly the strings whose units are Unicode scalar
  values.\<close>

theorem valid_utf32_iff_scalar_values:
  "valid_utf32 s (int (length s)) = (0, None) \<longleftrightarrow> list_all scalar (map unat s)"
  by (simp add: valid_utf32_def valid_utf32_scalars)

text \<open>C36: \<open>GETCHARINC\<close> of the 16-bit library reads back a scalar value that \<open>PRIV(ord2utf)\<close> wrote
  and moves past its last unit, whatever surrounds it.\<close>

theorem getcharinc16_ord2utf16:
  assumes "scalar c"
  shows "getcharinctest16 True (xs @ ord2utf16 c @ ys) (length xs) = (c, length (xs @ ord2utf16 c))"
  using assms
proof (cases rule: scalar_utf16_cases)
  case (single u)
  then show ?thesis
    by (auto simp: getcharinctest16_def getcharlentest16_def rdu_def nth_append unit_masks surrogate_defs)
next
  case (pair h d a b)
  then have "(55296 + a) AND 64512 = 55296" "(55296 + a) AND 1023 = a" "(56320 + b) AND 1023 = b"
    using mod_mult_self3 [of 54 1024 a] mod_mult_self3 [of 55 1024 b]
      unit_masks(1,2) [of h] unit_masks(2) [of d] by simp_all
  with pair nat_shift_or [of b 10 a] show ?thesis
    by (simp add: getcharinctest16_def getcharlentest16_def getutf16_def rdu_def nth_append)
qed

theorem getcharinc16_ord2utf16_witness:
  "getcharinctest16 True [0x41, 0xd83d, 0xde00, 0x42] 1 = (0x1f600, 3)"
proof -
  have "ord2utf16 (0x10000 + 1024 * 0x3d + 0x200) = [0xd83d, 0xde00]"
    by (rule ord2utf16_pair) simp_all
  then have "scalar 0x1f600" "ord2utf16 0x1f600 = [0xd83d, 0xde00]" by (simp_all add: scalar_def)
  then show ?thesis using getcharinc16_ord2utf16 [of "0x1f600" "[0x41]" "[0x42]"] by simp
qed

subsection \<open>Conversion to host byte order on lists\<close>

text \<open>What the conversion does to the units, without the store: the converted units and the
  byte order after them.\<close>

fun host_units :: "'a \<Rightarrow> ('a \<Rightarrow> 'a) \<Rightarrow> bool \<Rightarrow> bool \<Rightarrow> 'a list \<Rightarrow> 'a list \<times> bool" where
  "host_units bom flip keep bo [] = ([], bo)"
| "host_units bom flip keep bo (c # cs) =
    (if c = bom \<or> c = flip bom then
       (let (out, bo') = host_units bom flip keep (c = bom) cs in
        (if keep then bom # out else out, bo'))
     else (let (out, bo') = host_units bom flip keep bo cs in
           ((if bo then c else flip c) # out, bo')))"

lemma host_units_length: "length (fst (host_units bom flip keep bo s)) \<le> length s"
  by (induction bom flip keep bo s rule: host_units.induct) (auto simp: Let_def split: prod.splits)

locale byte_orders =
  fixes bom :: 'a and flip :: "'a \<Rightarrow> 'a"
  assumes flip_flip: "flip (flip c) = c"
    and flip_bom: "flip bom \<noteq> bom"
begin

text \<open>A string may be converted piece by piece, with the byte order of one call passed on to the
  next: the stream processing of the code's comment.\<close>

lemma host_units_append:
  "host_units bom flip keep bo (xs @ ys) =
    (let (out1, bo1) = host_units bom flip keep bo xs; (out2, bo2) = host_units bom flip keep bo1 ys in
     (out1 @ out2, bo2))"
  by (induction xs arbitrary: bo) (auto simp: Let_def split: prod.splits)

lemma flip_eq_iff: "flip c = d \<longleftrightarrow> c = flip d"
  using flip_flip by metis

lemma host_units_plain:
  assumes "bom \<notin> set s" "flip bom \<notin> set s"
  shows "host_units bom flip keep bo (if bo then s else map flip s) = (s, bo)"
  using assms by (induction s) (auto simp: flip_flip flip_eq_iff)

text \<open>A string in either byte order behind its mark becomes the string in host order.\<close>

lemma host_units_marked:
  assumes "bom \<notin> set s" "flip bom \<notin> set s"
  shows "host_units bom flip False bo0 (if bo then bom # s else map flip (bom # s)) = (s, bo)"
  using host_units_plain [OF assms, of False bo] flip_bom by (cases bo) auto

end

lemma bit_flip16: "bit (flip16 c) n \<longleftrightarrow> n < 16 \<and> bit c (if n < 8 then n + 8 else n - 8)"
  by (auto simp: flip16_def bit_simps add.commute dest: bit_imp_le_length)

lemma flip16_flip: "flip16 (flip16 c) = c"
  by (rule bit_word_eqI) (auto simp: bit_flip16)

interpretation utf16_order: byte_orders "0xfeff :: uchar16" flip16
  by unfold_locales (simp_all add: flip16_flip, code_simp)

interpretation utf32_order: byte_orders "0xfeff :: uchar32" swap_uint32
  by unfold_locales (simp_all, code_simp)

subsection \<open>The conversion in the store\<close>

text \<open>The two buffers may be the same, or the output may lie anywhere before the input, or behind
  it: every unit is read before its place is written. The buffers of the two libraries share
  these facts on a write to the store.\<close>

definition buffers_ok :: "nat \<Rightarrow> nat \<Rightarrow> nat \<Rightarrow> nat \<Rightarrow> bool" where
  "buffers_ok n endp i out \<longleftrightarrow> i \<le> endp \<and> endp \<le> n \<and> out + (endp - i) \<le> n \<and> (out \<le> i \<or> endp \<le> out)"

definition units_of :: "'a::len word list \<Rightarrow> nat \<Rightarrow> nat \<Rightarrow> 'a word list" where
  "units_of m i endp = map (rdu m) [i..<endp]"

definition put_units :: "'a list \<Rightarrow> nat \<Rightarrow> 'a list \<Rightarrow> 'a list" where
  "put_units m i xs = take i m @ xs @ drop (i + length xs) m"

lemma put_units_Nil [simp]: "put_units m i [] = m"
  by (simp add: put_units_def)

lemma units_of_Nil: "\<not> i < endp \<Longrightarrow> units_of m i endp = []"
  by (simp add: units_of_def)

lemma units_of_Cons: "i < endp \<Longrightarrow> units_of m i endp = rdu m i # units_of m (Suc i) endp"
  by (simp add: units_of_def upt_conv_Cons)

lemma units_of_write:
  assumes "buffers_ok n endp i out" "i < endp"
  shows "units_of (m[out := c]) (Suc i) endp = units_of m (Suc i) endp"
  using assms by (auto simp: units_of_def rdu_def buffers_ok_def)

lemma put_units_write: "out < length m \<Longrightarrow> put_units (m[out := c]) (Suc out) xs = put_units m out (c # xs)"
  by (simp add: put_units_def take_Suc_conv_app_nth)

lemma buffers_ok_step:
  assumes "buffers_ok n endp i out" "i < endp"
  shows "buffers_ok n endp (Suc i) (Suc out)" "buffers_ok n endp (Suc i) out" "out < n"
  using assms by (auto simp: buffers_ok_def)

declare to_host16_loop.simps [simp del] to_host32_loop.simps [simp del]

lemma to_host16_loop_units:
  assumes "buffers_ok (length m) endp i out"
  shows "to_host16_loop keep endp m i out len bo =
    (let (us, bo') = host_units 0xfeff flip16 keep bo (units_of m i endp) in
     (put_units m out us, len + int (length us) - int (endp - i), bo'))"
  using assms
proof (induction keep endp m i out len bo rule: to_host16_loop.induct)
  case (1 keep endp m i out len bo)
  have f: "flip16 0xfeff = 0xfffe" by code_simp
  show ?case
  proof (cases "i < endp")
    case False
    then show ?thesis by (subst to_host16_loop.simps) (simp add: units_of_Nil)
  next
    case True
    note ok = buffers_ok_step [OF "1.prems" True]
    note w = units_of_write [OF "1.prems" True]
    show ?thesis
    proof (cases "rdu m i = 0xfeff \<or> rdu m i = 0xfffe")
      case mark: True
      note IH = 1(1,2) [OF True refl mark]
      show ?thesis
        using mark IH True ok by (cases keep; subst to_host16_loop.simps)
          (auto simp: Let_def units_of_Cons w put_units_write f split: prod.splits)
    next
      case plain: False
      show ?thesis
        using plain 1(3) [OF True refl plain] True ok by (subst to_host16_loop.simps)
          (auto simp: Let_def units_of_Cons w put_units_write f split: prod.splits)
    qed
  qed
qed

lemma to_host32_loop_units:
  assumes "buffers_ok (length m) endp i out"
  shows "to_host32_loop keep endp m i out bo =
    (let (us, bo') = host_units 0xfeff swap_uint32 keep bo (units_of m i endp) in (put_units m out us, bo'))"
  using assms
proof (induction keep endp m i out bo rule: to_host32_loop.induct)
  case (1 keep endp m i out bo)
  have f: "swap_uint32 0xfeff = 0xfffe0000" by code_simp
  show ?case
  proof (cases "i < endp")
    case False
    then show ?thesis by (subst to_host32_loop.simps) (simp add: units_of_Nil)
  next
    case True
    note ok = buffers_ok_step [OF "1.prems" True]
    note w = units_of_write [OF "1.prems" True]
    show ?thesis
    proof (cases "rdu m i = 0xfeff \<or> rdu m i = 0xfffe0000")
      case mark: True
      note IH = 1(1,2) [OF True refl mark]
      show ?thesis
        using mark IH True ok by (cases keep; subst to_host32_loop.simps)
          (auto simp: Let_def units_of_Cons w put_units_write f split: prod.splits)
    next
      case plain: False
      show ?thesis
        using plain 1(3) [OF True refl plain] True ok by (subst to_host32_loop.simps)
          (auto simp: Let_def units_of_Cons w put_units_write f split: prod.splits)
    qed
  qed
qed

lemma units_of_whole: "units_of m 0 (length m) = m"
  by (rule nth_equalityI) (simp_all add: units_of_def rdu_def)

text \<open>C33: \<open>pcre16_utf16_to_host_byte_order\<close> with a given length writes the converted units at the
  output pointer and nothing else, whether the two buffers are the same, overlap with the output
  in front, or are apart; it returns their number and the last byte order.\<close>

theorem utf16_to_host_refines:
  assumes "buffers_ok (length m) (inp + len) inp out"
  shows "pcre16_utf16_to_host_byte_order m out inp (int len) (Some bo) keep =
    (let (us, bo') = host_units 0xfeff flip16 keep bo (units_of m inp (inp + len)) in
     (put_units m out us, int (length us), Some bo'))"
  by (simp add: pcre16_utf16_to_host_byte_order_def to_host16_loop_units [OF assms] split: prod.splits)

theorem utf16_to_host_refines_witness:
  "pcre16_utf16_to_host_byte_order [0xfffe, 0x4100, 0xfeff, 0x42] 0 0 4 (Some True) False =
    ([0x41, 0x42, 0xfeff, 0x42], 2, Some True)"
proof -
  have "host_units (0xfeff :: uchar16) flip16 False True [0xfffe, 0x4100, 0xfeff, 0x42] = ([0x41, 0x42], True)"
    by code_simp
  then show ?thesis
    using utf16_to_host_refines [of "[0xfffe, 0x4100, 0xfeff, 0x42]" 0 4 0 True False]
    by (simp add: buffers_ok_def units_of_def upt_rec rdu_def put_units_def)
qed

text \<open>C35: a UTF-16 string without marks inside, in either byte order and behind its mark, is
  converted in place to the string in host order, and the byte order found is the one of the
  mark.\<close>

theorem utf16_to_host_roundtrip:
  assumes "0xfeff \<notin> set s" "0xfffe \<notin> set s"
    and "m = (if bo then 0xfeff # s else map flip16 (0xfeff # s))"
  shows "case pcre16_utf16_to_host_byte_order m 0 0 (int (length m)) (Some bo0) False of
    (m', len, bo') \<Rightarrow> take (nat len) m' = s \<and> len = int (length s) \<and> bo' = Some bo"
proof -
  have f: "flip16 0xfeff = 0xfffe" by code_simp
  have ok: "buffers_ok (length m) (0 + length m) 0 0" by (simp add: buffers_ok_def)
  have "host_units 0xfeff flip16 False bo0 m = (s, bo)"
    unfolding assms(3) by (rule utf16_order.host_units_marked) (use assms f in simp_all)
  then show ?thesis
    using to_host16_loop_units [OF ok, of False "int (length m)" bo0]
    by (simp add: pcre16_utf16_to_host_byte_order_def units_of_whole put_units_def)
qed

theorem utf16_to_host_roundtrip_witness:
  "fst (snd (pcre16_utf16_to_host_byte_order [0xfffe, 0x4100] 0 0 2 (Some True) False)) = 1"
proof -
  have "[0xfffe, 0x4100] = map flip16 (0xfeff # [0x41])" by code_simp
  then show ?thesis
    using utf16_to_host_roundtrip [of "[0x41]" "[0xfffe, 0x4100]" False True]
    by (simp split: prod.splits)
qed

text \<open>C34: \<open>pcre32_utf32_to_host_byte_order\<close> writes the converted units in the same way, but it
  returns its argument \<open>length\<close> as it is: marks that were left out are still counted, and for a
  zero-terminated string the answer is negative, against the comment before the function.\<close>

theorem utf32_to_host_refines:
  assumes "buffers_ok (length m) (inp + n) inp out"
    and "n = (if len < 0 then strlen_uc (drop inp m) + 1 else nat len)"
  shows "pcre32_utf32_to_host_byte_order m out inp len (Some bo) keep =
    (let (us, bo') = host_units 0xfeff swap_uint32 keep bo (units_of m inp (inp + n)) in
     (put_units m out us, len, Some bo'))"
  using to_host32_loop_units [OF assms(1)] assms(2)
  by (auto simp: pcre32_utf32_to_host_byte_order_def split: prod.splits)

theorem utf32_to_host_refines_witness:
  "pcre32_utf32_to_host_byte_order [0xfeff, 0x41, 0] 0 0 (-1) (Some True) False =
    ([0x41, 0, 0], -1, Some True)"
proof -
  have "host_units (0xfeff :: uchar32) swap_uint32 False True [0xfeff, 0x41, 0] = ([0x41, 0], True)"
    by code_simp
  then show ?thesis
    using utf32_to_host_refines [of "[0xfeff, 0x41, 0]" 0 3 0 "-1" True False]
    by (simp add: buffers_ok_def units_of_def upt_rec rdu_def put_units_def)
qed

subsection \<open>Comparison\<close>

definition cstring :: "'a::len word list \<Rightarrow> 'a word list" where
  "cstring s = takeWhile (\<lambda>c. c \<noteq> 0) s"

lemma cstring_drop:
  "cstring (drop i s) = (if rdu s i \<noteq> 0 then rdu s i # cstring (drop (Suc i) s) else [])"
proof (cases "i < length s")
  case True
  then show ?thesis by (simp add: cstring_def rdu_def flip: Cons_nth_drop_Suc)
next
  case False
  then show ?thesis by (simp add: cstring_def rdu_def)
qed

declare strcmp_uc_uc.simps [simp del]

lemma strcmp_uc_uc_from:
  "strcmp_uc_uc s t i =
    (let a = cstring (drop i s); b = cstring (drop i t) in
     if a = b then 0 else if ord_class.lexordp a b then -1 else 1)"
proof (induction s t i rule: strcmp_uc_uc.induct)
  case (1 s t i)
  note simps = cstring_drop [of i s] cstring_drop [of i t] cmp_units_def Let_def
  consider "rdu s i = 0" "rdu t i = 0" | "rdu s i \<noteq> 0 \<or> rdu t i \<noteq> 0" "rdu s i \<noteq> rdu t i"
    | "rdu s i \<noteq> 0 \<or> rdu t i \<noteq> 0" "rdu s i = rdu t i" by blast
  then show ?case
  proof cases
    case 1
    then show ?thesis by (subst strcmp_uc_uc.simps) (simp add: simps)
  next
    case 2
    moreover have "0 < rdu s i" if "rdu s i \<noteq> 0" using that word_neq_0_conv by blast
    ultimately show ?thesis
      by (subst strcmp_uc_uc.simps) (auto simp: simps word_neq_0_conv)
  next
    case 3
    with "1.IH" show ?thesis
      by (subst strcmp_uc_uc.simps) (auto simp: simps)
  qed
qed

text \<open>\<open>PRIV(strcmp_uc_uc)\<close> orders zero-terminated strings lexicographically by their units: it
  is 0 exactly for equal strings, -1 when the first one comes first and 1 otherwise.\<close>

theorem strcmp_uc_uc_order:
  "strcmp_uc_uc s t 0 =
    (if cstring s = cstring t then 0 else if ord_class.lexordp (cstring s) (cstring t) then -1 else 1)"
  by (simp add: strcmp_uc_uc_from Let_def)

end
