(* ===== verification/PropertyNames.thy ===== *)
theory PropertyNames
  imports NameTable
begin

text \<open>
  The names of Unicode properties in patterns: the tables \<open>PRIV(utt_names)\<close> and \<open>PRIV(utt)\<close> of
  \<open>pcre_tables.c\<close> and the function \<open>get_ucp()\<close> of \<open>pcre_compile.c\<close>, which reads the name after
  \<open>\\p\<close> or \<open>\\P\<close> and finds it in the table by binary search. A pattern is a list of bytes with
  a zero behind it, a position in it is an offset. The last part proves that the search finds
  exactly the names of the table, with the values that stand there.
\<close>

subsection \<open>The table\<close>

text \<open>The names, which the code joins to one string with zeros between them.\<close>

definition utt_names :: "string list" where
  "utt_names = [
    ''Any'', ''Arabic'', ''Armenian'', ''Avestan'', ''Balinese'', ''Bamum'', ''Bassa_Vah'',
    ''Batak'', ''Bengali'', ''Bopomofo'', ''Brahmi'', ''Braille'', ''Buginese'', ''Buhid'', ''C'',
    ''Canadian_Aboriginal'', ''Carian'', ''Caucasian_Albanian'', ''Cc'', ''Cf'', ''Chakma'',
    ''Cham'', ''Cherokee'', ''Cn'', ''Co'', ''Common'', ''Coptic'', ''Cs'', ''Cuneiform'',
    ''Cypriot'', ''Cyrillic'', ''Deseret'', ''Devanagari'', ''Duployan'',
    ''Egyptian_Hieroglyphs'', ''Elbasan'', ''Ethiopic'', ''Georgian'', ''Glagolitic'', ''Gothic'',
    ''Grantha'', ''Greek'', ''Gujarati'', ''Gurmukhi'', ''Han'', ''Hangul'', ''Hanunoo'',
    ''Hebrew'', ''Hiragana'', ''Imperial_Aramaic'', ''Inherited'', ''Inscriptional_Pahlavi'',
    ''Inscriptional_Parthian'', ''Javanese'', ''Kaithi'', ''Kannada'', ''Katakana'', ''Kayah_Li'',
    ''Kharoshthi'', ''Khmer'', ''Khojki'', ''Khudawadi'', ''L'', ''L&'', ''Lao'', ''Latin'',
    ''Lepcha'', ''Limbu'', ''Linear_A'', ''Linear_B'', ''Lisu'', ''Ll'', ''Lm'', ''Lo'', ''Lt'',
    ''Lu'', ''Lycian'', ''Lydian'', ''M'', ''Mahajani'', ''Malayalam'', ''Mandaic'',
    ''Manichaean'', ''Mc'', ''Me'', ''Meetei_Mayek'', ''Mende_Kikakui'', ''Meroitic_Cursive'',
    ''Meroitic_Hieroglyphs'', ''Miao'', ''Mn'', ''Modi'', ''Mongolian'', ''Mro'', ''Myanmar'',
    ''N'', ''Nabataean'', ''Nd'', ''New_Tai_Lue'', ''Nko'', ''Nl'', ''No'', ''Ogham'',
    ''Ol_Chiki'', ''Old_Italic'', ''Old_North_Arabian'', ''Old_Permic'', ''Old_Persian'',
    ''Old_South_Arabian'', ''Old_Turkic'', ''Oriya'', ''Osmanya'', ''P'', ''Pahawh_Hmong'',
    ''Palmyrene'', ''Pau_Cin_Hau'', ''Pc'', ''Pd'', ''Pe'', ''Pf'', ''Phags_Pa'', ''Phoenician'',
    ''Pi'', ''Po'', ''Ps'', ''Psalter_Pahlavi'', ''Rejang'', ''Runic'', ''S'', ''Samaritan'',
    ''Saurashtra'', ''Sc'', ''Sharada'', ''Shavian'', ''Siddham'', ''Sinhala'', ''Sk'', ''Sm'',
    ''So'', ''Sora_Sompeng'', ''Sundanese'', ''Syloti_Nagri'', ''Syriac'', ''Tagalog'',
    ''Tagbanwa'', ''Tai_Le'', ''Tai_Tham'', ''Tai_Viet'', ''Takri'', ''Tamil'', ''Telugu'',
    ''Thaana'', ''Thai'', ''Tibetan'', ''Tifinagh'', ''Tirhuta'', ''Ugaritic'', ''Vai'',
    ''Warang_Citi'', ''Xan'', ''Xps'', ''Xsp'', ''Xuc'', ''Xwd'', ''Yi'', ''Z'', ''Zl'', ''Zp'',
    ''Zs'']"

definition bytes_of :: "string \<Rightarrow> byte list" where
  "bytes_of = map of_char"

definition utt_bytes :: "byte list" where
  "utt_bytes = concat (map (\<lambda>n. bytes_of n @ [0]) utt_names)"

text \<open>The entries: offset of the name, type and value of the property, the enumerations of
  \<open>pcre_internal.h\<close> and \<open>ucp.h\<close> as numbers.\<close>

definition utt :: "(nat \<times> nat \<times> nat) list" where
  "utt = [
    (0, 0, 0), (4, 4, 0), (11, 4, 1), (20, 4, 77), (28, 4, 61), (37, 4, 78), (43, 4, 102),
    (53, 4, 92), (59, 4, 2), (67, 4, 3), (76, 4, 93), (83, 4, 4), (91, 4, 5), (100, 4, 6),
    (106, 2, 0), (108, 4, 7), (128, 4, 66), (135, 4, 103), (154, 3, 0), (157, 3, 1), (160, 4, 95),
    (167, 4, 67), (172, 4, 8), (181, 3, 2), (184, 3, 3), (187, 4, 9), (194, 4, 10), (201, 3, 4),
    (204, 4, 62), (214, 4, 11), (222, 4, 12), (231, 4, 13), (239, 4, 14), (250, 4, 104),
    (259, 4, 79), (280, 4, 105), (288, 4, 15), (297, 4, 16), (306, 4, 17), (317, 4, 18),
    (324, 4, 106), (332, 4, 19), (338, 4, 20), (347, 4, 21), (356, 4, 22), (360, 4, 23),
    (367, 4, 24), (375, 4, 25), (382, 4, 26), (391, 4, 80), (408, 4, 27), (418, 4, 81),
    (440, 4, 82), (463, 4, 83), (472, 4, 84), (479, 4, 28), (487, 4, 29), (496, 4, 68),
    (505, 4, 30), (516, 4, 31), (522, 4, 107), (529, 4, 108), (539, 2, 1), (541, 1, 0),
    (544, 4, 32), (548, 4, 33), (554, 4, 69), (561, 4, 34), (567, 4, 109), (576, 4, 35),
    (585, 4, 85), (590, 3, 5), (593, 3, 6), (596, 3, 7), (599, 3, 8), (602, 3, 9), (605, 4, 70),
    (612, 4, 71), (619, 2, 2), (621, 4, 110), (630, 4, 36), (640, 4, 94), (648, 4, 111),
    (659, 3, 10), (662, 3, 11), (665, 4, 86), (678, 4, 112), (692, 4, 96), (709, 4, 97),
    (730, 4, 98), (735, 3, 12), (738, 4, 113), (743, 4, 37), (753, 4, 114), (757, 4, 38),
    (765, 2, 3), (767, 4, 115), (777, 3, 13), (780, 4, 39), (792, 4, 63), (796, 3, 14),
    (799, 3, 15), (802, 4, 40), (808, 4, 72), (817, 4, 41), (828, 4, 116), (846, 4, 117),
    (857, 4, 42), (869, 4, 87), (887, 4, 88), (898, 4, 43), (904, 4, 44), (912, 2, 4),
    (914, 4, 118), (927, 4, 119), (937, 4, 121), (949, 3, 16), (952, 3, 17), (955, 3, 18),
    (958, 3, 19), (961, 4, 64), (970, 4, 65), (981, 3, 20), (984, 3, 21), (987, 3, 22),
    (990, 4, 120), (1006, 4, 73), (1013, 4, 45), (1019, 2, 5), (1021, 4, 89), (1031, 4, 74),
    (1042, 3, 23), (1045, 4, 99), (1053, 4, 46), (1061, 4, 122), (1069, 4, 47), (1077, 3, 24),
    (1080, 3, 25), (1083, 3, 26), (1086, 4, 100), (1099, 4, 75), (1109, 4, 48), (1122, 4, 49),
    (1129, 4, 50), (1137, 4, 51), (1146, 4, 52), (1153, 4, 90), (1162, 4, 91), (1171, 4, 101),
    (1177, 4, 53), (1183, 4, 54), (1190, 4, 55), (1197, 4, 56), (1202, 4, 57), (1210, 4, 58),
    (1219, 4, 123), (1227, 4, 59), (1236, 4, 76), (1240, 4, 124), (1252, 5, 0), (1256, 7, 0),
    (1260, 6, 0), (1264, 10, 0), (1268, 8, 0), (1272, 4, 60), (1275, 2, 6), (1277, 3, 27),
    (1280, 3, 28), (1283, 3, 29)]"

subsection \<open>Reading a name\<close>

text \<open>The loop over the characters of a name in braces, at most \<open>n\<close> of them. It answers the last
  character read, its position and the name so far; a zero inside is an error.\<close>

fun ucp_name :: "byte list \<Rightarrow> nat \<Rightarrow> nat \<Rightarrow> byte \<Rightarrow> byte list \<Rightarrow> nat + byte \<times> nat \<times> byte list" where
  "ucp_name s ptr 0 c name = Inr (c, ptr, name)"
| "ucp_name s ptr (Suc n) c name =
    (let ptr = ptr + 1; c = rd s ptr in
     if c = 0 then Inl ptr
     else if c = 0x7d then Inr (c, ptr, name)
     else ucp_name s ptr n c (name @ [c]))"

text \<open>The binary chop.\<close>

function find_utt :: "byte list \<Rightarrow> nat \<Rightarrow> nat \<Rightarrow> nat option" where
  "find_utt name lo hi =
    (if lo < hi then
       let i = (lo + hi) div 2; r = strcmp name (c_string utt_bytes (fst (utt ! i))) in
       if r = 0 then Some i
       else if r > 0 then find_utt name (i + 1) hi
       else find_utt name lo i
     else None)"
  by pat_completeness auto
termination by (relation "measure (\<lambda>(name, lo, hi). hi - lo)") auto

text \<open>The result is the error code and the position, or the negation, the type, the value and
  the position of the last character.\<close>

definition get_ucp :: "byte list \<Rightarrow> nat \<Rightarrow> nat \<times> nat + bool \<times> nat \<times> nat \<times> nat" where
  "get_ucp s ptr =
    (let ptr = ptr + 1; c = rd s ptr;
         look = (\<lambda>neg name ptr.
           case find_utt name 0 (length utt) of
             Some i \<Rightarrow> Inr (neg, fst (snd (utt ! i)), snd (snd (utt ! i)), ptr)
           | None \<Rightarrow> Inl (47, ptr)) in
     if c = 0 then Inl (46, ptr)
     else if c = 0x7b then
       let neg = (rd s (ptr + 1) = 0x5e); ptr = (if neg then ptr + 1 else ptr) in
       (case ucp_name s ptr 31 c [] of
          Inl ptr \<Rightarrow> Inl (46, ptr)
        | Inr (c, ptr, name) \<Rightarrow> if c \<noteq> 0x7d then Inl (46, ptr) else look neg name ptr)
     else look False [c] ptr)"

subsection \<open>The table is in order\<close>

declare find_utt.simps [simp del]

lemma utt_lengths: "length utt = 169" "length utt_names = 169"
  by (simp_all add: utt_def utt_names_def)

lemma utt_names_ordered: "successively (<) (map bytes_of utt_names)"
  by (simp add: utt_names_def bytes_of_def)

lemma utt_names_strict: "sorted_wrt (<) (map bytes_of utt_names)"
  using utt_names_ordered by (subst (asm) successively_conv_sorted_wrt) (auto intro!: transpI)

lemma utt_names_nonzero: "list_all (\<lambda>n. 0 \<notin> set (bytes_of n)) utt_names"
  by (simp add: utt_names_def bytes_of_def)

text \<open>The offsets are the starts of the names.\<close>

fun starts :: "nat \<Rightarrow> string list \<Rightarrow> nat list" where
  "starts p [] = []"
| "starts p (n # ns) = p # starts (p + length n + 1) ns"

lemma utt_offsets: "map fst utt = starts 0 utt_names"
  by (simp add: utt_def utt_names_def)

lemma length_bytes_of [simp]: "length (bytes_of n) = length n"
  by (simp add: bytes_of_def)

lemma c_string_here: "0 \<notin> set b \<Longrightarrow> c_string (pre @ b @ 0 # r) (length pre) = b"
  by (simp add: c_string_def) (subst takeWhile_append2, auto)

lemma starts_strings:
  "list_all (\<lambda>n. 0 \<notin> set (bytes_of n)) ns \<Longrightarrow>
    map (c_string (pre @ concat (map (\<lambda>n. bytes_of n @ [0]) ns))) (starts (length pre) ns) = map bytes_of ns"
proof (induction ns arbitrary: pre)
  case (Cons n ns)
  from Cons.prems Cons.IH [of "pre @ bytes_of n @ [0]"] show ?case
    by (simp add: c_string_here)
qed simp

lemma utt_strings: "map (\<lambda>e. c_string utt_bytes (fst e)) utt = map bytes_of utt_names"
proof -
  have "map (\<lambda>e. c_string utt_bytes (fst e)) utt = map (c_string utt_bytes) (map fst utt)" by simp
  then show ?thesis
    using starts_strings [OF utt_names_nonzero, of "[]"] by (simp add: utt_offsets utt_bytes_def)
qed

lemma utt_string_at: "i < length utt \<Longrightarrow> c_string utt_bytes (fst (utt ! i)) = bytes_of (utt_names ! i)"
  using arg_cong [OF utt_strings, of "\<lambda>xs. xs ! i"] by (simp add: utt_lengths)

text \<open>So the search is a lookup in the list of names.\<close>

lemma find_utt_spec:
  assumes "hi \<le> length utt"
  shows "case find_utt name lo hi of
      None \<Rightarrow> \<forall>i. lo \<le> i \<and> i < hi \<longrightarrow> bytes_of (utt_names ! i) \<noteq> name
    | Some i \<Rightarrow> lo \<le> i \<and> i < hi \<and> bytes_of (utt_names ! i) = name"
  using assms
proof (induction name lo hi rule: find_utt.induct)
  case (1 name lo hi)
  have mono: "bytes_of (utt_names ! i) < bytes_of (utt_names ! k)" if "i < k" "k < length utt" for i k
    using sorted_wrt_nth_less [OF utt_names_strict, of i k] that by (simp add: utt_lengths)
  define i where "i = (lo + hi) div 2"
  show ?case
  proof (cases "lo < hi")
    case False
    then show ?thesis by (subst find_utt.simps) auto
  next
    case True
    then have i: "lo \<le> i" "i < hi" by (auto simp: i_def)
    then have at: "c_string utt_bytes (fst (utt ! i)) = bytes_of (utt_names ! i)"
      using 1(3) by (simp add: utt_string_at)
    consider (eq) "name = bytes_of (utt_names ! i)" | (gt) "bytes_of (utt_names ! i) < name"
      | (lt) "name < bytes_of (utt_names ! i)" by (metis linorder_neq_iff)
    then show ?thesis
    proof cases
      case eq
      then show ?thesis using True i by (subst find_utt.simps) (simp add: at strcmp_order flip: i_def)
    next
      case gt
      then have step: "find_utt name lo hi = find_utt name (i + 1) hi"
        using True by (subst find_utt.simps) (auto simp: at strcmp_order Let_def simp flip: i_def)
      have low: "bytes_of (utt_names ! k) \<noteq> name" if "\<not> i + 1 \<le> k" for k
        using mono [of k i] that i 1(3) gt by (cases "k = i") auto
      have "case find_utt name (i + 1) hi of
          None \<Rightarrow> \<forall>k. i + 1 \<le> k \<and> k < hi \<longrightarrow> bytes_of (utt_names ! k) \<noteq> name
        | Some k \<Rightarrow> i + 1 \<le> k \<and> k < hi \<and> bytes_of (utt_names ! k) = name"
        by (rule 1(1) [OF True i_def refl]) (use gt 1(3) in \<open>auto simp: at strcmp_order\<close>)
      then show ?thesis unfolding step using low i by (auto split: option.splits)
    next
      case lt
      then have step: "find_utt name lo hi = find_utt name lo i"
        using True by (subst find_utt.simps) (auto simp: at strcmp_order Let_def simp flip: i_def)
      have high: "bytes_of (utt_names ! k) \<noteq> name" if "\<not> k < i" "k < hi" for k
        using mono [of i k] that 1(3) lt by (cases "k = i") auto
      have "case find_utt name lo i of
          None \<Rightarrow> \<forall>k. lo \<le> k \<and> k < i \<longrightarrow> bytes_of (utt_names ! k) \<noteq> name
        | Some k \<Rightarrow> lo \<le> k \<and> k < i \<and> bytes_of (utt_names ! k) = name"
        by (rule 1(2) [OF True i_def refl]) (use lt i 1(3) in \<open>auto simp: at strcmp_order\<close>)
      then show ?thesis unfolding step using high i by (auto split: option.splits)
    qed
  qed
qed

definition property_of :: "byte list \<Rightarrow> (nat \<times> nat) option" where
  "property_of = map_of (zip (map bytes_of utt_names) (map snd utt))"

lemma find_utt_property:
  "map_option (\<lambda>i. snd (utt ! i)) (find_utt name 0 (length utt)) = property_of name"
proof -
  have dist: "distinct (map bytes_of utt_names)"
    using utt_names_strict strict_sorted_iff by blast
  have zip: "zip (map bytes_of utt_names) (map snd utt) ! i = (bytes_of (utt_names ! i), snd (utt ! i))"
    if "i < length utt" for i using that by (simp add: utt_lengths)
  show ?thesis
  proof (cases "find_utt name 0 (length utt)")
    case None
    with find_utt_spec [where name = name and lo = 0, OF order_refl] have "name \<notin> bytes_of ` set utt_names"
      by (auto simp: in_set_conv_nth utt_lengths)
    then have "property_of name = None"
      unfolding property_of_def by (subst map_of_zip_is_None) (simp_all add: utt_lengths)
    with None show ?thesis by simp
  next
    case (Some i)
    with find_utt_spec [where name = name and lo = 0, OF order_refl] have i: "i < length utt" "bytes_of (utt_names ! i) = name"
      by simp_all
    have "(name, snd (utt ! i)) \<in> set (zip (map bytes_of utt_names) (map snd utt))"
      using zip [OF i(1)] i by (metis length_map length_zip min.idem nth_mem utt_lengths)
    then show ?thesis using Some dist by (simp add: property_of_def utt_lengths)
  qed
qed

lemma ucp_name_reads:
  assumes "0 \<notin> set name" "0x7d \<notin> set name" "length name < n"
  shows "ucp_name (pre @ x # name @ 0x7d # rest) (length pre) n c acc =
    Inr (0x7d, length pre + 1 + length name, acc @ name)"
  using assms
proof (induction name arbitrary: pre x n c acc)
  case Nil
  then show ?case by (cases n) (simp_all add: rd_def nth_append)
next
  case (Cons y ys)
  then obtain k where n: "n = Suc k" by (cases n) auto
  have "rd (pre @ x # y # ys @ 0x7d # rest) (length pre + 1) = y" by (simp add: rd_def nth_append)
  moreover have "ucp_name ((pre @ [x]) @ y # ys @ 0x7d # rest) (length (pre @ [x])) k y (acc @ [y]) =
    Inr (0x7d, length (pre @ [x]) + 1 + length ys, (acc @ [y]) @ ys)"
    by (rule Cons.IH) (use Cons.prems n in auto)
  ultimately show ?case using Cons.prems by (simp add: n)
qed

subsection \<open>Properties\<close>

text \<open>C30: \<open>get_ucp()\<close> on a name in braces, negated by a circumflex or not: it answers the type and
  value that the table holds for the name, with the position of the closing brace, and error 47
  exactly for names that are not in the table.\<close>

theorem get_ucp_finds_name:
  assumes "0 \<notin> set name" "0x7d \<notin> set name" "length name \<le> 30" "neg \<or> take 1 name \<noteq> [0x5e]"
    and "s = pre @ [c, 0x7b] @ (if neg then [0x5e] else []) @ name @ 0x7d # rest"
    and "close = length pre + 2 + (if neg then 1 else 0) + length name"
  shows "get_ucp s (length pre) =
    (case property_of name of Some (ty, v) \<Rightarrow> Inr (neg, ty, v, close) | None \<Rightarrow> Inl (47, close))"
proof -
  let ?p = "length pre + 1 + (if neg then 1 else 0)"
  have b: "rd s (length pre + 1) = 0x7b" by (simp add: assms(5) rd_def nth_append)
  have n: "rd s (length pre + 1 + 1) = 0x5e \<longleftrightarrow> neg"
    using assms(4) by (cases name) (auto simp: assms(5) rd_def nth_append)
  have "ucp_name s ?p 31 0x7b [] = Inr (0x7d, close, name)"
  proof (cases neg)
    case True
    with assms ucp_name_reads [of name 31 "pre @ [c, 0x7b]" "0x5e" rest "0x7b" "[]"]
    show ?thesis by simp
  next
    case False
    with assms ucp_name_reads [of name 31 "pre @ [c]" "0x7b" rest "0x7b" "[]"]
    show ?thesis by simp
  qed
  then show ?thesis
    using b n by (auto simp: get_ucp_def Let_def find_utt_property [symmetric] split: option.splits prod.splits)
qed

theorem get_ucp_finds_name_witness:
  "get_ucp [0x70, 0x7b, 0x5e, 0x4c, 0x75, 0x7d] 0 = Inr (True, 3, 9, 5)"
proof -
  have "property_of [0x4c, 0x75] = Some (3, 9)"
    by (simp add: property_of_def utt_names_def utt_def bytes_of_def)
  then show ?thesis
    using get_ucp_finds_name [of "[0x4c, 0x75]" True "[0x70, 0x7b, 0x5e, 0x4c, 0x75, 0x7d]" "[]" "0x70" "[]" 5]
    by simp
qed

end
