(* ===== verification/PatternSyntax.thy ===== *)
theory PatternSyntax
  imports Utf8 PropertyNames
begin

text \<open>
  The lexical functions of the pattern compiler (\<open>pcre_compile.c\<close>): \<open>is_counted_repeat()\<close> and
  \<open>read_repeat_counts()\<close> for quantifiers in braces, \<open>check_escape()\<close> for everything that starts
  with a backslash, \<open>check_posix_syntax()\<close> and \<open>check_posix_name()\<close> for classes such as
  \<open>[:alpha:]\<close>. A pattern is a list of bytes; behind it a zero is read, as in the
  zero-terminated strings that \<open>pcre_compile()\<close> is given.

  The last parts prove that the test for a counted repeat recognises exactly the forms {n},
  {n,} and {n,m} and that the numbers read from it are the ones written; that an escape
  sequence ends inside the pattern and gives a character that the mode allows; and what the
  numerals in braces stand for.
\<close>

subsection \<open>Constants\<close>

abbreviation (input) "PCRE_EXTRA \<equiv> (0x40 :: 32 word)"
abbreviation (input) "PCRE_UTF \<equiv> (0x800 :: 32 word)"
abbreviation (input) "PCRE_JAVASCRIPT \<equiv> (0x2000000 :: 32 word)"
abbreviation (input) "PCRE_USE_UCP \<equiv> (0x20000000 :: 32 word)"

abbreviation (input) ESC_A :: int where "ESC_A \<equiv> 1"
abbreviation (input) ESC_G :: int where "ESC_G \<equiv> 2"
abbreviation (input) ESC_K :: int where "ESC_K \<equiv> 3"
abbreviation (input) ESC_B :: int where "ESC_B \<equiv> 4"
abbreviation (input) ESC_b :: int where "ESC_b \<equiv> 5"
abbreviation (input) ESC_D :: int where "ESC_D \<equiv> 6"
abbreviation (input) ESC_d :: int where "ESC_d \<equiv> 7"
abbreviation (input) ESC_S :: int where "ESC_S \<equiv> 8"
abbreviation (input) ESC_s :: int where "ESC_s \<equiv> 9"
abbreviation (input) ESC_W :: int where "ESC_W \<equiv> 10"
abbreviation (input) ESC_w :: int where "ESC_w \<equiv> 11"
abbreviation (input) ESC_N :: int where "ESC_N \<equiv> 12"
abbreviation (input) ESC_dum :: int where "ESC_dum \<equiv> 13"
abbreviation (input) ESC_C :: int where "ESC_C \<equiv> 14"
abbreviation (input) ESC_P :: int where "ESC_P \<equiv> 15"
abbreviation (input) ESC_p :: int where "ESC_p \<equiv> 16"
abbreviation (input) ESC_R :: int where "ESC_R \<equiv> 17"
abbreviation (input) ESC_H :: int where "ESC_H \<equiv> 18"
abbreviation (input) ESC_h :: int where "ESC_h \<equiv> 19"
abbreviation (input) ESC_V :: int where "ESC_V \<equiv> 20"
abbreviation (input) ESC_v :: int where "ESC_v \<equiv> 21"
abbreviation (input) ESC_X :: int where "ESC_X \<equiv> 22"
abbreviation (input) ESC_Z :: int where "ESC_Z \<equiv> 23"
abbreviation (input) ESC_z :: int where "ESC_z \<equiv> 24"
abbreviation (input) ESC_E :: int where "ESC_E \<equiv> 25"
abbreviation (input) ESC_Q :: int where "ESC_Q \<equiv> 26"
abbreviation (input) ESC_g :: int where "ESC_g \<equiv> 27"
abbreviation (input) ESC_k :: int where "ESC_k \<equiv> 28"
abbreviation (input) ESC_DU :: int where "ESC_DU \<equiv> 29"
abbreviation (input) ESC_du :: int where "ESC_du \<equiv> 30"
abbreviation (input) ESC_SU :: int where "ESC_SU \<equiv> 31"
abbreviation (input) ESC_su :: int where "ESC_su \<equiv> 32"
abbreviation (input) ESC_WU :: int where "ESC_WU \<equiv> 33"
abbreviation (input) ESC_wu :: int where "ESC_wu \<equiv> 34"

definition escapes :: "int list" where
  "escapes = [
    0, 0, 0, 0, 0, 0, 0, 0, 0, 0, 0x3a, 0x3b, 0x3c, 0x3d, 0x3e, 0x3f, 0x40, - ESC_A, - ESC_B,
    - ESC_C, - ESC_D, - ESC_E, 0, - ESC_G, - ESC_H, 0, 0, - ESC_K, 0, 0, - ESC_N, 0, - ESC_P,
    - ESC_Q, - ESC_R, - ESC_S, 0, 0, - ESC_V, - ESC_W, - ESC_X, 0, - ESC_Z, 0x5b, 0x5c, 0x5d,
    0x5e, 0x5f, 0x60, 0x7, - ESC_b, 0, - ESC_d, 0x1b, 0xc, 0, - ESC_h, 0, 0, - ESC_k, 0, 0, 0xa,
    0, - ESC_p, 0, 0xd, - ESC_s, 0x9, 0, - ESC_v, - ESC_w, 0, 0, - ESC_z]"

definition IS_DIGIT :: "byte \<Rightarrow> bool" where
  "IS_DIGIT x \<longleftrightarrow> 0x30 \<le> x \<and> x \<le> 0x39"

text \<open>The table of digits, 0x04 for decimal and 0x08 for hexadecimal ones.\<close>

definition digitab :: "nat list" where
  "digitab = replicate 48 0 @ replicate 10 0x0c @ replicate 7 0 @ replicate 6 0x08 @
     replicate 26 0 @ replicate 6 0x08 @ replicate 153 0"

definition is_xdigit :: "byte \<Rightarrow> bool" where
  "is_xdigit x \<longleftrightarrow> digitab ! unat x AND 0x08 \<noteq> 0"

subsection \<open>Scanning\<close>

text \<open>A loop that moves on while the byte passes a test that the zero behind the pattern fails.\<close>

function skip_while :: "(byte \<Rightarrow> bool) \<Rightarrow> byte list \<Rightarrow> nat \<Rightarrow> nat" where
  "skip_while P s p = (if p < length s \<and> P (rd s p) then skip_while P s (p + 1) else p)"
  by pat_completeness auto
termination by (relation "measure (\<lambda>(P, s, p). length s - p)") auto

definition is_counted_repeat :: "byte list \<Rightarrow> nat \<Rightarrow> bool" where
  "is_counted_repeat s p =
    (if \<not> IS_DIGIT (rd s p) then False
     else
       let p = skip_while IS_DIGIT s (p + 1) in
       if rd s p = 0x7d then True
       else if rd s p \<noteq> 0x2c then False
       else
         let p = p + 1 in
         if rd s p = 0x7d then True
         else if \<not> IS_DIGIT (rd s p) then False
         else rd s (skip_while IS_DIGIT s (p + 1)) = 0x7d)"

text \<open>The numbers of a repeat: \<open>None\<close> with the position where 65535 is exceeded.\<close>

function read_count :: "byte list \<Rightarrow> nat \<Rightarrow> int \<Rightarrow> nat \<times> int option" where
  "read_count s p n =
    (if p < length s \<and> IS_DIGIT (rd s p) then
       let n = n * 10 + (uint (rd s p) - 0x30); p = p + 1 in
       if n > 65535 then (p, None) else read_count s p n
     else (p, Some n))"
  by pat_completeness auto
termination by (relation "measure (\<lambda>(s, p, n). length s - p)") auto

text \<open>The position, with an error code or the two bounds; the upper one is -1 for "no limit".\<close>

definition read_repeat_counts :: "byte list \<Rightarrow> nat \<Rightarrow> nat \<times> (nat + int \<times> int)" where
  "read_repeat_counts s p =
    (case read_count s p 0 of
       (p, None) \<Rightarrow> (p, Inl 5)
     | (p, Some mn) \<Rightarrow>
         if rd s p = 0x7d then (p, Inr (mn, mn))
         else
           let p = p + 1 in
           if rd s p \<noteq> 0x7d then
             (case read_count s p 0 of
                (p, None) \<Rightarrow> (p, Inl 5)
              | (p, Some mx) \<Rightarrow> if mx < mn then (p, Inl 4) else (p, Inr (mn, mx)))
           else (p, Inr (mn, -1)))"

subsection \<open>Escapes\<close>

text \<open>The result of an escape: a special code (positive), the negative number of a back reference
  or 0 for a data character, that character, the position of the last byte and the error code.\<close>

type_synonym escape = "int \<times> cchar \<times> nat \<times> nat option"

definition add_hex :: "cchar \<Rightarrow> byte \<Rightarrow> cchar" where
  "add_hex c b =
    (let cc = unat b; cc = (if cc \<ge> 0x61 then cc - 32 else cc) in
     c * 16 + cc - (if cc < 0x41 then 0x30 else 0x41 - 10))"

text \<open>\<open>n\<close> digits behind \<open>ptr\<close>, and at most \<open>n\<close> of them; \<open>add\<close> takes one digit in.\<close>

fun fixed_digits :: "(cchar \<Rightarrow> byte \<Rightarrow> cchar) \<Rightarrow> byte list \<Rightarrow> nat \<Rightarrow> nat \<Rightarrow> cchar \<Rightarrow> cchar \<times> nat" where
  "fixed_digits add s ptr 0 c = (c, ptr)"
| "fixed_digits add s ptr (Suc n) c = fixed_digits add s (ptr + 1) n (add c (rd s (ptr + 1)))"

fun upto_digits ::
  "(byte \<Rightarrow> bool) \<Rightarrow> (cchar \<Rightarrow> byte \<Rightarrow> cchar) \<Rightarrow> byte list \<Rightarrow> nat \<Rightarrow> nat \<Rightarrow> cchar \<Rightarrow> cchar \<times> nat"
where
  "upto_digits digit add s ptr 0 c = (c, ptr)"
| "upto_digits digit add s ptr (Suc n) c =
    (if digit (rd s (ptr + 1)) then upto_digits digit add s (ptr + 1) n (add c (rd s (ptr + 1)))
     else (c, ptr))"

definition is_octal :: "byte \<Rightarrow> bool" where
  "is_octal x \<longleftrightarrow> 0x30 \<le> x \<and> x \<le> 0x37"

definition add_octal :: "cchar \<Rightarrow> byte \<Rightarrow> cchar" where
  "add_octal c b = c * 8 + unat b - 0x30"

text \<open>The loops over the digits in \<open>\\o{}\<close> and \<open>\\x{}\<close>: leading zeros are passed over, and the
  first value beyond the largest character stops the loop.\<close>

definition max_char :: "bool \<Rightarrow> cchar" where
  "max_char utf = (if utf then 0x10ffff else 0xff)"

function braced_digits ::
  "(byte \<Rightarrow> bool) \<Rightarrow> (cchar \<Rightarrow> byte \<Rightarrow> cchar) \<Rightarrow> bool \<Rightarrow> byte list \<Rightarrow> nat \<Rightarrow> cchar \<Rightarrow> bool \<times> cchar \<times> nat"
where
  "braced_digits digit add utf s ptr c =
    (if ptr < length s \<and> digit (rd s ptr) then
       let cc = rd s ptr; ptr = ptr + 1 in
       if c = 0 \<and> cc = 0x30 then braced_digits digit add utf s ptr c
       else
         let c = add c cc in
         if c > max_char utf then (True, c, ptr) else braced_digits digit add utf s ptr c
     else (False, c, ptr))"
  by pat_completeness auto
termination by (relation "measure (\<lambda>(digit, add, utf, s, ptr, c). length s - ptr)") auto

text \<open>What follows such a loop: the overflow, the closing brace, or the error for another byte.\<close>

definition close_brace ::
  "(byte \<Rightarrow> bool) \<Rightarrow> nat \<Rightarrow> bool \<Rightarrow> byte list \<Rightarrow> bool \<times> cchar \<times> nat \<Rightarrow> escape"
where
  "close_brace digit missing utf s r =
    (case r of (overflow, c, ptr) \<Rightarrow>
       if overflow then (0, c, skip_while digit s ptr, Some 34)
       else if rd s ptr = 0x7d then
         (0, c, ptr, if utf \<and> 0xd800 \<le> c \<and> c \<le> 0xdfff then Some 73 else None)
       else (0, c, ptr, Some missing))"

text \<open>A decimal number behind \<open>ptr\<close>, limited by the C type \<open>int\<close>: whether it overflows, its value
  and the position of its last digit.\<close>

function read_number :: "byte list \<Rightarrow> nat \<Rightarrow> int \<Rightarrow> bool \<times> int \<times> nat" where
  "read_number s ptr n =
    (if ptr + 1 < length s \<and> IS_DIGIT (rd s (ptr + 1)) then
       if n > (2 ^ 31 - 1) div 10 - 1 then (True, n, skip_while IS_DIGIT s (ptr + 1) - 1)
       else read_number s (ptr + 1) (n * 10 + (uint (rd s (ptr + 1)) - 0x30))
     else (False, n, ptr))"
  by pat_completeness auto
termination by (relation "measure (\<lambda>(s, ptr, n). length s - ptr)") auto

definition esc_u :: "bool \<Rightarrow> byte list \<Rightarrow> nat \<Rightarrow> 32 word \<Rightarrow> escape" where
  "esc_u utf s ptr options =
    (if has options PCRE_JAVASCRIPT then
       if is_xdigit (rd s (ptr + 1)) \<and> is_xdigit (rd s (ptr + 2)) \<and> is_xdigit (rd s (ptr + 3)) \<and>
          is_xdigit (rd s (ptr + 4)) then
         let (c, ptr) = fixed_digits add_hex s ptr 4 0 in
         (0, c, ptr, if c > max_char utf then Some 76
                     else if utf \<and> 0xd800 \<le> c \<and> c \<le> 0xdfff then Some 73 else None)
       else (0, 0x75, ptr, None)
     else (0, 0x75, ptr, Some 37))"

definition esc_g :: "byte list \<Rightarrow> nat \<Rightarrow> int \<Rightarrow> bool \<Rightarrow> escape" where
  "esc_g s ptr bracount isclass =
    (let c = 0x67 in
     if isclass then (0, c, ptr, None)
     else if rd s (ptr + 1) = 0x3c \<or> rd s (ptr + 1) = 0x27 then (ESC_g, c, ptr, None)
     else
       let braced = (rd s (ptr + 1) = 0x7b);
           p = skip_while (\<lambda>b. b = 0x2d \<or> IS_DIGIT b) s (ptr + 2) in
       if braced \<and> rd s p \<noteq> 0 \<and> rd s p \<noteq> 0x7d then (ESC_k, c, ptr, None)
       else
         let ptr = (if braced then ptr + 1 else ptr);
             negated = (rd s (ptr + 1) = 0x2d);
             ptr = (if negated then ptr + 1 else ptr);
             (overflow, n, ptr) = read_number s ptr 0 in
         if overflow then (0, c, ptr, Some 61)
         else
           let ptr = (if braced then ptr + 1 else ptr) in
           if braced \<and> rd s ptr \<noteq> 0x7d then (0, c, ptr, Some 57)
           else if n = 0 then (0, c, ptr, Some 58)
           else if negated \<and> n > bracount then (0, c, ptr, Some 15)
           else (- (if negated then bracount - (n - 1) else n), c, ptr, None))"

text \<open>An octal number whose first digit is at \<open>ptr\<close>.\<close>

definition esc_octal :: "bool \<Rightarrow> byte list \<Rightarrow> nat \<Rightarrow> cchar \<Rightarrow> escape" where
  "esc_octal utf s ptr c =
    (let (c, ptr) = upto_digits is_octal add_octal s ptr 2 (c - 0x30) in
     (0, c, ptr, if \<not> utf \<and> c > 0xff then Some 51 else None))"

definition esc_digit :: "bool \<Rightarrow> byte list \<Rightarrow> nat \<Rightarrow> cchar \<Rightarrow> int \<Rightarrow> bool \<Rightarrow> escape" where
  "esc_digit utf s ptr c bracount isclass =
    (let literal = (if unat (rd s ptr) \<ge> 0x38 then (0, unat (rd s ptr), ptr, None)
                    else esc_octal utf s ptr (unat (rd s ptr))) in
     if isclass then literal
     else
       let (overflow, n, p) = read_number s ptr (int c - 0x30) in
       if overflow then (0, c, p, Some 61)
       else if n < 8 \<or> n \<le> bracount then (- n, c, p, None)
       else literal)"

definition esc_o :: "bool \<Rightarrow> byte list \<Rightarrow> nat \<Rightarrow> escape" where
  "esc_o utf s ptr =
    (if rd s (ptr + 1) \<noteq> 0x7b then (0, 0x6f, ptr, Some 81)
     else if rd s (ptr + 2) = 0x7d then (0, 0x6f, ptr, Some 86)
     else close_brace is_octal 80 utf s (braced_digits is_octal add_octal utf s (ptr + 2) 0))"

definition esc_x :: "bool \<Rightarrow> byte list \<Rightarrow> nat \<Rightarrow> 32 word \<Rightarrow> escape" where
  "esc_x utf s ptr options =
    (if has options PCRE_JAVASCRIPT then
       if is_xdigit (rd s (ptr + 1)) \<and> is_xdigit (rd s (ptr + 2)) then
         let (c, ptr) = fixed_digits add_hex s ptr 2 0 in (0, c, ptr, None)
       else (0, 0x78, ptr, None)
     else if rd s (ptr + 1) = 0x7b then
       if rd s (ptr + 2) = 0x7d then (0, 0x78, ptr + 2, Some 86)
       else close_brace is_xdigit 79 utf s (braced_digits is_xdigit add_hex utf s (ptr + 2) 0)
     else
       let (c, ptr) = upto_digits is_xdigit add_hex s ptr 2 0 in (0, c, ptr, None))"

definition esc_c :: "byte list \<Rightarrow> nat \<Rightarrow> escape" where
  "esc_c s ptr =
    (let ptr = ptr + 1; c = unat (rd s ptr) in
     if c = 0 then (0, c, ptr, Some 2)
     else if c > 127 then (0, c, ptr, Some 68)
     else (0, (if 0x61 \<le> c \<and> c \<le> 0x7a then c - 32 else c) XOR 0x40, ptr, None))"

text \<open>The switch over the letters and digits that the table leaves open.\<close>

definition esc_other :: "bool \<Rightarrow> byte list \<Rightarrow> nat \<Rightarrow> cchar \<Rightarrow> int \<Rightarrow> 32 word \<Rightarrow> bool \<Rightarrow> escape" where
  "esc_other utf s ptr c bracount options isclass =
    (if c = 0x6c \<or> c = 0x4c then (0, c, ptr, Some 37)
     else if c = 0x75 then esc_u utf s ptr options
     else if c = 0x55 then (0, c, ptr, if has options PCRE_JAVASCRIPT then None else Some 37)
     else if c = 0x67 then esc_g s ptr bracount isclass
     else if 0x31 \<le> c \<and> c \<le> 0x39 then esc_digit utf s ptr c bracount isclass
     else if c = 0x30 then esc_octal utf s ptr c
     else if c = 0x6f then esc_o utf s ptr
     else if c = 0x78 then esc_x utf s ptr options
     else if c = 0x63 then esc_c s ptr
     else (0, c, ptr, if has options PCRE_EXTRA then Some 3 else None))"

definition check_escape :: "byte list \<Rightarrow> nat \<Rightarrow> int \<Rightarrow> 32 word \<Rightarrow> bool \<Rightarrow> escape" where
  "check_escape s ptr bracount options isclass =
    (let utf = has options PCRE_UTF;
         (c, ptr) = getcharinctest utf s (ptr + 1); ptr = ptr - 1;
         (escape, c, ptr, err) =
           (if c = 0 then (0, c, ptr, Some 1)
            else if c < 0x30 \<or> c > 0x7a then (0, c, ptr, None)
            else
              let i = escapes ! (c - 0x30) in
              if i > 0 then (0, nat i, ptr, None)
              else if i < 0 then (- i, c, ptr, None)
              else esc_other utf s ptr c bracount options isclass);
         err = (if escape = ESC_N \<and> rd s (ptr + 1) = 0x7b \<and> \<not> is_counted_repeat s (ptr + 2)
                then Some 37 else err);
         escape = (if has options PCRE_USE_UCP \<and> ESC_D \<le> escape \<and> escape \<le> ESC_w
                   then escape + (ESC_DU - ESC_D) else escape) in
     (escape, c, ptr, err))"

subsection \<open>POSIX classes\<close>

text \<open>The loop behind \<open>[:\<close>, \<open>[.\<close> or \<open>[=\<close>: the position of the closing sequence.\<close>

function posix_end :: "byte \<Rightarrow> byte list \<Rightarrow> nat \<Rightarrow> nat option" where
  "posix_end terminator s ptr =
    (if ptr < length s \<and> rd s ptr \<noteq> 0 then
       if rd s ptr = 0x5c \<and> (rd s (ptr + 1) = 0x5d \<or> rd s (ptr + 1) = 0x5c)
       then posix_end terminator s (ptr + 2)
       else if rd s ptr = 0x5b \<and> rd s (ptr + 1) = terminator \<or> rd s ptr = 0x5d then None
       else if rd s ptr = terminator \<and> rd s (ptr + 1) = 0x5d then Some ptr
       else posix_end terminator s (ptr + 1)
     else None)"
  by pat_completeness auto
termination by (relation "measure (\<lambda>(t, s, ptr). length s - ptr)") auto

definition check_posix_syntax :: "byte list \<Rightarrow> nat \<Rightarrow> nat option" where
  "check_posix_syntax s ptr = posix_end (rd s (ptr + 1)) s (ptr + 2)"

definition posix_names :: "string list" where
  "posix_names = [''alpha'', ''lower'', ''upper'', ''alnum'', ''ascii'', ''blank'', ''cntrl'',
     ''digit'', ''graph'', ''print'', ''punct'', ''space'', ''word'', ''xdigit'']"

definition posix_name_lengths :: "nat list" where
  "posix_name_lengths = [5, 5, 5, 5, 5, 5, 5, 5, 5, 5, 5, 5, 4, 6]"

text \<open>The names stand in one string, each with a zero behind it; \<open>pn\<close> moves along with \<open>yield\<close>.\<close>

definition posix_bytes :: "byte list" where
  "posix_bytes = concat (map (\<lambda>n. bytes_of n @ [0]) posix_names)"

fun posix_name_from :: "byte list \<Rightarrow> nat \<Rightarrow> nat \<Rightarrow> nat list \<Rightarrow> nat \<Rightarrow> nat \<Rightarrow> int" where
  "posix_name_from s ptr len [] pn yield = -1"
| "posix_name_from s ptr len (l # ls) pn yield =
    (if len = l \<and> map (rd s) [ptr..<ptr + len] = map (rd posix_bytes) [pn..<pn + len] then int yield
     else posix_name_from s ptr len ls (pn + l + 1) (yield + 1))"

definition check_posix_name :: "byte list \<Rightarrow> nat \<Rightarrow> nat \<Rightarrow> int" where
  "check_posix_name s ptr len = posix_name_from s ptr len posix_name_lengths 0 0"

subsection \<open>Scanning, on lists\<close>

declare skip_while.simps [simp del] read_count.simps [simp del] braced_digits.simps [simp del]
  read_number.simps [simp del] posix_end.simps [simp del]

lemma skip_while_takeWhile: "skip_while P s p = p + length (takeWhile P (drop p s))"
proof (induction P s p rule: skip_while.induct)
  case (1 P s p)
  show ?case
  proof (cases "p < length s \<and> P (rd s p)")
    case True
    with 1 show ?thesis by (subst skip_while.simps) (simp add: drop_eq_Cons_rd)
  next
    case False
    then show ?thesis by (subst skip_while.simps) (cases "p < length s"; simp add: drop_eq_Cons_rd)
  qed
qed

lemma rd_at: "rd s p = rd (drop p s) 0"
  by (simp add: rd_drop)

lemma drop_add: "drop p s = ds @ r \<Longrightarrow> drop (p + length ds) s = r"
  by (metis add.commute append_eq_conv_conj drop_drop)

lemma takeWhile_digits:
  "list_all P ds \<Longrightarrow> \<not> P x \<Longrightarrow> takeWhile P (ds @ x # r) = ds"
  by (induction ds) auto

lemma skip_digits:
  assumes "drop p s = ds @ x # r" "list_all P ds" "\<not> P x"
  shows "skip_while P s p = p + length ds" "drop (skip_while P s p) s = x # r"
    "rd s (skip_while P s p) = x"
  using assms drop_add [OF assms(1)] takeWhile_digits [of P ds x r]
  by (simp_all add: skip_while_takeWhile rd_at [of s])

text \<open>Conversely the bytes that a scan passes, and what it stops at.\<close>

lemma skip_while_stop:
  obtains ds where "list_all P ds" "drop p s = ds @ drop (skip_while P s p) s"
    "skip_while P s p = p + length ds" "skip_while P s p < length s \<Longrightarrow> \<not> P (rd s (skip_while P s p))"
proof -
  let ?ds = "takeWhile P (drop p s)"
  have d: "drop p s = ?ds @ dropWhile P (drop p s)" by simp
  have e: "drop (skip_while P s p) s = dropWhile P (drop p s)"
    unfolding skip_while_takeWhile by (rule drop_add) simp
  have "\<not> P (rd s (skip_while P s p))" if "skip_while P s p < length s"
    using e that by (metis drop_eq_Cons_rd hd_dropWhile list.discI list.sel(1))
  then show ?thesis
    using d e by (intro that [of ?ds]) (auto simp: skip_while_takeWhile list_all_iff dest: set_takeWhileD)
qed

lemma IS_DIGIT_values: "IS_DIGIT x \<longleftrightarrow> 0x30 \<le> unat x \<and> unat x \<le> 0x39"
  by (simp add: IS_DIGIT_def word_le_nat_alt)

lemma not_digits [simp]:
  "\<not> IS_DIGIT 0" "\<not> IS_DIGIT 0x2c" "\<not> IS_DIGIT 0x7d" "\<not> IS_DIGIT 0x2d"
  by (simp_all add: IS_DIGIT_values)

lemma drop_at:
  assumes "rd s p \<noteq> 0"
  shows "p < length s" "drop p s = rd s p # drop (Suc p) s"
  using assms by (auto simp: rd_def Cons_nth_drop_Suc split: if_splits)

subsection \<open>Repeat counts\<close>

definition digits :: "byte list \<Rightarrow> bool" where
  "digits ds \<longleftrightarrow> list_all IS_DIGIT ds"

definition decimal :: "byte list \<Rightarrow> int" where
  "decimal = foldl (\<lambda>n d. n * 10 + (uint d - 0x30)) 0"

lemma digit_value: "IS_DIGIT d \<Longrightarrow> 0 \<le> uint d - 0x30"
  by (simp add: IS_DIGIT_def word_le_def)

lemma foldl_decimal_ge: "digits ds \<Longrightarrow> 0 \<le> n \<Longrightarrow> n \<le> foldl (\<lambda>n d. n * 10 + (uint d - 0x30)) n ds"
proof (induction ds arbitrary: n)
  case (Cons d ds)
  have "0 \<le> uint d - 0x30" using Cons.prems(1) by (intro digit_value) (simp add: digits_def)
  with Cons.prems have "n \<le> n * 10 + (uint d - 0x30)" by linarith
  moreover have "n * 10 + (uint d - 0x30) \<le> foldl (\<lambda>n d. n * 10 + (uint d - 0x30)) (n * 10 + (uint d - 0x30)) ds"
    by (rule Cons.IH) (use Cons.prems calculation in \<open>simp_all add: digits_def\<close>)
  ultimately show ?case by simp
qed simp

lemma read_count_value:
  assumes "drop p s = ds @ x # r" "digits ds" "\<not> IS_DIGIT x" "0 \<le> n" "n \<le> 65535"
  shows "let m = foldl (\<lambda>n d. n * 10 + (uint d - 0x30)) n ds in
    if m \<le> 65535 then read_count s p n = (p + length ds, Some m) else snd (read_count s p n) = None"
  using assms
proof (induction ds arbitrary: p n)
  case Nil
  then have "\<not> IS_DIGIT (rd s p)" by (simp add: rd_at [of s])
  then show ?case using Nil by (subst (1 2) read_count.simps) simp
next
  case (Cons d ds)
  from Cons.prems(1) have d: "rd s p = d" "p < length s" and next_p: "drop (p + 1) s = ds @ x # r"
    by (auto simp: rd_at [of s] drop_eq_Cons_rd intro: ccontr)
      (metis drop_Suc drop_Suc_Cons list.sel(3) tl_drop)
  have dig: "IS_DIGIT d" "digits ds" using Cons.prems(2) by (simp_all add: digits_def)
  let ?n = "n * 10 + (uint d - 0x30)"
  have "0 \<le> uint d - 0x30" using dig(1) by (rule digit_value)
  with Cons.prems have n: "0 \<le> ?n" by linarith
  have step: "read_count s p n = (if ?n > 65535 then (p + 1, None) else read_count s (p + 1) ?n)"
    using d dig by (subst read_count.simps) (simp add: Let_def)
  show ?case
  proof (cases "?n > 65535")
    case True
    with foldl_decimal_ge [OF dig(2) n] show ?thesis by (simp add: step Let_def)
  next
    case False
    with Cons.IH [OF next_p dig(2) Cons.prems(3) n] show ?thesis
      by (simp add: step Let_def split: if_splits)
  qed
qed

text \<open>What stands between the braces, and the value that the compiler should read from it.\<close>

definition repeat_value :: "byte list \<Rightarrow> byte list option \<Rightarrow> nat + int \<times> int" where
  "repeat_value ds es =
    (if decimal ds > 65535 then Inl 5
     else case es of
         None \<Rightarrow> Inr (decimal ds, decimal ds)
       | Some [] \<Rightarrow> Inr (decimal ds, -1)
       | Some (e # es) \<Rightarrow>
           if decimal (e # es) > 65535 then Inl 5
           else if decimal (e # es) < decimal ds then Inl 4
           else Inr (decimal ds, decimal (e # es)))"

definition repeat_text :: "byte list \<Rightarrow> byte list option \<Rightarrow> byte list" where
  "repeat_text ds es = ds @ (case es of None \<Rightarrow> [] | Some es \<Rightarrow> 0x2c # es)"

definition repeat_form :: "byte list \<Rightarrow> byte list option \<Rightarrow> bool" where
  "repeat_form ds es \<longleftrightarrow> ds \<noteq> [] \<and> digits ds \<and> (case es of None \<Rightarrow> True | Some es \<Rightarrow> digits es)"

lemma decimal_value:
  assumes "drop p s = ds @ x # r" "digits ds" "\<not> IS_DIGIT x"
  shows "if decimal ds \<le> 65535 then read_count s p 0 = (p + length ds, Some (decimal ds))
    else snd (read_count s p 0) = None"
  using read_count_value [OF assms, of 0] by (simp add: decimal_def Let_def)

lemma read_repeat_counts_text:
  assumes "drop p s = repeat_text ds es @ 0x7d # rest" "repeat_form ds es"
  shows "snd (read_repeat_counts s p) = repeat_value ds es \<and>
    (repeat_value ds es \<noteq> Inl 4 \<and> repeat_value ds es \<noteq> Inl 5 \<longrightarrow>
      fst (read_repeat_counts s p) = p + length (repeat_text ds es))"
proof (cases "decimal ds > 65535")
  case True
  obtain x r where "drop p s = ds @ x # r" "\<not> IS_DIGIT x"
    using assms(1) by (cases es) (auto simp: repeat_text_def)
  from decimal_value [OF this(1) _ this(2)] True assms(2)
  have "snd (read_count s p 0) = None" by (simp add: repeat_form_def)
  with True show ?thesis
    by (cases "read_count s p 0") (simp add: read_repeat_counts_def repeat_value_def)
next
  case small: False
  show ?thesis
  proof (cases es)
    case None
    with assms have d: "drop p s = ds @ 0x7d # rest" and dg: "digits ds"
      by (simp_all add: repeat_text_def repeat_form_def)
    with decimal_value [OF d dg] small have "read_count s p 0 = (p + length ds, Some (decimal ds))"
      by simp
    moreover have "rd s (p + length ds) = 0x7d" using drop_add [OF d] by (simp add: rd_at [of s])
    ultimately show ?thesis using small None
      by (simp add: read_repeat_counts_def repeat_value_def repeat_text_def)
  next
    case (Some fs)
    with assms have d: "drop p s = ds @ 0x2c # fs @ 0x7d # rest" and dg: "digits ds" "digits fs"
      by (simp_all add: repeat_text_def repeat_form_def)
    have r1: "read_count s p 0 = (p + length ds, Some (decimal ds))"
      using decimal_value [OF d dg(1)] small by simp
    have comma: "rd s (p + length ds) = 0x2c" using drop_add [OF d] by (simp add: rd_at [of s])
    have d2: "drop (p + length ds + 1) s = fs @ 0x7d # rest"
      using drop_add [of p s "ds @ [0x2c]"] d by simp
    show ?thesis
    proof (cases fs)
      case Nil
      then have "rd s (p + length ds + 1) = 0x7d" using d2 by (simp add: rd_at [of s])
      with r1 comma small Some Nil show ?thesis
        by (simp add: read_repeat_counts_def repeat_value_def repeat_text_def)
    next
      case (Cons f gs)
      have "IS_DIGIT f" using dg(2) Cons by (simp add: digits_def)
      then have nb: "rd s (p + length ds + 1) \<noteq> 0x7d"
        using d2 Cons by (auto simp: rd_at [of s])
      from decimal_value [OF d2 dg(2)] r1 comma small Some Cons nb show ?thesis
        by (cases "read_count s (p + length ds + 1) 0")
          (auto simp: read_repeat_counts_def repeat_value_def repeat_text_def split: if_splits)
    qed
  qed
qed

lemma is_counted_repeat_text:
  assumes "drop p s = repeat_text ds es @ 0x7d # rest" "repeat_form ds es"
  shows "is_counted_repeat s p"
proof -
  obtain d ds' where ds: "ds = d # ds'" using assms(2) by (cases ds) (auto simp: repeat_form_def)
  with assms have d: "IS_DIGIT d" "digits ds'" by (simp_all add: repeat_form_def digits_def)
  have first: "rd s p = d" "drop (p + 1) s = tl (repeat_text ds es) @ 0x7d # rest"
    using assms(1) drop_add [of p s "[d]"] by (simp_all add: ds repeat_text_def rd_at [of s])
  show ?thesis
  proof (cases es)
    case None
    with first have n: "drop (p + 1) s = ds' @ 0x7d # rest" by (simp add: repeat_text_def ds)
    from skip_digits(3) [OF n] d first(1) show ?thesis
      by (simp add: is_counted_repeat_def Let_def digits_def)
  next
    case (Some fs)
    with first have n: "drop (p + 1) s = ds' @ 0x2c # fs @ 0x7d # rest" by (simp add: repeat_text_def ds)
    note sk = skip_digits [OF n, of IS_DIGIT]
    let ?q = "skip_while IS_DIGIT s (p + 1)"
    have q: "rd s ?q = 0x2c" "drop ?q s = 0x2c # fs @ 0x7d # rest" using sk d by (simp_all add: digits_def)
    have n2: "drop (?q + 1) s = fs @ 0x7d # rest" using drop_add [of ?q s "[0x2c]"] q(2) by simp
    show ?thesis
    proof (cases fs)
      case Nil
      then have "rd s (?q + 1) = 0x7d" using n2 by (simp add: rd_at [of s])
      with q d first(1) show ?thesis by (simp add: is_counted_repeat_def Let_def)
    next
      case (Cons f gs)
      have f: "IS_DIGIT f" "digits gs" using assms(2) Some Cons by (simp_all add: repeat_form_def digits_def)
      have r: "rd s (?q + 1) = f" and n3: "drop (?q + 1 + 1) s = gs @ 0x7d # rest"
        using n2 drop_add [of "?q + 1" s "[f]"] by (simp_all add: Cons rd_at [of s])
      from skip_digits(3) [OF n3] f have "rd s (skip_while IS_DIGIT s (?q + 1 + 1)) = 0x7d"
        by (simp add: digits_def)
      with q d first(1) f(1) r show ?thesis by (simp add: is_counted_repeat_def Let_def)
    qed
  qed
qed

lemma counted_repeat_text:
  assumes "is_counted_repeat s p"
  shows "\<exists>ds es rest. repeat_form ds es \<and> drop p s = repeat_text ds es @ 0x7d # rest"
proof -
  let ?q = "skip_while IS_DIGIT s (p + 1)"
  have d: "IS_DIGIT (rd s p)" using assms by (simp add: is_counted_repeat_def split: if_splits)
  then have "rd s p \<noteq> 0" by auto
  note p = drop_at [OF this]
  obtain ds where ds: "list_all IS_DIGIT ds" "drop (p + 1) s = ds @ drop ?q s" by (rule skip_while_stop)
  from d ds p have all: "drop p s = (rd s p # ds) @ drop ?q s" "digits (rd s p # ds)"
    by (simp_all add: digits_def)
  have "rd s ?q = 0x7d \<or> rd s ?q = 0x2c"
    using assms d by (auto simp: is_counted_repeat_def Let_def split: if_splits)
  then show ?thesis
  proof
    assume q: "rd s ?q = 0x7d"
    with drop_at [of s ?q] all show ?thesis
      by (intro exI [of _ "rd s p # ds"] exI [of _ None] exI [of _ "drop (Suc ?q) s"]) (simp add: repeat_form_def repeat_text_def)
  next
    assume q: "rd s ?q = 0x2c"
    then have q': "drop ?q s = 0x2c # drop (?q + 1) s" using drop_at [of s ?q] by simp
    show ?thesis
    proof (cases "rd s (?q + 1) = 0x7d")
      case True
      with drop_at [of s "?q + 1"] all q' show ?thesis
        by (intro exI [of _ "rd s p # ds"] exI [of _ "Some []"] exI [of _ "drop (Suc (?q + 1)) s"])
          (simp add: repeat_form_def repeat_text_def digits_def)
    next
      case False
      let ?r = "skip_while IS_DIGIT s (?q + 1 + 1)"
      have e: "IS_DIGIT (rd s (?q + 1))" "rd s ?r = 0x7d"
        using assms d q False by (auto simp: is_counted_repeat_def Let_def split: if_splits)
      then have "rd s (?q + 1) \<noteq> 0" by auto
      note q1 = drop_at [OF this]
      obtain es where es: "list_all IS_DIGIT es" "drop (?q + 1 + 1) s = es @ drop ?r s"
        by (rule skip_while_stop)
      have "drop (?q + 1) s = (rd s (?q + 1) # es) @ 0x7d # drop (Suc ?r) s"
        using q1 es(2) drop_at [of s ?r] e(2) by simp
      with all q' e(1) es(1) show ?thesis
        by (intro exI [of _ "rd s p # ds"] exI [of _ "Some (rd s (?q + 1) # es)"]
            exI [of _ "drop (Suc ?r) s"])
          (simp add: repeat_form_def repeat_text_def digits_def)
    qed
  qed
qed

subsection \<open>Numerals in braces\<close>

definition hex_digit_value :: "byte \<Rightarrow> nat" where
  "hex_digit_value b =
    (if unat b \<le> 0x39 then unat b - 0x30 else if unat b \<le> 0x46 then unat b - 0x37 else unat b - 0x57)"

definition hex_value :: "byte list \<Rightarrow> nat" where
  "hex_value = foldl (\<lambda>v b. v * 16 + hex_digit_value b) 0"

lemma is_xdigit_iff:
  "is_xdigit b \<longleftrightarrow> unat b \<in> {0x30..0x39} \<or> unat b \<in> {0x41..0x46} \<or> unat b \<in> {0x61..0x66}"
proof -
  have "is_xdigit b = (unat b \<in> {0x30..0x39} \<or> unat b \<in> {0x41..0x46} \<or> unat b \<in> {0x61..0x66})"
    by (rule byte_cases_all [of "\<lambda>b. is_xdigit b = (unat b \<in> {0x30..0x39} \<or> unat b \<in> {0x41..0x46} \<or> unat b \<in> {0x61..0x66})"])
      code_simp
  then show ?thesis .
qed

lemma add_hex_value: "is_xdigit b \<Longrightarrow> add_hex c b = c * 16 + hex_digit_value b"
  by (auto simp: is_xdigit_iff add_hex_def hex_digit_value_def Let_def)

lemma not_xdigits [simp]: "\<not> is_xdigit 0" "\<not> is_xdigit 0x7d" "\<not> is_xdigit 0x7b"
  by (simp_all add: is_xdigit_iff)

lemma foldl_hex_ge: "c \<le> foldl (\<lambda>v b. v * 16 + hex_digit_value b) c ds"
proof (induction ds arbitrary: c)
  case (Cons d ds)
  from order_trans [OF _ Cons [of "c * 16 + hex_digit_value d"], of c] show ?case by simp
qed simp

lemma braced_hex:
  assumes "drop ptr s = ds @ 0x7d # rest" "list_all is_xdigit ds" "c \<le> max_char utf"
  shows "let v = foldl (\<lambda>v b. v * 16 + hex_digit_value b) c ds in
    if v \<le> max_char utf then braced_digits is_xdigit add_hex utf s ptr c = (False, v, ptr + length ds)
    else fst (braced_digits is_xdigit add_hex utf s ptr c)"
  using assms
proof (induction ds arbitrary: ptr c)
  case Nil
  then have "\<not> is_xdigit (rd s ptr)" by (simp add: rd_at [of s])
  then show ?case using Nil by (subst (1 2) braced_digits.simps) simp
next
  case (Cons d ds)
  from Cons.prems(1) have d: "rd s ptr = d" "ptr < length s" and nxt: "drop (ptr + 1) s = ds @ 0x7d # rest"
    using drop_add [of ptr s "[d]"] by (auto simp: rd_at [of s] intro: ccontr)
  have dig: "is_xdigit d" "list_all is_xdigit ds" using Cons.prems(2) by simp_all
  note h = add_hex_value [OF dig(1)]
  let ?c = "c * 16 + hex_digit_value d"
  have step: "braced_digits is_xdigit add_hex utf s ptr c =
    (if ?c > max_char utf then (True, ?c, ptr + 1) else braced_digits is_xdigit add_hex utf s (ptr + 1) ?c)"
    using d dig h by (subst braced_digits.simps) (auto simp: Let_def hex_digit_value_def)
  show ?case
  proof (cases "?c > max_char utf")
    case True
    with foldl_hex_ge [of ?c ds] show ?thesis by (simp add: step Let_def)
  next
    case False
    then have "?c \<le> max_char utf" by simp
    from Cons.IH [OF nxt dig(2) this] False show ?thesis
      by (simp add: step Let_def split: if_splits)
  qed
qed

subsection \<open>POSIX names\<close>

lemma posix_name_from_names:
  assumes "posix_bytes = pre @ concat (map (\<lambda>n. bytes_of n @ [0]) ns)"
  shows "posix_name_from s ptr len (map length ns) (length pre) yield =
    (let w = map (rd s) [ptr..<ptr + len]; names = map bytes_of ns in
     if w \<in> set names then int (yield + length (takeWhile (\<lambda>n. n \<noteq> w) names)) else -1)"
  using assms
proof (induction ns arbitrary: pre yield)
  case (Cons n ns)
  let ?w = "map (rd s) [ptr..<ptr + len]"
  have IH: "posix_name_from s ptr len (map length ns) (length (pre @ bytes_of n @ [0])) (yield + 1) =
    (let names = map bytes_of ns in
     if ?w \<in> set names then int (yield + 1 + length (takeWhile (\<lambda>n. n \<noteq> ?w) names)) else -1)"
    using Cons.IH [of "pre @ bytes_of n @ [0]" "yield + 1"] Cons.prems by (simp add: Let_def)
  have "map (rd posix_bytes) [length pre..<length pre + length n] = bytes_of n"
    by (rule nth_equalityI) (simp_all add: Cons.prems rd_def nth_append)
  then have "len = length n \<and> ?w = map (rd posix_bytes) [length pre..<length pre + len] \<longleftrightarrow>
    ?w = bytes_of n"
    by (metis length_bytes_of length_map length_upt add_diff_cancel_left')
  with IH show ?case by (auto simp: Let_def)
qed simp

subsection \<open>Where an escape ends and what it gives\<close>

text \<open>The escape ends in the pattern, on one of its bytes unless there is an error, and a data
  character is one that the mode allows.\<close>

definition char_ok :: "bool \<Rightarrow> cchar \<Rightarrow> bool" where
  "char_ok utf c \<longleftrightarrow> (if utf then scalar c else c \<le> 0xff)"

definition escape_ok :: "bool \<Rightarrow> byte list \<Rightarrow> nat \<Rightarrow> escape \<Rightarrow> bool" where
  "escape_ok utf s ptr r \<longleftrightarrow>
    (case r of (e, c, q, err) \<Rightarrow>
       ptr \<le> q \<and> q \<le> length s \<and> (err = None \<longrightarrow> q < length s \<and> (e = 0 \<longrightarrow> char_ok utf c)))"

named_theorems escape_parts \<comment> \<open>positions and values that the loops of an escape end with\<close>

lemma small_char [simp]: "c \<le> 0xff \<Longrightarrow> char_ok utf c"
  by (simp add: char_ok_def scalar_def)

lemma max_char_ok: "c \<le> max_char utf \<Longrightarrow> \<not> (utf \<and> 0xd800 \<le> c \<and> c \<le> 0xdfff) \<Longrightarrow> char_ok utf c"
  by (auto simp: char_ok_def max_char_def scalar_def split: if_splits)

lemma skip_while_bounds: "p \<le> length s \<Longrightarrow> p \<le> skip_while P s p \<and> skip_while P s p \<le> length s"
  using length_takeWhile_le [of P "drop p s"] by (simp add: skip_while_takeWhile)

lemma rd_inside: "rd s p \<noteq> 0 \<Longrightarrow> p < length s"
  by (rule drop_at)

lemma unat_inside: "0 < unat (rd s p) \<Longrightarrow> p < length s"
  by (rule rd_inside) auto

lemma xdigit_inside: "is_xdigit (rd s p) \<Longrightarrow> p < length s"
  by (rule rd_inside) auto

lemma hex_digit_small: "is_xdigit b \<Longrightarrow> hex_digit_value b \<le> 15"
  by (auto simp: is_xdigit_iff hex_digit_value_def)

lemma read_number_bounds [escape_parts]:
  "read_number s ptr n = (overflow, m, q) \<Longrightarrow> ptr < length s \<Longrightarrow> ptr \<le> q \<and> q < length s"
proof (induction s ptr n arbitrary: rule: read_number.induct)
  case (1 s ptr n)
  show ?case
  proof (cases "ptr + 1 < length s \<and> IS_DIGIT (rd s (ptr + 1))")
    case True
    with 1 skip_while_bounds [of "ptr + 1" s IS_DIGIT] show ?thesis
      by (subst (asm) (2) read_number.simps) (auto split: if_splits)
  next
    case False
    with 1(2,3) show ?thesis by (subst (asm) read_number.simps) auto
  qed
qed

lemma upto_digits_bounds:
  assumes "upto_digits digit add s ptr n c = (c', q)" "ptr < length s" "\<not> digit 0"
    and "\<And>c b. digit b \<Longrightarrow> add c b < (c + 1) * B" "0 < B"
  shows "ptr \<le> q \<and> q < length s \<and> c' < (c + 1) * B ^ n"
  using assms(1,2)
proof (induction n arbitrary: ptr c)
  case (Suc n)
  show ?case
  proof (cases "digit (rd s (ptr + 1))")
    case True
    then have "ptr + 1 < length s" using assms(3) by (metis rd_inside)
    with Suc True have *: "ptr + 1 \<le> q \<and> q < length s \<and> c' < (add c (rd s (ptr + 1)) + 1) * B ^ n"
      by simp
    moreover have "(add c (rd s (ptr + 1)) + 1) * B ^ n \<le> ((c + 1) * B) * B ^ n"
      using assms(4) [OF True, of c] by (intro mult_right_mono) simp_all
    ultimately show ?thesis by (simp add: algebra_simps)
  next
    case False
    have "1 \<le> B ^ Suc n" using assms(5) by simp
    from mult_le_mono2 [OF this, of "c + 1"] have "c < (c + 1) * B ^ Suc n"
      by (rule less_le_trans [rotated]) simp
    moreover have "c' = c" "q = ptr" using False Suc.prems(1) by simp_all
    ultimately show ?thesis using Suc.prems(2) by blast
  qed
qed simp

lemma octal_digits [escape_parts]:
  assumes "upto_digits is_octal add_octal s ptr 2 c = (c', q)" "ptr < length s" "c \<le> 7"
  shows "ptr \<le> q \<and> q < length s \<and> c' < 512"
proof -
  have "ptr \<le> q \<and> q < length s \<and> c' < (c + 1) * 8 ^ 2"
    by (rule upto_digits_bounds [OF assms(1,2)])
      (auto simp: is_octal_def add_octal_def word_le_nat_alt)
  with assms(3) show ?thesis by simp
qed

lemma hex_digits [escape_parts]:
  assumes "upto_digits is_xdigit add_hex s ptr 2 0 = (c', q)" "ptr < length s"
  shows "ptr \<le> q \<and> q < length s \<and> c' \<le> 255"
proof -
  have "add_hex c b < (c + 1) * 16" if "is_xdigit b" for c b
    using hex_digit_small [OF that] by (simp add: add_hex_value [OF that])
  with upto_digits_bounds [OF assms, of 16] have "ptr \<le> q \<and> q < length s \<and> c' < (0 + 1) * 16 ^ 2"
    by simp
  then show ?thesis by simp
qed

lemma fixed_two [escape_parts]:
  assumes "fixed_digits add_hex s ptr 2 0 = (c, q)" "is_xdigit (rd s (ptr + 1))" "is_xdigit (rd s (ptr + 2))"
  shows "ptr \<le> q \<and> q < length s \<and> c \<le> 255"
proof -
  have "fixed_digits add_hex s ptr 2 0 = (add_hex (add_hex 0 (rd s (ptr + 1))) (rd s (ptr + 2)), ptr + 2)"
    by (simp add: numeral_2_eq_2)
  from trans [OF assms(1) [symmetric] this]
  have cq: "c = add_hex (add_hex 0 (rd s (ptr + 1))) (rd s (ptr + 2))" "q = ptr + 2"
    by (simp_all only: prod.inject)
  have "c = hex_digit_value (rd s (ptr + 1)) * 16 + hex_digit_value (rd s (ptr + 2))"
    by (simp only: cq add_hex_value [OF assms(2)] add_hex_value [OF assms(3)]) simp
  then show ?thesis
    using hex_digit_small [OF assms(2)] hex_digit_small [OF assms(3)] xdigit_inside [OF assms(3)] cq(2)
    by simp
qed

lemma fixed_four [escape_parts]:
  assumes "fixed_digits add_hex s ptr 4 0 = (c, q)" "is_xdigit (rd s (ptr + 4))"
  shows "ptr \<le> q \<and> q < length s"
proof -
  have "snd (fixed_digits add_hex s ptr n c) = ptr + n" for n c
    by (induction n arbitrary: ptr c) simp_all
  from this [of 4 0] assms(1) xdigit_inside [OF assms(2)] show ?thesis by simp
qed

lemma braced_digits_bounds:
  "braced_digits digit add utf s ptr c = (overflow, v, q) \<Longrightarrow> ptr \<le> length s \<Longrightarrow> c \<le> max_char utf \<Longrightarrow>
    ptr \<le> q \<and> q \<le> length s \<and> (\<not> overflow \<longrightarrow> v \<le> max_char utf)"
proof (induction digit add utf s ptr c rule: braced_digits.induct)
  case (1 digit add utf s ptr c)
  show ?case
  proof (cases "ptr < length s \<and> digit (rd s ptr)")
    case True
    let ?c = "add c (rd s ptr)"
    consider "c = 0 \<and> rd s ptr = 0x30" | "\<not> (c = 0 \<and> rd s ptr = 0x30)" "?c > max_char utf"
      | "\<not> (c = 0 \<and> rd s ptr = 0x30)" "\<not> ?c > max_char utf" by blast
    then show ?thesis
    proof cases
      case 1
      with True have "braced_digits digit add utf s ptr c = braced_digits digit add utf s (ptr + 1) c"
        by (subst braced_digits.simps) simp
      with "1.IH"(1) [OF True refl refl 1] "1.prems" True show ?thesis by simp
    next
      case 2
      with True "1.prems" show ?thesis
        by (auto simp: Let_def braced_digits.simps [of digit add utf s ptr c])
    next
      case 3
      with True have "braced_digits digit add utf s ptr c = braced_digits digit add utf s (ptr + 1) ?c"
        by (subst braced_digits.simps) (auto simp: Let_def)
      with "1.IH"(2) [OF True refl refl 3(1) refl 3(2)] "1.prems" True 3(2) show ?thesis by simp
    qed
  next
    case False
    with "1.prems" show ?thesis by (auto simp: braced_digits.simps [of digit add utf s ptr c])
  qed
qed

lemma close_brace_ok:
  assumes "k \<le> length s" "ptr \<le> k"
  shows "escape_ok utf s ptr (close_brace digit missing utf s (braced_digits digit add utf s k 0))"
proof -
  obtain overflow v q where b: "braced_digits digit add utf s k 0 = (overflow, v, q)"
    by (metis prod.exhaust)
  note * = braced_digits_bounds [OF b assms(1)]
  have "q < length s" if "rd s q = 0x7d" using that by (intro rd_inside) simp
  with * skip_while_bounds [of q s digit] assms(2) show ?thesis
    by (auto simp: escape_ok_def close_brace_def b intro: max_char_ok)
qed

lemma esc_c_ok:
  assumes "ptr < length s"
  shows "escape_ok utf s ptr (esc_c s ptr)"
proof -
  have "list_all (\<lambda>c. c XOR 0x40 \<le> (0xff :: nat)) [0..<128]" by code_simp
  then have x: "c XOR 0x40 \<le> 0xff" if "c \<le> 127" for c :: nat
    using that by (auto simp: list_all_iff)
  show ?thesis
    using assms x [of "unat (rd s (ptr + 1))"] x [of "unat (rd s (ptr + 1)) - 32"] unat_inside [of s "ptr + 1"]
    by (auto simp: escape_ok_def esc_c_def Let_def)
qed

lemma esc_u_ok: "ptr < length s \<Longrightarrow> escape_ok utf s ptr (esc_u utf s ptr options)"
  by (auto simp: escape_ok_def esc_u_def intro: max_char_ok dest: fixed_four split: prod.splits)

lemma esc_g_ok:
  assumes "ptr < length s"
  shows "escape_ok utf s ptr (esc_g s ptr bracount isclass)"
proof -
  let ?p1 = "if rd s (ptr + 1) = 0x7b then ptr + 1 else ptr"
  let ?p2 = "if rd s (?p1 + 1) = 0x2d then ?p1 + 1 else ?p1"
  obtain overflow n q where r: "read_number s ?p2 0 = (overflow, n, q)" by (metis prod.exhaust)
  have p: "?p2 < length s" "ptr \<le> ?p2"
    using assms rd_inside [of s "ptr + 1"] rd_inside [of s "?p1 + 1"] by auto
  note q = read_number_bounds [OF r p(1)]
  have "q + 1 < length s" if "rd s (q + 1) = 0x7d" using that by (intro rd_inside) simp
  then show ?thesis
    using assms p q unfolding esc_g_def Let_def r case_prod_conv escape_ok_def by auto
qed

lemma esc_octal_ok:
  assumes "ptr < length s" "0x30 \<le> c" "c \<le> 0x37"
  shows "escape_ok utf s ptr (esc_octal utf s ptr c)"
  using assms by (auto simp: escape_ok_def esc_octal_def char_ok_def scalar_def split: prod.splits dest!: octal_digits)

lemma esc_digit_ok:
  assumes "ptr < length s" "0x30 < c" "c \<le> 0x39" "unat (rd s ptr) = c"
  shows "escape_ok utf s ptr (esc_digit utf s ptr c bracount isclass)"
  using assms esc_octal_ok [of ptr s c utf]
  by (auto simp: esc_digit_def Let_def escape_ok_def split: prod.splits dest: read_number_bounds)

lemma esc_o_ok:
  assumes "ptr < length s"
  shows "escape_ok utf s ptr (esc_o utf s ptr)"
proof -
  have "rd s (ptr + 1) = 0x7b \<Longrightarrow> ptr + 2 \<le> length s" using rd_inside [of s "ptr + 1"] by simp
  then show ?thesis using assms
    by (auto simp: esc_o_def intro!: close_brace_ok) (simp_all add: escape_ok_def)
qed

lemma esc_x_ok:
  assumes "ptr < length s"
  shows "escape_ok utf s ptr (esc_x utf s ptr options)"
proof -
  have "rd s (ptr + 1) = 0x7b \<Longrightarrow> ptr + 2 \<le> length s" using rd_inside [of s "ptr + 1"] by simp
  then show ?thesis using assms
    by (auto simp: esc_x_def intro!: close_brace_ok)
      (auto simp: escape_ok_def split: prod.splits dest: fixed_two hex_digits)
qed

lemma escapes_bound: "list_all (\<lambda>i. i \<le> 0x60) escapes"
  by (simp add: escapes_def)

lemma escape_ok_if:
  "(b \<Longrightarrow> escape_ok utf s ptr x) \<Longrightarrow> (\<not> b \<Longrightarrow> escape_ok utf s ptr y) \<Longrightarrow>
    escape_ok utf s ptr (if b then x else y)"
  by simp

lemma escape_ok_plain: "ptr < length s \<Longrightarrow> c \<le> 0xff \<Longrightarrow> escape_ok utf s ptr (e, c, ptr, err)"
  by (simp add: escape_ok_def)

lemma esc_other_ok:
  assumes "ptr < length s" "unat (rd s ptr) = c"
  shows "escape_ok utf s ptr (esc_other utf s ptr c bracount options isclass)"
proof -
  have "c < 256" using assms(2) unat_byte_less [of "rd s ptr"] by metis
  then have c: "c \<le> 0xff" by simp
  show ?thesis
    unfolding esc_other_def
    by (intro escape_ok_if escape_ok_plain esc_u_ok esc_g_ok esc_digit_ok esc_octal_ok esc_o_ok esc_x_ok esc_c_ok)
      (use assms c in linarith)+
qed

text \<open>The character behind the backslash: it stands at the start of a character of the string.\<close>

lemma ascii_boundary:
  assumes "list_all scalar cs" "s = utf8_chars cs" "unat (rd s p) < 0x80" "p + 1 < length s"
  obtains xs c ys where "cs = xs @ c # ys" "length (utf8_chars xs) = p + 1"
proof -
  from assms(4) obtain xs c ys j where l: "cs = xs @ c # ys" "j < length (ord2utf c)"
    "p + 1 = length (utf8_chars xs) + j" unfolding assms(2) by (rule utf8_chars_locate)
  have sc: "scalar c" using assms(1) l(1) by simp
  have s: "s = utf8_chars xs @ ord2utf c @ utf8_chars ys" by (simp add: assms(2) l(1) utf8_chars_append)
  note sh = utf8_chars_shape [OF sc, of xs "utf8_chars ys", folded s]
  have "j = 0"
  proof (rule ccontr)
    assume j: "j \<noteq> 0"
    have cont: "\<not> cont_byte (rd s p)" using assms(3) by (simp add: cont_byte_unat)
    show False
    proof (cases "j = 1")
      case True
      then have "p = length (utf8_chars xs)" using l(3) by simp
      with sh l(2) True have "char_shape s p (length (ord2utf c) - 1)" "0 < length (ord2utf c) - 1" by auto
      with assms(3) show False by (auto elim!: char_shape_cases)
    next
      case False
      then have "p = length (utf8_chars xs) + (j - 1)" "0 < j - 1" "j - 1 \<le> length (ord2utf c) - 1"
        using j l by auto
      with char_shape_cont [OF sh, of "j - 1"] cont show False by simp
    qed
  qed
  with l show ?thesis by (intro that) auto
qed

lemma unat_byte_le: "unat (b :: byte) \<le> 255"
  using unat_byte_less [of b] by linarith

lemma literal_ok:
  assumes "utf \<longrightarrow> valid_utf s (int (length s)) = (0, None)" "p < length s" "unat (rd s p) < 0x80"
    and "getcharinctest utf s (p + 1) = (c, q)" "c \<noteq> 0"
  shows "p + 1 < length s \<and> p + 2 \<le> q \<and> q \<le> length s \<and> char_ok utf c \<and>
    (c < 0x80 \<longrightarrow> unat (rd s (p + 1)) = c \<and> q = p + 2)"
proof -
  have in_s: "p + 1 < length s"
  proof (rule ccontr)
    assume "\<not> p + 1 < length s"
    then have "rd s (p + 1) = 0" by (simp add: rd_def)
    with assms(4,5) show False by (simp add: getcharinctest_def getcharlentest_def)
  qed
  with getcharinctest_bound [OF assms(1) _ assms(4)] have q: "p + 1 < q" "q \<le> length s" by simp_all
  have "char_ok utf c \<and> (c < 0x80 \<longrightarrow> unat (rd s (p + 1)) = c \<and> q = p + 2)"
  proof (cases utf)
    case False
    then have c: "c = unat (rd s (p + 1))" "q = p + 2"
      using assms(4) by (simp_all add: getcharinctest_def getcharlentest_def)
    show ?thesis using False c by (simp add: char_ok_def unat_byte_le)
  next
    case True
    with assms(1) obtain cs where cs: "list_all scalar cs" "s = utf8_chars cs" by (auto elim: valid_utf_accepts)
    from ascii_boundary [OF cs assms(3) in_s] obtain xs d ys where
      d: "cs = xs @ d # ys" "length (utf8_chars xs) = p + 1" by blast
    then have sd: "scalar d" using cs(1) by simp
    have s: "s = utf8_chars xs @ ord2utf d @ utf8_chars ys" by (simp add: cs(2) d(1) utf8_chars_append)
    with getcharlentest_ord2utf [OF scalar_less [OF sd], of "utf8_chars xs" "utf8_chars ys"] d(2)
    have "getcharlentest True s (p + 1) = (d, length (ord2utf d))" by simp
    with assms(4) True have c: "c = d" "q = p + 1 + length (ord2utf d)"
      by (auto simp: getcharinctest_def)
    have "unat (rd s (p + 1)) = c \<and> q = p + 2" if "c < 0x80"
    proof -
      have o: "ord2utf d = [to_byte d]"
        using that c scalar_less [OF sd] by (simp add: ord2utf_eq utf8_bytes_def)
      then have "rd s (p + 1) = to_byte d" unfolding s using d(2) by (simp add: rd_append2)
      with o c that show ?thesis by simp
    qed
    with c True sd show ?thesis by (simp add: char_ok_def)
  qed
  with in_s q show ?thesis by simp
qed

lemma table_char:
  assumes "getcharinctest utf s k = (c, q)" "c \<le> 0x7a"
  shows "c = unat (rd s k) \<and> q = k + 1 \<or> 0xc0 \<le> unat (rd s k)"
  using assms by (auto simp: getcharinctest_def getcharlentest_def Let_def split: if_splits)

subsection \<open>Properties\<close>

text \<open>C27: the test for a counted repeat accepts exactly the three forms of a quantifier in braces:
  a number, a number with a comma, and two numbers with a comma between them.\<close>

theorem is_counted_repeat_iff:
  "is_counted_repeat s p \<longleftrightarrow>
    (\<exists>ds es rest. repeat_form ds es \<and> drop p s = repeat_text ds es @ 0x7d # rest)"
  using is_counted_repeat_text counted_repeat_text by blast

text \<open>C28: on such a quantifier \<open>read_repeat_counts()\<close> gives the values of the decimal numerals, with
  -1 for an open end; numbers beyond 65535 are error 5 and a maximum below the minimum is error 4.
  Without an error it stops at the closing brace.\<close>

theorem read_repeat_counts_value:
  assumes "drop p s = repeat_text ds es @ 0x7d # rest" "repeat_form ds es"
  shows "snd (read_repeat_counts s p) = repeat_value ds es \<and>
    (repeat_value ds es \<noteq> Inl 4 \<and> repeat_value ds es \<noteq> Inl 5 \<longrightarrow>
      fst (read_repeat_counts s p) = p + length (repeat_text ds es))"
  using assms by (rule read_repeat_counts_text)

theorem read_repeat_counts_value_witness:
  "read_repeat_counts [0x61, 0x7b, 0x32, 0x2c, 0x31, 0x30, 0x7d] 2 = (6, Inr (2, 10))"
proof -
  have v: "repeat_value [0x32] (Some [0x31, 0x30]) = Inr (2, 10)"
    by (simp add: repeat_value_def decimal_def)
  have "snd (read_repeat_counts [0x61, 0x7b, 0x32, 0x2c, 0x31, 0x30, 0x7d] 2) = Inr (2, 10) \<and>
    fst (read_repeat_counts [0x61, 0x7b, 0x32, 0x2c, 0x31, 0x30, 0x7d] 2) = 6"
    using read_repeat_counts_value [of 2 "[0x61, 0x7b, 0x32, 0x2c, 0x31, 0x30, 0x7d]" "[0x32]"
        "Some [0x31, 0x30]" "[]"] v
    by (simp add: repeat_form_def repeat_text_def digits_def IS_DIGIT_def)
  then show ?thesis by (simp add: prod_eq_iff)
qed

text \<open>C26: \<open>check_escape()\<close> stays in the pattern: the position it returns is behind the backslash and
  at most the end of the pattern, and on a byte of the pattern when there is no error. A data
  character without an error is a scalar value in UTF mode, where the pattern has been checked,
  and fits in a byte otherwise.\<close>

theorem check_escape_in_pattern:
  assumes "if has options PCRE_UTF then valid_utf s (int (length s)) = (0, None) else True"
    and "p < length s" "rd s p = 0x5c"
    and "check_escape s p bracount options isclass = (e, c, q, err)"
  shows "p < q \<and> q \<le> length s \<and>
    (err = None \<longrightarrow> q < length s \<and> (e = 0 \<longrightarrow> char_ok (has options PCRE_UTF) c))"
proof -
  let ?utf = "has options PCRE_UTF"
  obtain d k where g: "getcharinctest ?utf s (p + 1) = (d, k)" by (metis prod.exhaust)
  define r where "r =
    (if d = 0 then (0, d, k - 1, Some 1)
     else if d < 0x30 \<or> d > 0x7a then (0, d, k - 1, None)
     else let i = escapes ! (d - 0x30) in
       if i > 0 then (0, nat i, k - 1, None)
       else if i < 0 then (- i, d, k - 1, None)
       else esc_other ?utf s (k - 1) d bracount options isclass)"
  have ok: "p < fst (snd (snd r)) \<and> fst (snd (snd r)) \<le> length s \<and> (snd (snd (snd r)) = None \<longrightarrow>
    fst (snd (snd r)) < length s \<and> (fst r = 0 \<longrightarrow> char_ok ?utf (fst (snd r))))"
  proof (cases "d = 0")
    case True
    have "p + 2 \<le> k"
      using g by (auto simp: getcharinctest_def getcharlentest_def Let_def split: prod.splits if_splits)
    moreover have "k - 1 \<le> length s"
    proof (cases "p + 1 < length s")
      case True
      then show ?thesis using getcharinctest_bound [of ?utf s "p + 1" d k] assms(1) g by auto
    next
      case False
      then have "rd s (p + 1) = 0" by (simp add: rd_def)
      with g assms(2) show ?thesis by (auto simp: getcharinctest_def getcharlentest_def)
    qed
    ultimately show ?thesis by (simp add: r_def True)
  next
    case False
    have "?utf \<longrightarrow> valid_utf s (int (length s)) = (0, None)" using assms(1) by simp
    note l = literal_ok [OF this assms(2) _ g False]
    have l: "p + 1 < length s" "p + 2 \<le> k" "k \<le> length s" "char_ok ?utf d"
      "d < 0x80 \<Longrightarrow> unat (rd s (p + 1)) = d \<and> k = p + 2" using l by (simp_all add: assms(3))
    show ?thesis
    proof (cases "d < 0x30 \<or> d > 0x7a")
      case True
      with False l show ?thesis by (auto simp: r_def)
    next
      case alpha: False
      then have d: "d - 0x30 < length escapes" "d < 0x80" by (auto simp: escapes_def)
      from l(5) [OF d(2)] have k: "unat (rd s (p + 1)) = d" "k = p + 2" by simp_all
      have i: "escapes ! (d - 0x30) \<le> 0x60" using escapes_bound d(1) by (simp add: list_all_length)
      have esc: "escape_ok ?utf s (p + 1) (esc_other ?utf s (p + 1) d bracount options isclass)"
        using l(1) k(1) by (rule esc_other_ok)
      show ?thesis
        using False alpha i l(1,4) esc k
        by (auto simp: r_def Let_def escape_ok_def split: prod.splits)
    qed
  qed
  show ?thesis
    using ok assms(4) unfolding check_escape_def Let_def g case_prod_conv r_def [unfolded Let_def, symmetric]
    by (cases r) (auto split: if_splits)
qed

theorem check_escape_in_pattern_witness:
  "check_escape [0x5c, 0x78, 0x34, 0x31] 0 0 0 False = (0, 0x41, 3, None)"
proof -
  have e: "check_escape [0x5c, 0x78, 0x34, 0x31] 0 0 0 False = (0, 0x41, 3, None)" by code_simp
  from check_escape_in_pattern [OF _ _ _ e] have "char_ok False 0x41" by (simp add: has_def)
  with e show ?thesis by simp
qed

text \<open>C29: an escape \<open>\\x{...}\<close> with hexadecimal digits gives the character with that number; a number
  beyond the largest character of the mode is error 34 and a surrogate in UTF mode is error 73.\<close>

theorem check_escape_hex_braces:
  assumes "drop p s = 0x5c # 0x78 # 0x7b # ds @ 0x7d # rest" "ds \<noteq> []" "list_all is_xdigit ds"
    and "\<not> has options PCRE_JAVASCRIPT"
  shows "let v = hex_value ds; utf = has options PCRE_UTF; r = check_escape s p bracount options isclass in
    if v > max_char utf then snd (snd (snd r)) = Some 34
    else r = (0, v, p + 3 + length ds, if utf \<and> 0xd800 \<le> v \<and> v \<le> 0xdfff then Some 73 else None)"
proof -
  let ?utf = "has options PCRE_UTF"
  have d1: "drop (p + 1) s = 0x78 # 0x7b # ds @ 0x7d # rest" using drop_add [of p s "[0x5c]"] assms(1) by simp
  have d2: "drop (p + 2) s = 0x7b # ds @ 0x7d # rest" using drop_add [of p s "[0x5c, 0x78]"] assms(1) by simp
  have d3: "drop (p + 3) s = ds @ 0x7d # rest" using drop_add [of p s "[0x5c, 0x78, 0x7b]"] assms(1)
    by (simp add: numeral_3_eq_3)
  have r: "rd s (p + 1) = 0x78" "rd s (p + 2) = 0x7b" using d1 d2 by (simp_all add: rd_at [of s])
  obtain d ds' where ds: "ds = d # ds'" using assms(2) by (cases ds) auto
  with assms(3) have "rd s (p + 3) \<noteq> 0x7d" using d3 by (auto simp: rd_at [of s])
  then have r3: "rd s (p + 1 + 2) \<noteq> 0x7d" by (simp add: numeral_3_eq_3)
  have r2: "rd s (p + 1 + 1) = 0x7b" using r(2) by simp
  have g: "getcharinctest ?utf s (p + 1) = (0x78, p + 2)"
    using r(1) by (simp add: getcharinctest_def getcharlentest_def)
  have e: "escapes ! (0x78 - 0x30) = 0" by (simp add: escapes_def)
  have len: "drop (p + 3 + length ds) s = 0x7d # rest" by (rule drop_add [OF d3])
  have close: "rd s (p + 3 + length ds) = 0x7d" using len by (simp add: rd_at [of s])
  have b: "if hex_value ds \<le> max_char ?utf
    then braced_digits is_xdigit add_hex ?utf s (p + 3) 0 = (False, hex_value ds, p + 3 + length ds)
    else fst (braced_digits is_xdigit add_hex ?utf s (p + 3) 0)"
    using braced_hex [OF d3 assms(3), of 0 ?utf] by (simp add: hex_value_def Let_def max_char_def)
  have x: "check_escape s p bracount options isclass =
    close_brace is_xdigit 79 ?utf s (braced_digits is_xdigit add_hex ?utf s (p + 3) 0)"
  proof -
    have "p + 1 + 2 = p + 3" by simp
    with r2 r3 assms(4) have "esc_x ?utf s (p + 1) options =
      close_brace is_xdigit 79 ?utf s (braced_digits is_xdigit add_hex ?utf s (p + 3) 0)"
      unfolding esc_x_def by (simp only: if_True if_False refl)
    then have "esc_other ?utf s (p + 1) 0x78 bracount options isclass =
      close_brace is_xdigit 79 ?utf s (braced_digits is_xdigit add_hex ?utf s (p + 3) 0)"
      by (simp add: esc_other_def)
    moreover have "fst (close_brace is_xdigit 79 ?utf s b) = 0" for b
      by (simp add: close_brace_def split: prod.splits)
    then obtain c q err where "close_brace is_xdigit 79 ?utf s
      (braced_digits is_xdigit add_hex ?utf s (p + 3) 0) = (0, c, q, err)" by (metis eq_fst_iff)
    ultimately show ?thesis
      unfolding check_escape_def Let_def g case_prod_conv using e by simp
  qed
  show ?thesis
    using b close unfolding x
    by (cases "braced_digits is_xdigit add_hex ?utf s (p + 3) 0")
      (auto simp: close_brace_def Let_def split: if_splits)
qed

theorem check_escape_hex_braces_witness:
  "check_escape [0x5c, 0x78, 0x7b, 0x32, 0x30, 0x61, 0x63, 0x7d] 0 0 0x800 False = (0, 0x20ac, 7, None)"
proof -
  have "hex_value [0x32, 0x30, 0x61, 0x63] = 0x20ac" "has 0x800 PCRE_UTF" "\<not> has 0x800 PCRE_JAVASCRIPT"
    "list_all is_xdigit [0x32, 0x30, 0x61, 0x63]"
    by (simp_all add: hex_value_def hex_digit_value_def has_def is_xdigit_iff)
  then show ?thesis
    using check_escape_hex_braces [of 0 "[0x5c, 0x78, 0x7b, 0x32, 0x30, 0x61, 0x63, 0x7d]"
        "[0x32, 0x30, 0x61, 0x63]" "[]" "0x800" 0 False]
    by (simp add: Let_def max_char_def)
qed

text \<open>\<open>check_posix_name()\<close> answers the place of the name in the list of POSIX class names, which
  indexes the class maps, and -1 for any other name.\<close>

theorem check_posix_name_index:
  "check_posix_name s ptr len =
    (let w = map (rd s) [ptr..<ptr + len]; names = map bytes_of posix_names in
     if w \<in> set names then int (length (takeWhile (\<lambda>n. n \<noteq> w) names)) else -1)"
proof -
  have "posix_name_lengths = map length posix_names"
    by (simp add: posix_name_lengths_def posix_names_def)
  then show ?thesis
    using posix_name_from_names [of "[]" posix_names s ptr len 0]
    by (simp add: check_posix_name_def posix_bytes_def Let_def)
qed

end
