(* ===== verification/CodeWalk.thy ===== *)
theory CodeWalk
  imports Opcodes Utf8
begin

text \<open>
  The functions of the pattern compiler (\<open>pcre_compile.c\<close>) that walk over compiled code to find
  something out about it: \<open>first_significant_code()\<close>, \<open>find_fixedlength()\<close> for the branches of
  lookbehind assertions, \<open>find_bracket()\<close>, \<open>find_recurse()\<close>, \<open>could_be_empty_branch()\<close>
  and the tests that set the start optimisations, \<open>is_anchored()\<close>,
  \<open>is_startline()\<close> and \<open>find_firstassertedchar()\<close>.

  Code is a list of bytes, a position in it an offset, and \<open>cd->start_code\<close> is the offset
  \<open>start\<close>. A result \<open>None\<close> stands for a walk that leaves the code or stands still, which no
  code made by the compiler leads to: a link of zero, or an extended class of length zero. So
  all functions here are total, and that the walks with a chain of visited groups come to an end
  is proved with their definitions: along the chain no group is entered twice.
\<close>

subsection \<open>First significant code\<close>

text \<open>\<open>skip_alts\<close> is the loop \<open>do code += GET(code, 1); while (*code == OP_ALT)\<close>.\<close>

function first_significant_code :: "byte list \<Rightarrow> nat \<Rightarrow> bool \<Rightarrow> nat option" where
  "first_significant_code code p skipassert =
    (let op = opc code p in
     if op = OP_ASSERT_NOT \<or> op = OP_ASSERTBACK \<or> op = OP_ASSERTBACK_NOT then
       if \<not> skipassert then Some p
       else
         (case skip_alts code p of
            None \<Rightarrow> None
          | Some q \<Rightarrow>
              if op_length (opc code q) = 0 then None
              else first_significant_code code (q + op_length (opc code q)) skipassert)
     else if op = OP_WORD_BOUNDARY \<or> op = OP_NOT_WORD_BOUNDARY then
       if \<not> skipassert then Some p else first_significant_code code (p + op_length op) skipassert
     else if op = OP_CALLOUT \<or> op = OP_CREF \<or> op = OP_DNCREF \<or> op = OP_RREF \<or> op = OP_DNRREF \<or> op = OP_DEF
       then first_significant_code code (p + op_length op) skipassert
     else Some p)"
  by pat_completeness auto

lemma opc_inside: "opc code p \<noteq> 0 \<Longrightarrow> p < length code"
  by (auto simp: opc_def rd_def split: if_splits)

lemma opc_positive: "0 < opc code p \<Longrightarrow> p < length code"
  by (rule opc_inside) simp

lemma opc_numeral: "opc code p = numeral k \<Longrightarrow> p < length code"
  by (rule opc_inside) simp

lemma op_lengths_positive:
  "0 < op_length OP_WORD_BOUNDARY" "0 < op_length OP_NOT_WORD_BOUNDARY" "0 < op_length OP_CALLOUT"
  "0 < op_length OP_CREF" "0 < op_length OP_DNCREF" "0 < op_length OP_RREF" "0 < op_length OP_DNRREF"
  "0 < op_length OP_DEF"
  by (simp_all add: op_length_def OP_lengths_def nth_default_def)

termination first_significant_code
  by (relation "measure (\<lambda>(code, p, _). length code - p)")
    (auto dest!: skip_alts_SomeD dest: opc_numeral intro!: diff_less_mono2 simp: op_lengths_positive)

declare first_significant_code.simps [simp del]

subsection \<open>The items of the code\<close>

text \<open>The length of one item, as \<open>find_bracket()\<close> and \<open>find_recurse()\<close> step over it: the table gives
  the fixed part, and characters, properties and the arguments of verbs come on top.\<close>

definition type_repeat_ops :: "nat set" where
  "type_repeat_ops = {OP_TYPESTAR, OP_TYPEMINSTAR, OP_TYPEPLUS, OP_TYPEMINPLUS, OP_TYPEQUERY,
     OP_TYPEMINQUERY, OP_TYPEPOSSTAR, OP_TYPEPOSPLUS, OP_TYPEPOSQUERY}"

definition type_count_ops :: "nat set" where
  "type_count_ops = {OP_TYPEUPTO, OP_TYPEMINUPTO, OP_TYPEEXACT, OP_TYPEPOSUPTO}"

definition arg_ops :: "nat set" where
  "arg_ops = {OP_MARK, OP_PRUNE_ARG, OP_SKIP_ARG, OP_THEN_ARG}"

text \<open>The opcodes with a character: \<open>OP_CHAR\<close> to \<open>OP_NOTPOSUPTOI\<close> are one run of numbers.\<close>

definition has_char_arg :: "nat \<Rightarrow> bool" where
  "has_char_arg op \<longleftrightarrow> OP_CHAR \<le> op \<and> op \<le> OP_NOTPOSUPTOI"

definition is_prop :: "nat \<Rightarrow> bool" where
  "is_prop op \<longleftrightarrow> op = OP_PROP \<or> op = OP_NOTPROP"

definition skip_item :: "bool \<Rightarrow> byte list \<Rightarrow> nat \<Rightarrow> nat" where
  "skip_item utf code p =
    (let c = opc code p;
         p1 = p + (if c \<in> type_repeat_ops then (if is_prop (opc code (p + 1)) then 2 else 0)
                   else if c \<in> type_count_ops then (if is_prop (opc code (p + 1 + IMM2_SIZE)) then 2 else 0)
                   else if c \<in> arg_ops then opc code (p + 1)
                   else 0);
         p2 = p1 + op_length c in
     if utf \<and> has_char_arg c \<and> opc code (p2 - 1) \<ge> 0xc0
     then p2 + getutf8_extra (opc code (p2 - 1)) else p2)"

definition is_cbra :: "nat \<Rightarrow> bool" where
  "is_cbra op \<longleftrightarrow> op = OP_CBRA \<or> op = OP_SCBRA \<or> op = OP_CBRAPOS \<or> op = OP_SCBRAPOS"

text \<open>One turn of each loop: the answer, or the next position.\<close>

definition bracket_step :: "byte list \<Rightarrow> nat \<Rightarrow> bool \<Rightarrow> int \<Rightarrow> nat option + nat" where
  "bracket_step code p utf number =
    (let c = opc code p in
     if c = OP_END then Inl None
     else if c = OP_XCLASS then Inr (p + GET code p 1)
     else if c = OP_REVERSE then
       if number < 0 then Inl (Some p) else Inr (p + op_length c)
     else if is_cbra c then
       if int (GET2 code p (1 + LINK_SIZE)) = number then Inl (Some p) else Inr (p + op_length c)
     else Inr (skip_item utf code p))"

definition recurse_step :: "byte list \<Rightarrow> nat \<Rightarrow> bool \<Rightarrow> nat option + nat" where
  "recurse_step code p utf =
    (let c = opc code p in
     if c = OP_END then Inl None
     else if c = OP_RECURSE then Inl (Some p)
     else if c = OP_XCLASS then Inr (p + GET code p 1)
     else Inr (skip_item utf code p))"

function find_bracket :: "byte list \<Rightarrow> nat \<Rightarrow> bool \<Rightarrow> int \<Rightarrow> nat option option" where
  "find_bracket code p utf number =
    (case bracket_step code p utf number of
       Inl r \<Rightarrow> Some r
     | Inr q \<Rightarrow> if p < q \<and> p < length code then find_bracket code q utf number else None)"
  by pat_completeness auto
termination
  by (relation "measure (\<lambda>(code, p, _). length code - p)") auto

function find_recurse :: "byte list \<Rightarrow> nat \<Rightarrow> bool \<Rightarrow> nat option option" where
  "find_recurse code p utf =
    (case recurse_step code p utf of
       Inl r \<Rightarrow> Some r
     | Inr q \<Rightarrow> if p < q \<and> p < length code then find_recurse code q utf else None)"
  by pat_completeness auto
termination
  by (relation "measure (\<lambda>(code, p, _). length code - p)") auto

declare find_bracket.simps [simp del] find_recurse.simps [simp del]

subsection \<open>The fixed length of a branch\<close>

text \<open>Items that match no character, and items whose length varies.\<close>

definition matchless_ops :: "nat set" where
  "matchless_ops = {
     OP_CALLOUT, OP_CIRC, OP_CIRCM, OP_CLOSE, OP_COMMIT, OP_CREF, OP_DEF, OP_DNCREF, OP_DNRREF,
     OP_DOLL, OP_DOLLM, OP_EOD, OP_EODN, OP_FAIL, OP_NOT_WORD_BOUNDARY, OP_PRUNE, OP_REVERSE,
     OP_RREF, OP_SET_SOM, OP_SKIP, OP_SOD, OP_SOM, OP_THEN, OP_WORD_BOUNDARY}"

definition variable_ops :: "nat set" where
  "variable_ops = {
     OP_ANYNL, OP_BRAMINZERO, OP_BRAPOS, OP_BRAPOSZERO, OP_BRAZERO, OP_CBRAPOS, OP_EXTUNI,
     OP_KETRMAX, OP_KETRMIN, OP_KETRPOS, OP_MINPLUS, OP_MINPLUSI, OP_MINQUERY, OP_MINQUERYI,
     OP_MINSTAR, OP_MINSTARI, OP_MINUPTO, OP_MINUPTOI, OP_NOTMINPLUS, OP_NOTMINPLUSI,
     OP_NOTMINQUERY, OP_NOTMINQUERYI, OP_NOTMINSTAR, OP_NOTMINSTARI, OP_NOTMINUPTO,
     OP_NOTMINUPTOI, OP_NOTPLUS, OP_NOTPLUSI, OP_NOTPOSPLUS, OP_NOTPOSPLUSI, OP_NOTPOSQUERY,
     OP_NOTPOSQUERYI, OP_NOTPOSSTAR, OP_NOTPOSSTARI, OP_NOTPOSUPTO, OP_NOTPOSUPTOI,
     OP_NOTQUERY, OP_NOTQUERYI, OP_NOTSTAR, OP_NOTSTARI, OP_NOTUPTO, OP_NOTUPTOI, OP_PLUS,
     OP_PLUSI, OP_POSPLUS, OP_POSPLUSI, OP_POSQUERY, OP_POSQUERYI, OP_POSSTAR, OP_POSSTARI,
     OP_POSUPTO, OP_POSUPTOI, OP_QUERY, OP_QUERYI, OP_REF, OP_REFI, OP_DNREF, OP_DNREFI,
     OP_SBRA, OP_SBRAPOS, OP_SCBRA, OP_SCBRAPOS, OP_SCOND, OP_SKIPZERO, OP_STAR, OP_STARI,
     OP_TYPEMINPLUS, OP_TYPEMINQUERY, OP_TYPEMINSTAR, OP_TYPEMINUPTO, OP_TYPEPLUS,
     OP_TYPEPOSPLUS, OP_TYPEPOSQUERY, OP_TYPEPOSSTAR, OP_TYPEPOSUPTO, OP_TYPEQUERY,
     OP_TYPESTAR, OP_TYPEUPTO, OP_UPTO, OP_UPTOI}"

definition single_ops :: "nat set" where
  "single_ops = {OP_HSPACE, OP_VSPACE, OP_NOT_HSPACE, OP_NOT_VSPACE, OP_NOT_DIGIT, OP_DIGIT,
     OP_NOT_WHITESPACE, OP_WHITESPACE, OP_NOT_WORDCHAR, OP_WORDCHAR, OP_ANY, OP_ALLANY}"

text \<open>One item: it adds to the length and leads on, or the function returns.\<close>

datatype fixed_move = Adds int nat | Returns int

definition over_char :: "bool \<Rightarrow> byte list \<Rightarrow> nat \<Rightarrow> nat" where
  "over_char utf code q =
    (if utf \<and> opc code (q - 1) \<ge> 0xc0 then q + getutf8_extra (opc code (q - 1)) else q)"

text \<open>After a class, the quantifier at \<open>q\<close>.\<close>

definition class_move :: "byte list \<Rightarrow> nat \<Rightarrow> fixed_move" where
  "class_move code q =
    (let op = opc code q in
     if op \<in> {OP_CRSTAR, OP_CRMINSTAR, OP_CRPLUS, OP_CRMINPLUS, OP_CRQUERY, OP_CRMINQUERY,
              OP_CRPOSSTAR, OP_CRPOSPLUS, OP_CRPOSQUERY} then Returns (-1)
     else if op = OP_CRRANGE \<or> op = OP_CRMINRANGE \<or> op = OP_CRPOSRANGE then
       (if GET2 code q 1 \<noteq> GET2 code q (1 + IMM2_SIZE) then Returns (-1)
        else Adds (int (GET2 code q 1)) (q + 1 + 2 * IMM2_SIZE))
     else Adds 1 q)"

definition fixed_item :: "bool \<Rightarrow> byte list \<Rightarrow> nat \<Rightarrow> fixed_move" where
  "fixed_item utf code cc =
    (let op = opc code cc in
     if op \<in> arg_ops then Adds 0 (cc + opc code (cc + 1) + op_length op)
     else if op \<in> matchless_ops then Adds 0 (cc + op_length op)
     else if op \<in> {OP_CHAR, OP_CHARI, OP_NOT, OP_NOTI} then Adds 1 (over_char utf code (cc + 2))
     else if op \<in> {OP_EXACT, OP_EXACTI, OP_NOTEXACT, OP_NOTEXACTI} then
       Adds (int (GET2 code cc 1)) (over_char utf code (cc + 2 + IMM2_SIZE))
     else if op = OP_TYPEEXACT then
       Adds (int (GET2 code cc 1))
         (cc + (if is_prop (opc code (cc + 1 + IMM2_SIZE)) then 2 else 0) + 1 + IMM2_SIZE + 1)
     else if is_prop op then Adds 1 (cc + 2 + 1)
     else if op \<in> single_ops then Adds 1 (cc + 1)
     else if op = OP_ANYBYTE then Returns (-2)
     else if op = OP_XCLASS then class_move code (cc + GET code cc 1)
     else if op = OP_CLASS \<or> op = OP_NCLASS then class_move code (cc + op_length OP_CLASS)
     else if op \<in> variable_ops then Returns (-1)
     else Returns (-4))"

text \<open>
  The loop of \<open>find_fixedlength()\<close>: \<open>len\<close> and \<open>bl\<close> are its variables \<open>length\<close> and
  \<open>branchlength\<close>, \<open>recs\<close> is the chain of \<open>recurse_check\<close> blocks. A length beyond the C type
  \<open>int\<close>, which subroutine calls can add up to, is undefined there and \<open>None\<close> here.
\<close>

function (sequential) fixed_loop ::
  "byte list \<Rightarrow> bool \<Rightarrow> bool \<Rightarrow> nat \<Rightarrow> nat list \<Rightarrow> nat \<Rightarrow> int \<Rightarrow> int \<Rightarrow> int option"
where
  "fixed_loop code utf atend start recs cc len bl =
    (let op = opc code cc in
     if op \<in> {OP_CBRA, OP_BRA, OP_ONCE, OP_ONCE_NC, OP_COND} then
       (case fixed_loop code utf atend start recs
               (cc + (if op = OP_CBRA then IMM2_SIZE else 0) + 1 + LINK_SIZE) (-1) 0 of
          None \<Rightarrow> None
        | Some d \<Rightarrow>
            if d < 0 then Some d
            else
              (case skip_alts code cc of
                 None \<Rightarrow> None
               | Some ket \<Rightarrow>
                   if in_int (bl + d)
                   then fixed_loop code utf atend start recs (ket + 1 + LINK_SIZE) len (bl + d)
                   else None))
     else if op \<in> {OP_ALT, OP_KET, OP_END, OP_ACCEPT, OP_ASSERT_ACCEPT} then
       if \<not> len < 0 \<and> len \<noteq> bl then Some (-1)
       else
         let len = (if len < 0 then bl else len) in
         if op \<noteq> OP_ALT then Some len
         else fixed_loop code utf atend start recs (cc + 1 + LINK_SIZE) len 0
     else if op = OP_RECURSE then
       if \<not> atend then Some (-3)
       else
         let cs = start + GET code cc 1 in
         (case skip_alts code cs of
            None \<Rightarrow> None
          | Some ce \<Rightarrow>
              if cc > cs \<and> cc < ce then Some (-1)
              else if cs \<in> set recs then Some (-1)
              else
                (case fixed_loop code utf atend start (cs # recs) (cs + IMM2_SIZE + 1 + LINK_SIZE) (-1) 0 of
                   None \<Rightarrow> None
                 | Some d \<Rightarrow>
                     if d < 0 then Some d
                     else if in_int (bl + d)
                     then fixed_loop code utf atend start recs (cc + 1 + LINK_SIZE) len (bl + d)
                     else None))
     else if op \<in> {OP_ASSERT, OP_ASSERT_NOT, OP_ASSERTBACK, OP_ASSERTBACK_NOT} then
       (case skip_alts code cc of
          None \<Rightarrow> None
        | Some ket \<Rightarrow> fixed_loop code utf atend start recs (ket + 1 + LINK_SIZE) len bl)
     else
       (case fixed_item utf code cc of
          Returns r \<Rightarrow> Some r
        | Adds d q \<Rightarrow>
            if q \<le> cc then None
            else if in_int (bl + d) then fixed_loop code utf atend start recs q len (bl + d)
            else None))"
  by pat_completeness auto

lemma chain_grows:
  assumes "cs < (n :: nat)" "cs \<notin> set recs"
  shows "card ({..<n} - insert cs (set recs)) < card ({..<n} - set recs)"
proof (rule psubset_card_mono)
  have "cs \<in> {..<n} - set recs" using assms by simp
  then show "{..<n} - insert cs (set recs) \<subset> {..<n} - set recs" by blast
qed simp

lemma chain_room: "cs < (n :: nat) \<Longrightarrow> cs \<notin> set recs \<Longrightarrow> 0 < card ({..<n} - set recs)"
  by (auto simp: card_gt_0_iff)

termination fixed_loop
proof (relation "inv_image (less_than <*lex*> less_than)
    (\<lambda>(code, _, _, _, recs, cc, _, _). (card ({..<length code} - set recs), length code - cc))", goal_cases)
  case 1
  show ?case by (auto intro: wf_inv_image)
next
  case (5 code utf atend start recs cc len bl)
  then show ?case by (auto intro!: chain_grows dest: skip_alts_SomeD)
qed (auto dest: skip_alts_SomeD intro!: diff_less_mono2 dest: opc_positive opc_numeral)

declare fixed_loop.simps [simp del]

definition find_fixedlength ::
  "byte list \<Rightarrow> nat \<Rightarrow> bool \<Rightarrow> bool \<Rightarrow> nat \<Rightarrow> nat list \<Rightarrow> int option"
where
  "find_fixedlength code p utf atend start recs =
    fixed_loop code utf atend start recs (p + 1 + LINK_SIZE) (-1) 0"

subsection \<open>Can a branch match the empty string?\<close>

text \<open>Opcodes that must match a character.\<close>

definition nonempty_ops :: "nat set" where
  "nonempty_ops = {OP_ANY, OP_ALLANY, OP_ANYBYTE, OP_PROP, OP_NOTPROP, OP_ANYNL,
     OP_NOT_HSPACE, OP_HSPACE, OP_NOT_VSPACE, OP_VSPACE, OP_EXTUNI,
     OP_NOT_DIGIT, OP_DIGIT, OP_NOT_WHITESPACE, OP_WHITESPACE, OP_NOT_WORDCHAR, OP_WORDCHAR,
     OP_CHAR, OP_CHARI, OP_NOT, OP_NOTI, OP_PLUS, OP_PLUSI, OP_MINPLUS, OP_MINPLUSI,
     OP_NOTPLUS, OP_NOTPLUSI, OP_NOTMINPLUS, OP_NOTMINPLUSI, OP_POSPLUS, OP_POSPLUSI,
     OP_NOTPOSPLUS, OP_NOTPOSPLUSI, OP_EXACT, OP_EXACTI, OP_NOTEXACT, OP_NOTEXACTI,
     OP_TYPEPLUS, OP_TYPEMINPLUS, OP_TYPEPOSPLUS, OP_TYPEEXACT}"

text \<open>After a class: \<open>True\<close> when the quantifier lets it match nothing.\<close>

definition class_could_be_empty :: "byte list \<Rightarrow> nat \<Rightarrow> bool" where
  "class_could_be_empty code q =
    (let op = opc code q in
     if op \<in> {OP_CRSTAR, OP_CRMINSTAR, OP_CRQUERY, OP_CRMINQUERY, OP_CRPOSSTAR, OP_CRPOSQUERY} then True
     else if op = OP_CRRANGE \<or> op = OP_CRMINRANGE \<or> op = OP_CRPOSRANGE then \<not> GET2 code q 1 > 0
     else False)"

text \<open>The last switch: the function returns, or goes on at a position, to which the length from
  the table is still added.\<close>

definition empty_item :: "bool \<Rightarrow> byte list \<Rightarrow> nat \<Rightarrow> bool + nat" where
  "empty_item utf code p =
    (let c = opc code p in
     if c = OP_XCLASS then
       if class_could_be_empty code (p + GET code p 1) then Inr (p + GET code p 1) else Inl False
     else if c = OP_CLASS \<or> c = OP_NCLASS then
       if class_could_be_empty code (p + op_length OP_CLASS) then Inr p else Inl False
     else if c \<in> nonempty_ops then Inl False
     else if c \<in> {OP_TYPESTAR, OP_TYPEMINSTAR, OP_TYPEPOSSTAR, OP_TYPEQUERY, OP_TYPEMINQUERY, OP_TYPEPOSQUERY}
       then Inr (if is_prop (opc code (p + 1)) then p + 2 else p)
     else if c \<in> {OP_TYPEUPTO, OP_TYPEMINUPTO, OP_TYPEPOSUPTO}
       then Inr (if is_prop (opc code (p + 1 + IMM2_SIZE)) then p + 2 else p)
     else if c \<in> {OP_KET, OP_KETRMAX, OP_KETRMIN, OP_KETRPOS, OP_ALT} then Inl True
     else if c \<in> {OP_STAR, OP_STARI, OP_NOTSTAR, OP_NOTSTARI, OP_MINSTAR, OP_MINSTARI, OP_NOTMINSTAR,
         OP_NOTMINSTARI, OP_POSSTAR, OP_POSSTARI, OP_NOTPOSSTAR, OP_NOTPOSSTARI, OP_QUERY, OP_QUERYI,
         OP_NOTQUERY, OP_NOTQUERYI, OP_MINQUERY, OP_MINQUERYI, OP_NOTMINQUERY, OP_NOTMINQUERYI,
         OP_POSQUERY, OP_POSQUERYI, OP_NOTPOSQUERY, OP_NOTPOSQUERYI}
       then Inr (if utf \<and> opc code (p + 1) \<ge> 0xc0 then p + getutf8_extra (opc code (p + 1)) else p)
     else if c \<in> {OP_UPTO, OP_UPTOI, OP_NOTUPTO, OP_NOTUPTOI, OP_MINUPTO, OP_MINUPTOI, OP_NOTMINUPTO,
         OP_NOTMINUPTOI, OP_POSUPTO, OP_POSUPTOI, OP_NOTPOSUPTO, OP_NOTPOSUPTOI}
       then Inr (if utf \<and> opc code (p + 1 + IMM2_SIZE) \<ge> 0xc0
                 then p + getutf8_extra (opc code (p + 1 + IMM2_SIZE)) else p)
     else if c \<in> arg_ops then Inr (p + opc code (p + 1))
     else Inr p)"

text \<open>A subroutine call: the list \<open>fwd\<close> holds the offsets that the workspace lists as forward
  references, or is \<open>None\<close> for a completed pattern. \<open>Inl\<close> is the answer, \<open>Inr\<close> the group to scan
  or nothing to do.\<close>

definition empty_call ::
  "byte list \<Rightarrow> nat \<Rightarrow> nat list option \<Rightarrow> nat list \<Rightarrow> nat \<Rightarrow> (bool + nat option) option"
where
  "empty_call code start fwd recs p =
    (let scode = start + GET code p 1 in
     if (case fwd of
           None \<Rightarrow> False
         | Some offs \<Rightarrow> list_ex (\<lambda>off. start + off = p + 1) offs \<or> GET code scode 1 = 0)
     then Some (Inl True)
     else
       (case skip_alts code scode of
          None \<Rightarrow> None
        | Some endgroup \<Rightarrow>
            if p \<ge> scode \<and> p \<le> endgroup then Some (Inr None)
            else if scode \<in> set recs then Some (Inr None)
            else Some (Inr (Some scode))))"

text \<open>
  \<open>empty_loop\<close> is the loop of \<open>could_be_empty_branch()\<close>, at its test; \<open>empty_alts\<close> goes over the
  alternatives of a group and answers whether one of them could be empty; \<open>go\<close> is the step of
  the loop, which adds the length of the opcode \<open>c\<close>.
\<close>

definition next_significant :: "byte list \<Rightarrow> nat \<Rightarrow> nat \<Rightarrow> nat option" where
  "next_significant code p c = first_significant_code code (p + op_length c) True"

function empty_loop ::
    "byte list \<Rightarrow> nat \<Rightarrow> bool \<Rightarrow> nat \<Rightarrow> nat list option \<Rightarrow> nat list \<Rightarrow> nat \<Rightarrow> bool option"
  and empty_alts ::
    "byte list \<Rightarrow> nat \<Rightarrow> bool \<Rightarrow> nat \<Rightarrow> nat list option \<Rightarrow> nat list \<Rightarrow> nat \<Rightarrow> bool option"
where
  "empty_loop code endcode utf start fwd recs p =
    (if \<not> p < endcode then Some True
     else
       let c = opc code p;
           past = (\<lambda>q c. case next_significant code q c of
             None \<Rightarrow> None | Some q' \<Rightarrow> if p < q' \<and> p < length code then Some q' else None);
           past_group = (\<lambda>q. case skip_alts code q of
             None \<Rightarrow> None | Some ket \<Rightarrow> past ket (opc code ket)) in
       if c = OP_ASSERT \<or> c \<in> {OP_SBRA, OP_SBRAPOS, OP_SCBRA, OP_SCBRAPOS} then
         (case past_group p of None \<Rightarrow> None | Some q \<Rightarrow> empty_loop code endcode utf start fwd recs q)
       else if c \<in> {OP_BRAZERO, OP_BRAMINZERO, OP_SKIPZERO, OP_BRAPOSZERO} then
         (case past_group (p + op_length c) of
            None \<Rightarrow> None | Some q \<Rightarrow> empty_loop code endcode utf start fwd recs q)
       else if c = OP_RECURSE then
         (case empty_call code start fwd recs p of
            None \<Rightarrow> None
          | Some (Inl r) \<Rightarrow> Some r
          | Some (Inr g) \<Rightarrow>
              (case (case g of
                       None \<Rightarrow> Some True
                     | Some scode \<Rightarrow>
                         if scode < length code \<and> scode \<notin> set recs
                         then empty_alts code endcode utf start fwd (scode # recs) scode else None) of
                 None \<Rightarrow> None
               | Some False \<Rightarrow> Some False
               | Some True \<Rightarrow>
                   (case past p c of
                      None \<Rightarrow> None | Some q \<Rightarrow> empty_loop code endcode utf start fwd recs q)))
       else if c \<in> {OP_BRA, OP_BRAPOS, OP_CBRA, OP_CBRAPOS, OP_ONCE, OP_ONCE_NC, OP_COND, OP_SCOND} then
         if GET code p 1 = 0 then Some True
         else if c = OP_COND \<and> opc code (p + GET code p 1) \<noteq> OP_ALT then
           (case past (p + GET code p 1) (opc code (p + GET code p 1)) of
              None \<Rightarrow> None | Some q \<Rightarrow> empty_loop code endcode utf start fwd recs q)
         else
           (case (if p < length code then empty_alts code endcode utf start fwd recs p else None) of
              None \<Rightarrow> None
            | Some False \<Rightarrow> Some False
            | Some True \<Rightarrow>
                (case past_group p of
                   None \<Rightarrow> None | Some q \<Rightarrow> empty_loop code endcode utf start fwd recs q))
       else
         (case empty_item utf code p of
            Inl r \<Rightarrow> Some r
          | Inr q \<Rightarrow>
              (case past q c of
                 None \<Rightarrow> None | Some q' \<Rightarrow> empty_loop code endcode utf start fwd recs q')))"
| "empty_alts code endcode utf start fwd recs q =
    (case next_significant code q (opc code q) of
       None \<Rightarrow> None
     | Some p \<Rightarrow>
         if \<not> (q < p \<and> q < length code) then None
         else
           (case empty_loop code endcode utf start fwd recs p of
              None \<Rightarrow> None
            | Some True \<Rightarrow> Some True
            | Some False \<Rightarrow>
                let n = q + GET code q 1 in
                if n \<le> q \<or> length code \<le> n then None
                else if opc code n = OP_ALT then empty_alts code endcode utf start fwd recs n
                else Some False))"
  by pat_completeness auto

termination
proof (relation "inv_image (less_than <*lex*> less_than <*lex*> less_than)
    (\<lambda>x. case x of
       Inl (code, endcode, _, _, _, recs, p) \<Rightarrow>
         (card ({..<length code} - set recs), max endcode (length code) - p, 1 :: nat)
     | Inr (code, endcode, _, _, _, recs, p) \<Rightarrow>
         (card ({..<length code} - set recs), max endcode (length code) - p, 0))", goal_cases)
  case 1
  show ?case by (auto intro: wf_inv_image)
qed (auto intro!: diff_less_mono2 dest: chain_room split: option.splits if_splits)

declare empty_loop.simps [simp del] empty_alts.simps [simp del]

definition could_be_empty_branch ::
  "byte list \<Rightarrow> nat \<Rightarrow> bool \<Rightarrow> nat \<Rightarrow> nat list option \<Rightarrow> nat list \<Rightarrow> nat \<Rightarrow> bool option"
where
  "could_be_empty_branch code endcode utf start fwd recs p =
    (case next_significant code p (opc code p) of
       None \<Rightarrow> None | Some q \<Rightarrow> empty_loop code endcode utf start fwd recs q)"

text \<open>The chain of the branches that are still open, from the inner one outwards.\<close>

fun could_be_empty ::
  "byte list \<Rightarrow> nat \<Rightarrow> nat \<Rightarrow> bool \<Rightarrow> nat \<Rightarrow> nat list option \<Rightarrow> nat list \<Rightarrow> bool option"
where
  "could_be_empty code p endcode utf start fwd [] = Some True"
| "could_be_empty code p endcode utf start fwd (b # bs) =
    (if b \<ge> p then
       (case could_be_empty_branch code endcode utf start fwd [] b of
          None \<Rightarrow> None
        | Some False \<Rightarrow> Some False
        | Some True \<Rightarrow> could_be_empty code p endcode utf start fwd bs)
     else Some True)"

subsection \<open>Start optimisations\<close>

definition is_bra :: "nat \<Rightarrow> bool" where
  "is_bra op \<longleftrightarrow> op = OP_BRA \<or> op = OP_BRAPOS \<or> op = OP_SBRA \<or> op = OP_SBRAPOS"

text \<open>\<open>bracket_map | ((n < 32)? (1U << n) : 1)\<close>\<close>

definition in_bracket :: "32 word \<Rightarrow> nat \<Rightarrow> 32 word" where
  "in_bracket bracket_map n = bracket_map OR (if n < 32 then push_bit n 1 else 1)"

definition is_typestar :: "nat \<Rightarrow> bool" where
  "is_typestar op \<longleftrightarrow> op = OP_TYPESTAR \<or> op = OP_TYPEMINSTAR \<or> op = OP_TYPEPOSSTAR"

text \<open>\<open>backref_map\<close> and \<open>had_pruneorskip\<close> come from the compile data. A group starts before its
  first item, so the nested calls are at later positions.\<close>

function is_anchored ::
  "byte list \<Rightarrow> nat \<Rightarrow> 32 word \<Rightarrow> 32 word \<Rightarrow> bool \<Rightarrow> nat \<Rightarrow> bool option"
where
  "is_anchored code p bracket_map backref_map pruneorskip atomcount =
    (case first_significant_code code (p + op_length (opc code p)) False of
       None \<Rightarrow> None
     | Some scode \<Rightarrow>
         if \<not> (p < scode \<and> p < length code) then None
         else
           let op = opc code scode;
               inner =
                 (if is_bra op \<or> op = OP_ASSERT then
                    is_anchored code scode bracket_map backref_map pruneorskip atomcount
                  else if is_cbra op then
                    is_anchored code scode (in_bracket bracket_map (GET2 code scode (1 + LINK_SIZE)))
                      backref_map pruneorskip atomcount
                  else if op = OP_COND then
                    if opc code (scode + GET code scode 1) \<noteq> OP_ALT then Some False
                    else is_anchored code scode bracket_map backref_map pruneorskip atomcount
                  else if op = OP_ONCE \<or> op = OP_ONCE_NC then
                    is_anchored code scode bracket_map backref_map pruneorskip (atomcount + 1)
                  else if is_typestar op then
                    Some (\<not> (opc code (scode + 1) \<noteq> OP_ALLANY \<or> bracket_map AND backref_map \<noteq> 0 \<or>
                           atomcount > 0 \<or> pruneorskip))
                  else Some (op = OP_SOD \<or> op = OP_SOM \<or> op = OP_CIRC)) in
           (case inner of
              None \<Rightarrow> None
            | Some False \<Rightarrow> Some False
            | Some True \<Rightarrow>
                let n = p + GET code p 1 in
                if n \<le> p then None
                else if opc code n = OP_ALT
                then is_anchored code n bracket_map backref_map pruneorskip atomcount
                else Some True))"
  by pat_completeness auto
termination
  by (relation "measure (\<lambda>(code, p, _). length code - p)")
    (auto intro!: diff_less_mono2)

declare is_anchored.simps [simp del]

text \<open>At the start of a conditional group, the assertion must satisfy the test and so must what
  follows it. The pieces: the condition, and the position behind it.\<close>

definition condition_start :: "byte list \<Rightarrow> nat \<Rightarrow> nat" where
  "condition_start code scode =
    (let q = scode + 1 + LINK_SIZE in if opc code q = OP_CALLOUT then q + op_length OP_CALLOUT else q)"

definition is_plain_condition :: "nat \<Rightarrow> bool" where
  "is_plain_condition op \<longleftrightarrow> op \<in> {OP_CREF, OP_DNCREF, OP_RREF, OP_DNRREF, OP_DEF, OP_FAIL}"

function is_startline ::
  "byte list \<Rightarrow> nat \<Rightarrow> 32 word \<Rightarrow> 32 word \<Rightarrow> bool \<Rightarrow> nat \<Rightarrow> bool \<Rightarrow> bool option"
where
  "is_startline code p bracket_map backref_map pruneorskip atomcount inassert =
    (case first_significant_code code (p + op_length (opc code p)) False of
       None \<Rightarrow> None
     | Some scode0 \<Rightarrow>
         if \<not> (p < scode0 \<and> p < length code) then None
         else
           let cond =
             (if opc code scode0 = OP_COND then
                let q = condition_start code scode0 in
                if is_plain_condition (opc code q) then Some (False, scode0)
                else
                  (case is_startline code q bracket_map backref_map pruneorskip atomcount True of
                     None \<Rightarrow> None
                   | Some False \<Rightarrow> Some (False, scode0)
                   | Some True \<Rightarrow>
                       (case skip_alts code q of
                          None \<Rightarrow> None
                        | Some ket \<Rightarrow>
                            (case first_significant_code code (ket + 1 + LINK_SIZE) False of
                               None \<Rightarrow> None | Some s \<Rightarrow> Some (True, s))))
              else Some (True, scode0)) in
           (case cond of
              None \<Rightarrow> None
            | Some (False, _) \<Rightarrow> Some False
            | Some (True, scode) \<Rightarrow>
                if \<not> p < scode then None
                else
                  let op = opc code scode;
                      inner =
                        (if is_bra op then
                           is_startline code scode bracket_map backref_map pruneorskip atomcount inassert
                         else if is_cbra op then
                           is_startline code scode (in_bracket bracket_map (GET2 code scode (1 + LINK_SIZE)))
                             backref_map pruneorskip atomcount inassert
                         else if op = OP_ASSERT then
                           is_startline code scode bracket_map backref_map pruneorskip atomcount True
                         else if op = OP_ONCE \<or> op = OP_ONCE_NC then
                           is_startline code scode bracket_map backref_map pruneorskip (atomcount + 1) inassert
                         else if is_typestar op then
                           Some (\<not> (opc code (scode + 1) \<noteq> OP_ANY \<or> bracket_map AND backref_map \<noteq> 0 \<or>
                                  atomcount > 0 \<or> pruneorskip \<or> inassert))
                         else Some (op = OP_CIRC \<or> op = OP_CIRCM)) in
                  (case inner of
                     None \<Rightarrow> None
                   | Some False \<Rightarrow> Some False
                   | Some True \<Rightarrow>
                       let n = p + GET code p 1 in
                       if n \<le> p then None
                       else if opc code n = OP_ALT
                       then is_startline code n bracket_map backref_map pruneorskip atomcount inassert
                       else Some True)))"
  by pat_completeness auto
termination
  by (relation "measure (\<lambda>(code, p, _). length code - p)")
    (auto simp: condition_start_def Let_def intro!: diff_less_mono2)

declare is_startline.simps [simp del]

text \<open>The first character that all branches assert: the character with its flags, which are -1
  (\<open>REQ_NONE\<close>), 0 or 1 (\<open>REQ_CASELESS\<close>).\<close>

abbreviation (input) REQ_NONE :: int where "REQ_NONE \<equiv> -1"
abbreviation (input) REQ_CASELESS :: int where "REQ_CASELESS \<equiv> 1"

definition is_first_group :: "nat \<Rightarrow> bool" where
  "is_first_group op \<longleftrightarrow> op \<in> {OP_BRA, OP_BRAPOS, OP_CBRA, OP_SCBRA, OP_CBRAPOS, OP_SCBRAPOS, OP_ASSERT,
     OP_ONCE, OP_ONCE_NC}"

function first_asserted ::
  "byte list \<Rightarrow> nat \<Rightarrow> bool \<Rightarrow> nat \<Rightarrow> int \<Rightarrow> (nat \<times> int) option"
where
  "first_asserted code p inassert c cflags =
    (case first_significant_code code
            (p + 1 + LINK_SIZE + (if is_cbra (opc code p) then IMM2_SIZE else 0)) True of
       None \<Rightarrow> None
     | Some scode \<Rightarrow>
         if \<not> (p < scode \<and> p < length code) then None
         else
           let op = opc code scode;
               literal = (\<lambda>q flags.
                 if \<not> inassert then None
                 else if cflags < 0 then Some (opc code (q + 1), flags)
                 else if c \<noteq> opc code (q + 1) then None else Some (c, cflags));
               r =
                 (if is_first_group op then
                    (case first_asserted code scode (op = OP_ASSERT) 0 REQ_NONE of
                       None \<Rightarrow> None
                     | Some (d, dflags) \<Rightarrow>
                         Some (if dflags < 0 then None
                               else if cflags < 0 then Some (d, dflags)
                               else if c \<noteq> d \<or> cflags \<noteq> dflags then None else Some (c, cflags)))
                  else if op = OP_EXACT then Some (literal (scode + IMM2_SIZE) 0)
                  else if op \<in> {OP_CHAR, OP_PLUS, OP_MINPLUS, OP_POSPLUS} then Some (literal scode 0)
                  else if op = OP_EXACTI then Some (literal (scode + IMM2_SIZE) REQ_CASELESS)
                  else if op \<in> {OP_CHARI, OP_PLUSI, OP_MINPLUSI, OP_POSPLUSI}
                    then Some (literal scode REQ_CASELESS)
                  else Some None) in
           (case r of
              None \<Rightarrow> None
            | Some None \<Rightarrow> Some (0, REQ_NONE)
            | Some (Some (c, cflags)) \<Rightarrow>
                let n = p + GET code p 1 in
                if n \<le> p then None
                else if opc code n = OP_ALT then first_asserted code n inassert c cflags
                else Some (c, cflags)))"
  by pat_completeness auto
termination
  by (relation "measure (\<lambda>(code, p, _). length code - p)")
    (auto intro!: diff_less_mono2)

declare first_asserted.simps [simp del]

definition find_firstassertedchar :: "byte list \<Rightarrow> nat \<Rightarrow> bool \<Rightarrow> (nat \<times> int) option" where
  "find_firstassertedchar code p inassert = first_asserted code p inassert 0 REQ_NONE"

end
