(* ===== verification/CodeLengths.thy ===== *)
theory CodeLengths
  imports CodeWalk
begin

text \<open>
  What compiled code can match, measured in characters: a nondeterministic semantics of the
  opcodes that keeps only the lengths. \<open>runs p e k\<close> says that control can go from \<open>p\<close> to \<open>e\<close> in
  one branch and match \<open>k\<close> characters on the way; \<open>body p k\<close> that the group at \<open>p\<close> can match \<open>k\<close>
  characters. It abstracts the matcher: tests of the subject may always succeed, assertions
  match nothing, and a group whose end repeats it may be run again.

  Against it \<open>find_fixedlength()\<close> is proved sound: a length that it answers is the length of
  every way through the branch. The hypotheses name the constructs for which that fails in the
  code; the last theorem shows it for conditional groups. The theories \<open>CodeEmpty\<close> and
  \<open>StudyLength\<close> rest on the same lengths.
\<close>

subsection \<open>Lengths of the simple items\<close>

text \<open>The number of times that a quantifier allows: its kind, as in the order \<open>STAR\<close>, \<open>MINSTAR\<close>,
  \<open>PLUS\<close>, ..., \<open>POSUPTO\<close> of the opcodes, and the number that stands behind it.\<close>

definition times :: "nat \<Rightarrow> nat \<Rightarrow> nat \<Rightarrow> bool" where
  "times rel n c \<longleftrightarrow>
    (if rel = 2 \<or> rel = 3 \<or> rel = 10 then 1 \<le> c
     else if rel = 4 \<or> rel = 5 \<or> rel = 11 then c \<le> 1
     else if rel = 6 \<or> rel = 7 \<or> rel = 12 then c \<le> n
     else if rel = 8 then c = n
     else True)"

text \<open>Quantifiers of classes and back references.\<close>

definition cr_times :: "byte list \<Rightarrow> nat \<Rightarrow> nat \<Rightarrow> bool" where
  "cr_times code q c \<longleftrightarrow>
    (let op = opc code q in
     if op = OP_CRPLUS \<or> op = OP_CRMINPLUS \<or> op = OP_CRPOSPLUS then 1 \<le> c
     else if op = OP_CRQUERY \<or> op = OP_CRMINQUERY \<or> op = OP_CRPOSQUERY then c \<le> 1
     else if op = OP_CRSTAR \<or> op = OP_CRMINSTAR \<or> op = OP_CRPOSSTAR then True
     else if op = OP_CRRANGE \<or> op = OP_CRMINRANGE \<or> op = OP_CRPOSRANGE then
       GET2 code q 1 \<le> c \<and> (GET2 code q (1 + IMM2_SIZE) = 0 \<or> c \<le> GET2 code q (1 + IMM2_SIZE))
     else c = 1)"

definition cr_next :: "byte list \<Rightarrow> nat \<Rightarrow> nat" where
  "cr_next code q =
    (let op = opc code q in
     if op = OP_CRRANGE \<or> op = OP_CRMINRANGE \<or> op = OP_CRPOSRANGE then q + 1 + 2 * IMM2_SIZE
     else if OP_CRSTAR \<le> op \<and> op \<le> OP_CRPOSRANGE then q + 1 else q)"

text \<open>\<open>c\<close> characters of a type: a newline sequence and a grapheme cluster may be longer.\<close>

definition type_length :: "nat \<Rightarrow> nat \<Rightarrow> nat \<Rightarrow> bool" where
  "type_length ty c k \<longleftrightarrow>
    (if ty = OP_ANYNL then c \<le> k \<and> k \<le> 2 * c
     else if ty = OP_EXTUNI then c \<le> k \<and> (c = 0 \<longrightarrow> k = 0)
     else k = c)"

text \<open>The opcode at \<open>p\<close>, of the simple items, may match \<open>k\<close> characters.\<close>

definition reference_ops :: "nat set" where
  "reference_ops = {OP_REF, OP_REFI, OP_DNREF, OP_DNREFI}"

definition item_length :: "byte list \<Rightarrow> nat \<Rightarrow> nat \<Rightarrow> bool" where
  "item_length code p k \<longleftrightarrow>
    (let op = opc code p in
     if op \<in> arg_ops \<or> op \<in> matchless_ops then k = 0
     else if op \<in> {OP_CHAR, OP_CHARI, OP_NOT, OP_NOTI} \<or> is_prop op \<or> op \<in> single_ops \<or> op = OP_ANYBYTE then k = 1
     else if op = OP_ANYNL \<or> op = OP_EXTUNI then type_length op 1 k
     else if OP_STAR \<le> op \<and> op \<le> OP_NOTPOSUPTOI then times ((op - OP_STAR) mod 13) (GET2 code p 1) k
     else if OP_TYPESTAR \<le> op \<and> op \<le> OP_TYPEPOSUPTO then
       (let rel = op - OP_TYPESTAR;
            r = (if rel = 6 \<or> rel = 7 \<or> rel = 8 \<or> rel = 12 then p + 1 + IMM2_SIZE else p + 1) in
        list_ex (\<lambda>c. times rel (GET2 code p 1) c \<and> type_length (opc code r) c k) [0..<Suc k])
     else if op = OP_XCLASS then cr_times code (p + GET code p 1) k
     else if op = OP_CLASS \<or> op = OP_NCLASS then cr_times code (p + op_length OP_CLASS) k
     else False)"

subsection \<open>Ways through the code\<close>

definition is_end :: "nat \<Rightarrow> bool" where
  "is_end op \<longleftrightarrow> op \<in> {OP_ALT, OP_KET, OP_KETRMAX, OP_KETRMIN, OP_KETRPOS}"

definition repeats :: "nat \<Rightarrow> bool" where
  "repeats op \<longleftrightarrow> op \<in> {OP_KETRMAX, OP_KETRMIN, OP_KETRPOS}"

definition is_group :: "nat \<Rightarrow> bool" where
  "is_group op \<longleftrightarrow> op \<in> {OP_BRA, OP_BRAPOS, OP_CBRA, OP_CBRAPOS, OP_ONCE, OP_ONCE_NC, OP_COND,
     OP_SBRA, OP_SBRAPOS, OP_SCBRA, OP_SCBRAPOS, OP_SCOND}"

definition is_assertion :: "nat \<Rightarrow> bool" where
  "is_assertion op \<longleftrightarrow> op \<in> {OP_ASSERT, OP_ASSERT_NOT, OP_ASSERTBACK, OP_ASSERTBACK_NOT}"

definition is_zero :: "nat \<Rightarrow> bool" where
  "is_zero op \<longleftrightarrow> op \<in> {OP_BRAZERO, OP_BRAMINZERO, OP_BRAPOSZERO, OP_SKIPZERO}"

text \<open>The end of the item at \<open>p\<close> as \<open>find_recurse()\<close> steps over it, and the position behind the
  item on its level: behind the quantifier of a class or back reference, behind the end of a
  group. \<open>OP_ACCEPT\<close>, with which a match ends in the midst of a branch, has none.\<close>

definition item_end :: "bool \<Rightarrow> byte list \<Rightarrow> nat \<Rightarrow> nat" where
  "item_end utf code p = (if opc code p = OP_XCLASS then p + GET code p 1 else skip_item utf code p)"

definition behind :: "byte list \<Rightarrow> nat \<Rightarrow> nat option" where
  "behind code p = (case skip_alts code p of None \<Rightarrow> None
     | Some ket \<Rightarrow> if is_end (opc code ket) then Some (ket + 1 + LINK_SIZE) else None)"

definition after :: "bool \<Rightarrow> byte list \<Rightarrow> nat \<Rightarrow> nat option" where
  "after utf code p =
    (let op = opc code p in
     if is_group op \<or> is_assertion op then behind code p
     else if is_zero op then behind code (p + 1)
     else if is_end op \<or> op \<in> {OP_END, OP_ACCEPT, OP_ASSERT_ACCEPT} then None
     else if op \<in> {OP_CLASS, OP_NCLASS, OP_XCLASS} \<or> op \<in> reference_ops
     then Some (cr_next code (item_end utf code p))
     else Some (item_end utf code p))"

text \<open>The first position of a branch whose bracket or \<open>OP_ALT\<close> is at \<open>a\<close>, and where it ends.\<close>

abbreviation branch_at :: "byte list \<Rightarrow> nat \<Rightarrow> nat" where
  "branch_at code a \<equiv> a + op_length (opc code a)"

abbreviation branch_end :: "byte list \<Rightarrow> nat \<Rightarrow> nat" where
  "branch_end code a \<equiv> a + GET code a 1"

text \<open>
  The groups in \<open>barred\<close> may not be called, and \<open>refs p\<close> are the groups to which the back
  reference at \<open>p\<close> leads; a reference to a group that is not set fails, or matches the empty
  string when \<open>js\<close> holds (\<open>PCRE_JAVASCRIPT_COMPAT\<close>). A reference matches as many characters as
  its group did: the length of some way through it.
\<close>

inductive alternative :: "byte list \<Rightarrow> nat \<Rightarrow> nat \<Rightarrow> bool" for code where
  first: "alternative code p p"
| next_alt: "alternative code p a \<Longrightarrow> opc code (branch_end code a) = OP_ALT \<Longrightarrow>
    alternative code p (branch_end code a)"

inductive runs :: "bool \<Rightarrow> byte list \<Rightarrow> nat \<Rightarrow> (nat \<Rightarrow> nat set) \<Rightarrow> bool \<Rightarrow> nat set \<Rightarrow> nat \<Rightarrow> nat \<Rightarrow> nat \<Rightarrow> bool"
  and item :: "bool \<Rightarrow> byte list \<Rightarrow> nat \<Rightarrow> (nat \<Rightarrow> nat set) \<Rightarrow> bool \<Rightarrow> nat set \<Rightarrow> nat \<Rightarrow> nat \<Rightarrow> bool"
  and body :: "bool \<Rightarrow> byte list \<Rightarrow> nat \<Rightarrow> (nat \<Rightarrow> nat set) \<Rightarrow> bool \<Rightarrow> nat set \<Rightarrow> nat \<Rightarrow> nat \<Rightarrow> bool"
  for utf code start refs js barred
where
  stop: "runs utf code start refs js barred p p 0"
| more: "item utf code start refs js barred p j \<Longrightarrow> after utf code p = Some q \<Longrightarrow>
    runs utf code start refs js barred q e k \<Longrightarrow> runs utf code start refs js barred p e (j + k)"
| simple: "item_length code p k \<Longrightarrow> item utf code start refs js barred p k"
| assertion: "is_assertion (opc code p) \<Longrightarrow> item utf code start refs js barred p 0"
| group: "is_group (opc code p) \<Longrightarrow> body utf code start refs js barred p k \<Longrightarrow>
    item utf code start refs js barred p k"
| none: "is_zero (opc code p) \<Longrightarrow> item utf code start refs js barred p 0"
| some: "is_zero (opc code p) \<Longrightarrow> opc code p \<noteq> OP_SKIPZERO \<Longrightarrow> body utf code start refs js barred (p + 1) k \<Longrightarrow>
    item utf code start refs js barred p k"
| call: "opc code p = OP_RECURSE \<Longrightarrow> start + GET code p 1 \<notin> barred \<Longrightarrow>
    body utf code start refs js barred (start + GET code p 1) k \<Longrightarrow> item utf code start refs js barred p k"
| reference: "opc code p \<in> reference_ops \<Longrightarrow> g \<in> refs p \<Longrightarrow> g \<notin> barred \<Longrightarrow>
    body utf code start refs js barred g k \<Longrightarrow> cr_times code (item_end utf code p) (Suc c) \<Longrightarrow>
    item utf code start refs js barred p (Suc c * k)"
| no_reference: "opc code p \<in> reference_ops \<Longrightarrow> js \<or> cr_times code (item_end utf code p) 0 \<Longrightarrow>
    item utf code start refs js barred p 0"
| one: "alternative code p a \<Longrightarrow>
    runs utf code start refs js barred (branch_at code a) (branch_end code a) k \<Longrightarrow>
    body utf code start refs js barred p k"
| again: "body utf code start refs js barred p j \<Longrightarrow> body utf code start refs js barred p k \<Longrightarrow>
    skip_alts code p = Some ket \<Longrightarrow> repeats (opc code ket) \<Longrightarrow>
    body utf code start refs js barred p (j + k)"
| implied: "opc code p = OP_COND \<or> opc code p = OP_SCOND \<Longrightarrow> opc code (branch_end code p) \<noteq> OP_ALT \<Longrightarrow>
    body utf code start refs js barred p 0"

subsection \<open>Linked code\<close>

text \<open>The starts of all items from \<open>p\<close> on, as the loop of \<open>find_recurse()\<close> meets them.\<close>

function item_starts :: "bool \<Rightarrow> byte list \<Rightarrow> nat \<Rightarrow> nat list" where
  "item_starts utf code p =
    (if opc code p \<noteq> OP_END \<and> p < item_end utf code p then p # item_starts utf code (item_end utf code p) else [p])"
  by pat_completeness auto
termination
  by (relation "measure (\<lambda>(_, code, p). length code - p)") (auto dest: opc_positive)

text \<open>The end of the branch through the position \<open>p\<close> on its level.\<close>

function level_end :: "bool \<Rightarrow> byte list \<Rightarrow> nat \<Rightarrow> nat option" where
  "level_end utf code p =
    (if is_end (opc code p) then Some p
     else (case after utf code p of None \<Rightarrow> None
       | Some q \<Rightarrow> if p < q \<and> p < length code then level_end utf code q else None))"
  by pat_completeness auto
termination
  by (relation "measure (\<lambda>(_, code, p). length code - p)") auto

declare item_starts.simps [simp del] level_end.simps [simp del]

text \<open>
  Every item leads to an item, the link of every bracket and \<open>OP_ALT\<close> to the end of its branch,
  and calls lead to groups. The compiler emits no other code, except for \<open>OP_ACCEPT\<close>, which is
  excluded here.
\<close>

definition linked_at :: "bool \<Rightarrow> byte list \<Rightarrow> nat \<Rightarrow> nat list \<Rightarrow> nat \<Rightarrow> bool" where
  "linked_at utf code start items p \<longleftrightarrow>
    (let op = opc code p in
     (case after utf code p of None \<Rightarrow> is_end op \<or> op = OP_END | Some q \<Rightarrow> p < q \<and> q \<in> set items) \<and>
     (if is_group op \<or> is_assertion op \<or> op = OP_ALT then
        branch_at code p \<in> set items \<and> level_end utf code (branch_at code p) = Some (branch_end code p)
      else if is_zero op then p + 1 \<in> set items \<and> is_group (opc code (p + 1))
      else if op = OP_RECURSE then start + GET code p 1 \<in> set items \<and> is_group (opc code (start + GET code p 1))
      else True))"

definition well_linked :: "bool \<Rightarrow> byte list \<Rightarrow> nat \<Rightarrow> bool" where
  "well_linked utf code start \<longleftrightarrow>
    list_all (linked_at utf code start (item_starts utf code start)) (item_starts utf code start)"

abbreviation item_set :: "bool \<Rightarrow> byte list \<Rightarrow> nat \<Rightarrow> nat set" where
  "item_set utf code start \<equiv> set (item_starts utf code start)"

lemma linked:
  assumes "well_linked utf code start" "p \<in> item_set utf code start"
  shows linked_after: "after utf code p = Some q \<Longrightarrow> p < q \<and> q \<in> item_set utf code start"
    and linked_end: "after utf code p = None \<Longrightarrow> is_end (opc code p) \<or> opc code p = OP_END"
    and linked_branch: "is_group (opc code p) \<or> is_assertion (opc code p) \<or> opc code p = OP_ALT \<Longrightarrow>
      branch_at code p \<in> item_set utf code start \<and> level_end utf code (branch_at code p) = Some (branch_end code p)"
    and linked_zero: "is_zero (opc code p) \<Longrightarrow> p + 1 \<in> item_set utf code start \<and> is_group (opc code (p + 1))"
    and linked_call: "opc code p = OP_RECURSE \<Longrightarrow>
      start + GET code p 1 \<in> item_set utf code start \<and> is_group (opc code (start + GET code p 1))"
proof -
  have z: "is_zero op \<Longrightarrow> \<not> (is_group op \<or> is_assertion op \<or> op = OP_ALT)" for op
    unfolding is_zero_def is_group_def is_assertion_def by (elim insertE emptyE) simp_all
  have r: "\<not> (is_group OP_RECURSE \<or> is_assertion OP_RECURSE \<or> OP_RECURSE = OP_ALT)" "\<not> is_zero OP_RECURSE"
    by (simp_all add: is_zero_def is_group_def is_assertion_def)
  have l: "linked_at utf code start (item_starts utf code start) p"
    using assms unfolding well_linked_def list_all_iff by blast
  note l = l [unfolded linked_at_def Let_def]
  show "after utf code p = Some q \<Longrightarrow> p < q \<and> q \<in> item_set utf code start"
    "after utf code p = None \<Longrightarrow> is_end (opc code p) \<or> opc code p = OP_END" using l by simp_all
  show "is_group (opc code p) \<or> is_assertion (opc code p) \<or> opc code p = OP_ALT \<Longrightarrow>
      branch_at code p \<in> item_set utf code start \<and> level_end utf code (branch_at code p) = Some (branch_end code p)"
    using l by (simp only: if_True)
  show "is_zero (opc code p) \<Longrightarrow> p + 1 \<in> item_set utf code start \<and> is_group (opc code (p + 1))"
    using l z by (simp only: if_True if_False)
  show "opc code p = OP_RECURSE \<Longrightarrow>
      start + GET code p 1 \<in> item_set utf code start \<and> is_group (opc code (start + GET code p 1))"
    using l r by (simp only: if_True if_False simp_thms)
qed

lemma level_end_is_end: "level_end utf code p = Some e \<Longrightarrow> is_end (opc code e)"
proof (induction utf code p rule: level_end.induct)
  case (1 utf code p)
  then show ?case by (subst (asm) level_end.simps) (auto split: if_splits option.splits)
qed

lemma level_end_item:
  "well_linked utf code start \<Longrightarrow> p \<in> item_set utf code start \<Longrightarrow> level_end utf code p = Some e \<Longrightarrow>
    e \<in> item_set utf code start"
proof (induction utf code p rule: level_end.induct)
  case (1 utf code p)
  show ?case
  proof (cases "is_end (opc code p)")
    case True
    with "1.prems" show ?thesis by (simp add: level_end.simps)
  next
    case False
    with "1.prems"(3) obtain q where q: "after utf code p = Some q" "p < q \<and> p < length code"
      "level_end utf code q = Some e"
      by (subst (asm) level_end.simps) (auto split: if_splits option.splits)
    with "1.IH" [OF False q(1,2)] linked_after [OF "1.prems"(1,2) q(1)] "1.prems"(1) show ?thesis by blast
  qed
qed

lemma alternative_item:
  assumes "well_linked utf code start" "alternative code g a"
    "g \<in> item_set utf code start" "is_group (opc code g)"
  shows "a \<in> item_set utf code start \<and> (is_group (opc code a) \<or> opc code a = OP_ALT)"
  using assms(2-)
proof (induction rule: alternative.induct)
  case (first p)
  then show ?case by simp
next
  case (next_alt p a)
  then show ?case using linked_branch [OF assms(1)] level_end_item [OF assms(1)] by blast
qed

lemma runs_item:
  assumes "well_linked utf code start"
  shows "runs utf code start refs js barred p e k \<Longrightarrow> p \<in> item_set utf code start \<Longrightarrow> e \<in> item_set utf code start"
proof (induction rule: runs_item_body.inducts(1) [of utf code start refs js barred _ _ _ _ "\<lambda>_ _. True" "\<lambda>_ _. True"])
qed (use linked_after [OF assms] in auto)

subsection \<open>A fixed length is the length of every way\<close>

text \<open>The constructs for which \<open>find_fixedlength()\<close> does not look at all ways: a conditional group
  without a second alternative, and an exact number of newline sequences or grapheme clusters.
  A subroutine call leads to a capturing group, and no class has the quantifier {0,0}.\<close>

definition fixed_at :: "bool \<Rightarrow> byte list \<Rightarrow> nat \<Rightarrow> nat \<Rightarrow> bool" where
  "fixed_at utf code start p \<longleftrightarrow>
    (let op = opc code p in
     if op = OP_COND then opc code (branch_end code p) = OP_ALT
     else if op = OP_TYPEEXACT then opc code (p + 1 + IMM2_SIZE) \<notin> {OP_ANYNL, OP_EXTUNI}
     else if op \<in> {OP_CRRANGE, OP_CRMINRANGE, OP_CRPOSRANGE} then
       \<not> (GET2 code p 1 = 0 \<and> GET2 code p (1 + IMM2_SIZE) = 0)
     else if op = OP_RECURSE then is_cbra (opc code (start + GET code p 1))
     else True)"

definition fixed_code :: "bool \<Rightarrow> byte list \<Rightarrow> nat \<Rightarrow> bool" where
  "fixed_code utf code start \<longleftrightarrow> list_all (fixed_at utf code start) (item_starts utf code start)"

lemmas op_sets = arg_ops_def matchless_ops_def single_ops_def variable_ops_def

lemma class_move_sound:
  assumes "class_move code r = Adds d q'" "cr_times code r k"
    "opc code r \<in> {OP_CRRANGE, OP_CRMINRANGE, OP_CRPOSRANGE} \<Longrightarrow>
      \<not> (GET2 code r 1 = 0 \<and> GET2 code r (1 + IMM2_SIZE) = 0)"
  shows "int k = d"
  using assms by (auto simp: class_move_def cr_times_def Let_def split: if_splits)

lemma class_move_next:
  assumes "class_move code r = Adds d q'"
  shows "cr_next code r = q'"
proof (cases "opc code r \<in> {OP_CRRANGE, OP_CRMINRANGE, OP_CRPOSRANGE}")
  case True
  with assms show ?thesis by (auto simp: class_move_def cr_next_def Let_def split: if_splits)
next
  case False
  then have "opc code r \<notin> {OP_CRSTAR, OP_CRMINSTAR, OP_CRPLUS, OP_CRMINPLUS, OP_CRQUERY, OP_CRMINQUERY,
              OP_CRPOSSTAR, OP_CRPOSPLUS, OP_CRPOSQUERY}" "q' = r"
    using assms by (auto simp: class_move_def Let_def split: if_splits)
  moreover from this False have "\<not> (OP_CRSTAR \<le> opc code r \<and> opc code r \<le> OP_CRPOSRANGE)"
    by simp presburger
  ultimately show ?thesis using False by (auto simp: cr_next_def Let_def)
qed

lemmas skip_defs = item_end_def skip_item_def type_repeat_ops_def type_count_ops_def has_char_arg_def

lemma fixed_item_cases:
  assumes "fixed_item utf code p = Adds d q'"
  obtains "opc code p \<in> arg_ops" | "opc code p \<in> matchless_ops"
    | "opc code p \<in> {OP_CHAR, OP_CHARI, OP_NOT, OP_NOTI}"
    | "opc code p \<in> {OP_EXACT, OP_EXACTI, OP_NOTEXACT, OP_NOTEXACTI}" | "opc code p = OP_TYPEEXACT"
    | "is_prop (opc code p)" | "opc code p \<in> single_ops" | "opc code p = OP_XCLASS"
    | "opc code p = OP_CLASS \<or> opc code p = OP_NCLASS"
  using assms that unfolding fixed_item_def Let_def by (simp split: if_splits)

text \<open>What the walk of the analysis steps over is the item.\<close>

lemma op_length_values:
  "op_length OP_CHAR = 2" "op_length OP_CHARI = 2" "op_length OP_NOT = 2" "op_length OP_NOTI = 2"
  "op_length OP_EXACT = 4" "op_length OP_EXACTI = 4" "op_length OP_NOTEXACT = 4" "op_length OP_NOTEXACTI = 4"
  "op_length OP_TYPEEXACT = 4" "op_length OP_PROP = 3" "op_length OP_NOTPROP = 3" "op_length OP_XCLASS = 0"
  "op_length OP_CLASS = 33" "op_length OP_NCLASS = 33" "op_length OP_RECURSE = 3" "op_length OP_ALT = 3"
  "op_length OP_REF = 3" "op_length OP_REFI = 3" "op_length OP_DNREF = 5" "op_length OP_DNREFI = 5"
  by (simp_all add: op_length_def OP_lengths_def nth_default_def)

lemma single_length: "op \<in> single_ops \<Longrightarrow> op_length op = 1"
  unfolding single_ops_def by (elim insertE emptyE) (simp_all add: op_length_def OP_lengths_def nth_default_def)

lemma after_simple:
  assumes "\<not> is_group (opc code p)" "\<not> is_assertion (opc code p)" "\<not> is_zero (opc code p)" "\<not> is_end (opc code p)"
    "opc code p \<notin> {OP_END, OP_ACCEPT, OP_ASSERT_ACCEPT}"
  shows "after utf code p = Some (if opc code p \<in> {OP_CLASS, OP_NCLASS, OP_XCLASS} \<or> opc code p \<in> reference_ops
    then cr_next code (item_end utf code p) else item_end utf code p)"
  using assms unfolding after_def Let_def by (simp only: if_True if_False simp_thms) simp

lemma fixed_item_plain:
  assumes "fixed_item utf code p = Adds d q'"
  shows "\<not> is_group (opc code p)" "\<not> is_assertion (opc code p)" "\<not> is_zero (opc code p)" "\<not> is_end (opc code p)"
    "opc code p \<notin> {OP_END, OP_ACCEPT, OP_ASSERT_ACCEPT}" "opc code p \<notin> reference_ops"
  using assms by (cases rule: fixed_item_cases;
      auto simp: op_sets is_prop_def is_group_def is_assertion_def is_zero_def is_end_def reference_ops_def)+

lemma fixed_item_end:
  assumes "fixed_item utf code p = Adds d q'" "opc code p \<notin> {OP_CLASS, OP_NCLASS, OP_XCLASS}"
  shows "item_end utf code p = q'"
  using assms(1)
proof (cases rule: fixed_item_cases)
  case 1
  then show ?thesis using assms(1) unfolding arg_ops_def
    by (elim insertE emptyE) (simp_all add: fixed_item_def skip_defs arg_ops_def)
next
  case 2
  then show ?thesis using assms(1) unfolding matchless_ops_def
    by (elim insertE emptyE) (simp_all add: fixed_item_def skip_defs matchless_ops_def arg_ops_def)
next
  case 3
  then show ?thesis using assms(1)
    by (elim insertE emptyE) (simp_all add: fixed_item_def skip_defs op_sets over_char_def op_length_values split: if_splits)
next
  case 4
  have "4 = Suc (Suc (Suc (Suc 0)))" by simp
  with 4 show ?thesis using assms(1)
    by (elim insertE emptyE) (simp_all add: fixed_item_def skip_defs op_sets over_char_def op_length_values
      Let_def numeral_3_eq_3 split: if_splits, auto)
next
  case 5
  then show ?thesis using assms(1)
    by (simp add: fixed_item_def skip_defs op_sets is_prop_def op_length_values split: if_splits)
next
  case 6
  then show ?thesis using assms(1)
    by (auto simp add: fixed_item_def skip_defs op_sets is_prop_def op_length_values)
next
  case 7
  then show ?thesis using assms(1) single_length [OF 7] unfolding single_ops_def
    by (elim insertE emptyE) (simp_all add: fixed_item_def skip_defs op_sets is_prop_def)
qed (use assms(2) in simp_all)

lemma fixed_item_after:
  assumes "fixed_item utf code p = Adds d q'"
  shows "after utf code p = Some q'"
proof -
  note after = after_simple [OF fixed_item_plain(1-5) [OF assms], of utf] and nref = fixed_item_plain(6) [OF assms]
  show ?thesis
  proof (cases "opc code p \<in> {OP_CLASS, OP_NCLASS, OP_XCLASS}")
    case True
    then have "class_move code (item_end utf code p) = Adds d q'"
      using assms by (elim insertE emptyE) (simp_all add: fixed_item_def skip_defs op_sets is_prop_def op_length_values)
    then have n: "cr_next code (item_end utf code p) = q'" by (rule class_move_next)
    from True have "opc code p \<in> {OP_CLASS, OP_NCLASS, OP_XCLASS} \<or> opc code p \<in> reference_ops" ..
    with after n show ?thesis by (simp only: if_True)
  next
    case False
    with fixed_item_end [OF assms] have "item_end utf code p = q'" .
    moreover from False nref have "\<not> (opc code p \<in> {OP_CLASS, OP_NCLASS, OP_XCLASS} \<or> opc code p \<in> reference_ops)"
      by blast
    ultimately show ?thesis using after by (simp only: if_False)
  qed
qed

lemma fixed_codeD:
  assumes "fixed_code utf code start" "p \<in> item_set utf code start"
  shows "opc code p = OP_COND \<Longrightarrow> opc code (branch_end code p) = OP_ALT"
    "opc code p = OP_TYPEEXACT \<Longrightarrow> opc code (p + 1 + IMM2_SIZE) \<notin> {OP_ANYNL, OP_EXTUNI}"
    "opc code p = OP_RECURSE \<Longrightarrow> is_cbra (opc code (start + GET code p 1))"
    "opc code p \<in> {OP_CRRANGE, OP_CRMINRANGE, OP_CRPOSRANGE} \<Longrightarrow>
       \<not> (GET2 code p 1 = 0 \<and> GET2 code p (1 + IMM2_SIZE) = 0)"
  using assms unfolding fixed_code_def list_all_iff fixed_at_def Let_def by (auto split: if_splits)

text \<open>The quantifier behind a class is an item of the walk, too.\<close>

lemma item_end_item:
  assumes "p \<in> item_set utf code q" "opc code p \<noteq> OP_END" "p < item_end utf code p"
  shows "item_end utf code p \<in> item_set utf code q"
  using assms
proof (induction utf code q rule: item_starts.induct)
  case (1 utf code q)
  show ?case
  proof (cases "opc code q \<noteq> OP_END \<and> q < item_end utf code q")
    case True
    with 1 show ?thesis
      by (subst item_starts.simps, subst (asm) item_starts.simps)
        (auto simp: item_starts.simps [of utf code "item_end utf code q"])
  next
    case False
    with "1.prems" show ?thesis by (subst (asm) item_starts.simps) (auto split: if_splits)
  qed
qed

lemma fixed_item_sound:
  assumes "fixed_item utf code p = Adds d q'" "item_length code p k" "fixed_code utf code start"
    "p \<in> item_set utf code start" "p < item_end utf code p"
  shows "int k = d"
  using assms(1)
proof (cases rule: fixed_item_cases)
  case 5
  with assms(1,2) fixed_codeD(2) [OF assms(3,4) 5] show ?thesis
    by (auto simp: fixed_item_def item_length_def op_sets is_prop_def times_def type_length_def list_ex_iff)
next
  case 8
  then have r: "item_end utf code p = p + GET code p 1" by (simp add: item_end_def)
  have "p + GET code p 1 \<in> item_set utf code start"
    using item_end_item [OF assms(4) _ assms(5)] 8 unfolding r by simp
  with 8 assms(1,2) fixed_codeD(4) [OF assms(3) this] show ?thesis
    by (intro class_move_sound [of code "p + GET code p 1" d q'])
      (simp_all add: fixed_item_def item_length_def op_sets is_prop_def)
next
  case 9
  then have r: "item_end utf code p = p + op_length OP_CLASS" by (auto simp: skip_defs op_sets op_length_values)
  have "p + op_length OP_CLASS \<in> item_set utf code start"
    using item_end_item [OF assms(4) _ assms(5)] 9 unfolding r by auto
  with 9 assms(1,2) fixed_codeD(4) [OF assms(3) this] show ?thesis
    by (intro class_move_sound [of code "p + op_length OP_CLASS" d q'])
      (auto simp: fixed_item_def item_length_def op_sets is_prop_def)
qed (use assms in \<open>auto simp: fixed_item_def item_length_def op_sets is_prop_def times_def\<close>)

text \<open>The turns of the loop.\<close>

definition loop_ops :: "nat set" where
  "loop_ops = {OP_CBRA, OP_BRA, OP_ONCE, OP_ONCE_NC, OP_COND, OP_ALT, OP_KET, OP_END,
    OP_ACCEPT, OP_ASSERT_ACCEPT, OP_RECURSE, OP_ASSERT, OP_ASSERT_NOT, OP_ASSERTBACK, OP_ASSERTBACK_NOT}"

lemma fixed_default:
  assumes "opc code p \<notin> loop_ops"
  shows "fixed_loop code utf atend start recs p len bl =
    (case fixed_item utf code p of Returns r \<Rightarrow> Some r | Adds d q \<Rightarrow>
       if q \<le> p then None else if in_int (bl + d) then fixed_loop code utf atend start recs q len (bl + d)
       else None)"
proof -
  have "opc code p \<notin> {OP_CBRA, OP_BRA, OP_ONCE, OP_ONCE_NC, OP_COND}"
    "opc code p \<notin> {OP_ALT, OP_KET, OP_END, OP_ACCEPT, OP_ASSERT_ACCEPT}" "opc code p \<noteq> OP_RECURSE"
    "opc code p \<notin> {OP_ASSERT, OP_ASSERT_NOT, OP_ASSERTBACK, OP_ASSERTBACK_NOT}"
    using assms unfolding loop_ops_def by blast+
  then show ?thesis
    by (subst fixed_loop.simps) (simp only: Let_def if_False)
qed

lemma fixed_group:
  assumes "opc code p \<in> {OP_CBRA, OP_BRA, OP_ONCE, OP_ONCE_NC, OP_COND}"
  shows "fixed_loop code utf atend start recs p len bl =
    (case fixed_loop code utf atend start recs (branch_at code p) (-1) 0 of
       None \<Rightarrow> None
     | Some d \<Rightarrow> if d < 0 then Some d
         else (case skip_alts code p of None \<Rightarrow> None
           | Some ket \<Rightarrow> if in_int (bl + d)
               then fixed_loop code utf atend start recs (ket + 1 + LINK_SIZE) len (bl + d) else None))"
proof -
  have "p + (if opc code p = OP_CBRA then IMM2_SIZE else 0) + 1 + LINK_SIZE = branch_at code p"
    using assms by (auto simp: op_length_def OP_lengths_def nth_default_def)
  then show ?thesis
    by (subst fixed_loop.simps) (simp only: Let_def assms if_True)
qed

lemma fixed_at_group:
  assumes "fixed_loop code utf atend start recs p len bl = Some n" "0 \<le> n" "is_group (opc code p)"
    "after utf code p = Some q"
  shows "opc code p \<noteq> OP_SCOND \<and>
    (\<exists>d. fixed_loop code utf atend start recs (branch_at code p) (-1) 0 = Some d \<and> 0 \<le> d \<and>
    fixed_loop code utf atend start recs q len (bl + d) = Some n)"
proof (cases "opc code p \<in> {OP_CBRA, OP_BRA, OP_ONCE, OP_ONCE_NC, OP_COND}")
  case True
  then have "opc code p \<noteq> OP_SCOND" by auto
  moreover obtain ket where "skip_alts code p = Some ket" "q = ket + 1 + LINK_SIZE"
    using assms(3,4) by (auto simp: after_def behind_def split: option.splits if_splits)
  ultimately show ?thesis using assms(1,2)
    unfolding fixed_group [OF True] by (auto split: option.splits if_splits)
next
  case False
  with assms(3) have g: "opc code p \<in> {OP_BRAPOS, OP_CBRAPOS, OP_SBRA, OP_SBRAPOS, OP_SCBRA, OP_SCBRAPOS, OP_SCOND}"
    unfolding is_group_def by blast
  then have "fixed_item utf code p = Returns (-1)"
    by (elim insertE emptyE) (simp_all add: fixed_item_def op_sets is_prop_def)
  moreover have "opc code p \<notin> loop_ops" using g by (elim insertE emptyE) (simp_all add: loop_ops_def)
  ultimately show ?thesis using assms(1,2) by (simp add: fixed_default)
qed

lemma fixed_at_end:
  assumes "fixed_loop code utf atend start recs p len bl = Some n" "0 \<le> n" "is_end (opc code p)"
  shows "\<not> repeats (opc code p) \<and> (len < 0 \<or> len = bl) \<and>
    (if opc code p = OP_ALT then fixed_loop code utf atend start recs (branch_at code p) bl 0 = Some n
     else n = bl)"
proof (cases "repeats (opc code p)")
  case True
  then have "opc code p \<notin> loop_ops" "fixed_item utf code p = Returns (-1)"
    unfolding repeats_def
    by (elim insertE emptyE; simp add: loop_ops_def fixed_item_def op_sets is_prop_def)+
  with assms show ?thesis by (simp add: fixed_default)
next
  case False
  with assms(3) have "opc code p = OP_ALT \<or> opc code p = OP_KET" by (auto simp: is_end_def repeats_def)
  then have "fixed_loop code utf atend start recs p len bl =
    (if \<not> len < 0 \<and> len \<noteq> bl then Some (-1)
     else let len = (if len < 0 then bl else len) in
       if opc code p \<noteq> OP_ALT then Some len
       else fixed_loop code utf atend start recs (p + 1 + LINK_SIZE) len 0)"
    by (subst fixed_loop.simps) auto
  with assms(1,2) False show ?thesis by (auto simp: Let_def op_length_values numeral_3_eq_3 split: if_splits)
qed

lemma fixed_at_assertion:
  assumes "fixed_loop code utf atend start recs p len bl = Some n" "is_assertion (opc code p)"
    "after utf code p = Some q"
  shows "fixed_loop code utf atend start recs q len bl = Some n"
proof -
  have "opc code p \<notin> {OP_CBRA, OP_BRA, OP_ONCE, OP_ONCE_NC, OP_COND}"
    "opc code p \<notin> {OP_ALT, OP_KET, OP_END, OP_ACCEPT, OP_ASSERT_ACCEPT}" "opc code p \<noteq> OP_RECURSE"
    "opc code p \<in> {OP_ASSERT, OP_ASSERT_NOT, OP_ASSERTBACK, OP_ASSERTBACK_NOT}"
    using assms(2) unfolding is_assertion_def by (elim insertE emptyE; simp)+
  then have "fixed_loop code utf atend start recs p len bl =
    (case skip_alts code p of None \<Rightarrow> None
     | Some ket \<Rightarrow> fixed_loop code utf atend start recs (ket + 1 + LINK_SIZE) len bl)"
    by (subst fixed_loop.simps) (simp only: Let_def if_False if_True)
  with assms show ?thesis by (auto simp: after_def behind_def split: option.splits if_splits)
qed

lemma fixed_at_call:
  assumes "fixed_loop code utf atend start recs p len bl = Some n" "0 \<le> n" "opc code p = OP_RECURSE"
    "is_cbra (opc code (start + GET code p 1))" "after utf code p = Some q"
  shows "\<exists>d recs'. fixed_loop code utf atend start recs' (branch_at code (start + GET code p 1)) (-1) 0 = Some d \<and>
    0 \<le> d \<and> fixed_loop code utf atend start recs q len (bl + d) = Some n"
proof -
  let ?cs = "start + GET code p 1"
  have b: "?cs + IMM2_SIZE + 1 + LINK_SIZE = branch_at code ?cs"
    using assms(4) by (auto simp: is_cbra_def op_length_def OP_lengths_def nth_default_def)
  have q: "q = p + 1 + LINK_SIZE"
    using assms(5,3) by (simp add: after_def is_group_def is_assertion_def is_zero_def is_end_def reference_ops_def
        skip_defs arg_ops_def op_length_values)
  have "fixed_loop code utf atend start recs p len bl =
    (if \<not> atend then Some (-3)
     else (case skip_alts code ?cs of None \<Rightarrow> None
       | Some ce \<Rightarrow> if p > ?cs \<and> p < ce then Some (-1)
           else if ?cs \<in> set recs then Some (-1)
           else (case fixed_loop code utf atend start (?cs # recs) (branch_at code ?cs) (-1) 0 of
               None \<Rightarrow> None
             | Some d \<Rightarrow> if d < 0 then Some d
                 else if in_int (bl + d)
                 then fixed_loop code utf atend start recs (p + 1 + LINK_SIZE) len (bl + d) else None)))"
  proof -
    have "opc code p \<notin> {OP_CBRA, OP_BRA, OP_ONCE, OP_ONCE_NC, OP_COND}"
      "opc code p \<notin> {OP_ALT, OP_KET, OP_END, OP_ACCEPT, OP_ASSERT_ACCEPT}"
      "(opc code p = OP_RECURSE) = True" by (simp_all add: assms(3))
    then show ?thesis
      by (subst fixed_loop.simps) (simp only: Let_def if_False if_True b)
  qed
  with assms(1,2) show ?thesis unfolding q by (auto split: if_splits option.splits)
qed

text \<open>Items with more than one way make the function give up.\<close>

lemma fixed_gives_up:
  assumes "is_zero (opc code p) \<or> opc code p \<in> reference_ops"
    "fixed_loop code utf atend start recs p len bl = Some n"
  shows "n < 0"
proof -
  have "fixed_item utf code p = Returns (-1)" "opc code p \<notin> loop_ops"
    using assms(1) unfolding is_zero_def reference_ops_def
    by (elim disjE insertE emptyE; simp add: fixed_item_def op_sets is_prop_def loop_ops_def)+
  with assms(2) show ?thesis by (simp add: fixed_default)
qed

lemma fixed_at_simple:
  assumes "fixed_loop code utf atend start recs p len bl = Some n" "0 \<le> n"
    "opc code p \<notin> loop_ops" "after utf code p = Some q"
  shows "\<exists>d. fixed_item utf code p = Adds d q \<and> fixed_loop code utf atend start recs q len (bl + d) = Some n"
proof (cases "fixed_item utf code p")
  case (Adds d q')
  with fixed_item_after [OF Adds] assms(1,4) show ?thesis
    by (simp add: fixed_default [OF assms(3)] split: if_splits)
next
  case (Returns r)
  then have "r < 0"
    by (auto simp: fixed_item_def class_move_def Let_def split: if_splits)
  with assms(1,2) Returns show ?thesis by (simp add: fixed_default [OF assms(3)])
qed

lemma fixed_loop_length:
  "fixed_loop code utf atend start recs p len bl = Some n \<Longrightarrow> 0 \<le> n \<Longrightarrow> 0 \<le> len \<Longrightarrow> n = len"
proof (induction code utf atend start recs p len bl rule: fixed_loop.induct)
  case (1 code utf atend start recs p len bl)
  let ?G = "{OP_CBRA, OP_BRA, OP_ONCE, OP_ONCE_NC, OP_COND}" and ?A = "{OP_ASSERT, OP_ASSERT_NOT, OP_ASSERTBACK, OP_ASSERTBACK_NOT}"
    and ?E = "{OP_ALT, OP_KET, OP_END, OP_ACCEPT, OP_ASSERT_ACCEPT}"
  note eq = "1.prems"(1) [unfolded fixed_loop.simps [of code utf atend start recs p len bl] Let_def]
  consider (g) "opc code p \<in> ?G" | (e) "opc code p \<notin> ?G" "opc code p \<in> ?E"
    | (r) "opc code p \<notin> ?G" "opc code p \<notin> ?E" "opc code p = OP_RECURSE"
    | (a) "opc code p \<notin> ?G" "opc code p \<notin> ?E" "opc code p \<noteq> OP_RECURSE" "opc code p \<in> ?A"
    | (d) "opc code p \<notin> ?G" "opc code p \<notin> ?E" "opc code p \<noteq> OP_RECURSE" "opc code p \<notin> ?A" by blast
  then show ?case
  proof cases
    case g
    let ?q = "p + (if opc code p = OP_CBRA then IMM2_SIZE else 0) + 1 + LINK_SIZE"
    from eq g obtain d ket where "fixed_loop code utf atend start recs ?q (-1) 0 = Some d" "\<not> d < 0"
      "skip_alts code p = Some ket" "in_int (bl + d)"
      "fixed_loop code utf atend start recs (ket + 1 + LINK_SIZE) len (bl + d) = Some n"
      using "1.prems"(2) by (simp only: if_True split: option.splits if_splits) auto
    from "1.IH"(2) [OF refl g this "1.prems"(2,3)] show ?thesis .
  next
    case e
    have "\<not> (\<not> len < 0 \<and> len \<noteq> bl)"
      using eq e "1.prems"(2) by (auto simp only: if_True if_False split: if_splits)
    moreover from this "1.prems"(3) have len: "len = bl" "\<not> len < 0" by auto
    ultimately show ?thesis
    proof (cases "opc code p = OP_ALT")
      case True
      with eq e len have "fixed_loop code utf atend start recs (p + 1 + LINK_SIZE) len 0 = Some n"
        by (simp only: if_True if_False not_True_eq_False simp_thms)
      with "1.IH"(3) [OF refl e(1,2) _ refl, of] True len "1.prems"(2,3) show ?thesis by simp
    next
      case False
      with eq e len show ?thesis by (simp only: if_True if_False not_False_eq_True simp_thms option.inject)
    qed
  next
    case r
    let ?cs = "start + GET code p 1"
    have at: "atend" using eq r "1.prems"(2) by (auto simp only: if_True if_False split: if_splits)
    from eq r at obtain ce d where "skip_alts code ?cs = Some ce" "\<not> (?cs < p \<and> p < ce)" "?cs \<notin> set recs"
      "fixed_loop code utf atend start (?cs # recs) (?cs + IMM2_SIZE + 1 + LINK_SIZE) (-1) 0 = Some d" "\<not> d < 0"
      "in_int (bl + d)" "fixed_loop code utf atend start recs (p + 1 + LINK_SIZE) len (bl + d) = Some n"
      using "1.prems"(2)
      by (simp only: if_True if_False not_True_eq_False split: option.splits if_splits) auto
    from "1.IH"(5) [OF refl r(1,2) r(3) _ refl this "1.prems"(2,3)] at show ?thesis by simp
  next
    case a
    from eq a obtain ket where "skip_alts code p = Some ket"
      "fixed_loop code utf atend start recs (ket + 1 + LINK_SIZE) len bl = Some n"
      by (simp only: if_True if_False split: option.splits) auto
    from "1.IH"(6) [OF refl a this "1.prems"(2,3)] show ?thesis .
  next
    case d
    have "r < 0" if "fixed_item utf code p = Returns r" for r
      using that by (auto simp: fixed_item_def class_move_def Let_def split: if_splits)
    with eq d obtain x q where "fixed_item utf code p = Adds x q" "\<not> q \<le> p" "in_int (bl + x)"
      "fixed_loop code utf atend start recs q len (bl + x) = Some n"
      using "1.prems"(2) by (simp only: if_False split: fixed_move.splits if_splits) auto
    from "1.IH"(7) [OF refl d this "1.prems"(2,3)] show ?thesis .
  qed
qed

text \<open>The loop goes on behind every item, so it comes to the end of the branch.\<close>

lemma fixed_step:
  assumes "fixed_loop code utf atend start recs p len bl = Some n" "0 \<le> n" "after utf code p = Some q"
    "fixed_code utf code start" "p \<in> item_set utf code start"
  shows "\<exists>bl. fixed_loop code utf atend start recs q len bl = Some n"
proof -
  consider "is_group (opc code p)" | "is_assertion (opc code p)"
    | "is_zero (opc code p) \<or> opc code p \<in> reference_ops" | "opc code p = OP_RECURSE" | "opc code p \<notin> loop_ops"
  proof -
    have "opc code p \<notin> {OP_ALT, OP_KET, OP_END, OP_ACCEPT, OP_ASSERT_ACCEPT}"
    proof
      assume "opc code p \<in> {OP_ALT, OP_KET, OP_END, OP_ACCEPT, OP_ASSERT_ACCEPT}"
      then show False
        by (elim insertE emptyE) (use assms(3) in
          \<open>simp_all add: is_group_def is_assertion_def after_def is_end_def is_zero_def\<close>)
    qed
    moreover have "opc code p \<in> {OP_CBRA, OP_BRA, OP_ONCE, OP_ONCE_NC, OP_COND} \<Longrightarrow> is_group (opc code p)"
      unfolding is_group_def by blast
    ultimately show thesis using that unfolding loop_ops_def is_assertion_def by blast
  qed
  then show ?thesis
  proof cases
    case 1
    from fixed_at_group [OF assms(1,2) 1 assms(3)] show ?thesis by blast
  next
    case 2
    from fixed_at_assertion [OF assms(1) 2 assms(3)] show ?thesis by blast
  next
    case 3
    from fixed_gives_up [OF 3 assms(1)] assms(2) show ?thesis by simp
  next
    case 4
    from fixed_at_call [OF assms(1,2) 4 fixed_codeD(3) [OF assms(4,5) 4] assms(3)] show ?thesis by blast
  next
    case 5
    from fixed_at_simple [OF assms(1,2) 5 assms(3)] show ?thesis by blast
  qed
qed

lemma fixed_reaches:
  "level_end utf code p = Some e \<Longrightarrow> fixed_loop code utf atend start recs p len bl = Some n \<Longrightarrow> 0 \<le> n \<Longrightarrow>
    well_linked utf code start \<Longrightarrow> fixed_code utf code start \<Longrightarrow> p \<in> item_set utf code start \<Longrightarrow>
    \<exists>bl. fixed_loop code utf atend start recs e len bl = Some n"
proof (induction utf code p arbitrary: bl rule: level_end.induct)
  case (1 utf code p)
  show ?case
  proof (cases "is_end (opc code p)")
    case True
    with "1.prems" show ?thesis by (auto simp: level_end.simps)
  next
    case False
    with "1.prems"(1) obtain q where q: "after utf code p = Some q" "p < q \<and> p < length code"
      "level_end utf code q = Some e"
      by (subst (asm) level_end.simps) (auto split: if_splits option.splits)
    from fixed_step [OF "1.prems"(2,3) q(1) "1.prems"(5,6)] obtain bl
      where "fixed_loop code utf atend start recs q len bl = Some n" ..
    from "1.IH" [OF False q this "1.prems"(3,4,5)] linked_after [OF "1.prems"(4,6) q(1)] show ?thesis by blast
  qed
qed

lemma fixed_alternative:
  assumes "well_linked utf code start" "fixed_code utf code start" "0 \<le> n" "alternative code g a"
    "g \<in> item_set utf code start" "is_group (opc code g)"
    "fixed_loop code utf atend start recs (branch_at code g) (-1) 0 = Some n"
  shows "\<exists>len. (len < 0 \<or> len = n) \<and> fixed_loop code utf atend start recs (branch_at code a) len 0 = Some n"
  using assms(4-)
proof (induction rule: alternative.induct)
  case (first p)
  then show ?case by (intro exI [of _ "-1"]) simp
next
  case (next_alt p a)
  then obtain len where l: "len < 0 \<or> len = n" "fixed_loop code utf atend start recs (branch_at code a) len 0 = Some n"
    by blast
  have a: "a \<in> item_set utf code start" "is_group (opc code a) \<or> is_assertion (opc code a) \<or> opc code a = OP_ALT"
    using alternative_item [OF assms(1) next_alt.hyps(1) next_alt.prems(1,2)] by blast+
  note b = linked_branch [OF assms(1) a]
  from fixed_reaches [OF conjunct2 [OF b] l(2) assms(3,1,2) conjunct1 [OF b]] obtain bl where
    e: "fixed_loop code utf atend start recs (branch_end code a) len bl = Some n" ..
  have "is_end (opc code (branch_end code a))" using next_alt.hyps(2) by (simp add: is_end_def)
  from fixed_at_end [OF e assms(3) this] next_alt.hyps(2)
  have f: "fixed_loop code utf atend start recs (branch_at code (branch_end code a)) bl 0 = Some n" by simp
  have "bl < 0 \<or> bl = n" using fixed_loop_length [OF f assms(3)] by force
  with f show ?case by blast
qed

text \<open>The length that the loop answers is the one of every way.\<close>

lemma last_alternative:
  "skip_alts code g = Some ket \<Longrightarrow> alternative code p g \<Longrightarrow> \<exists>a. alternative code p a \<and> branch_end code a = ket"
proof (induction code g rule: skip_alts.induct)
  case (1 code g)
  show ?case
  proof (cases "opc code (branch_end code g) = OP_ALT")
    case True
    with 1 alternative.next_alt show ?thesis
      by (subst (asm) (2) skip_alts.simps) (auto simp: Let_def split: if_splits)
  next
    case False
    with 1 show ?thesis by (subst (asm) (2) skip_alts.simps) (auto simp: Let_def split: if_splits)
  qed
qed

lemma item_end_after:
  assumes "after utf code p = Some q" "p < q" "\<not> is_group (opc code p)" "\<not> is_assertion (opc code p)"
    "\<not> is_zero (opc code p)" "opc code p \<notin> reference_ops"
  shows "p < item_end utf code p"
proof (cases "opc code p \<in> {OP_CLASS, OP_NCLASS, OP_XCLASS}")
  case True
  then consider "opc code p = OP_XCLASS" | "opc code p = OP_CLASS \<or> opc code p = OP_NCLASS" by blast
  then show ?thesis
  proof cases
    case 1
    then have "after utf code p = Some (cr_next code (p + GET code p 1))"
      by (simp add: after_def item_end_def is_group_def is_assertion_def is_zero_def is_end_def)
    moreover have "cr_next code p = p" using 1 by (simp add: cr_next_def)
    ultimately show ?thesis using 1 assms(1,2) by (cases "GET code p 1") (simp_all add: item_end_def)
  next
    case 2
    then show ?thesis by (elim disjE) (simp_all add: skip_defs arg_ops_def op_length_values)
  qed
next
  case False
  have "\<not> is_end (opc code p) \<and> opc code p \<notin> {OP_END, OP_ACCEPT, OP_ASSERT_ACCEPT}"
    using assms unfolding after_def Let_def by (simp only: if_False simp_thms split: if_splits; simp)
  then have "after utf code p = Some (item_end utf code p)"
    using False assms(3-6) unfolding after_def Let_def by (simp only: if_False simp_thms)
  with assms(1,2) show ?thesis by simp
qed

lemma item_length_ops: "item_length code p k \<Longrightarrow> opc code p \<notin> loop_ops"
proof
  assume "opc code p \<in> loop_ops" and i: "item_length code p k"
  then show False unfolding loop_ops_def
    by (elim insertE emptyE) (use i in \<open>simp_all add: item_length_def op_sets is_prop_def\<close>)
qed


lemma fixed_sound:
  assumes ok: "well_linked utf code start" "fixed_code utf code start"
  shows runs_fixed: "runs utf code start refs js barred p e k \<Longrightarrow> 0 \<le> n \<Longrightarrow> p \<in> item_set utf code start \<Longrightarrow>
      fixed_loop code utf atend start recs p len bl = Some n \<Longrightarrow>
      fixed_loop code utf atend start recs e len (bl + int k) = Some n"
    and item_fixed: "item utf code start refs js barred p k \<Longrightarrow> 0 \<le> n \<Longrightarrow> p \<in> item_set utf code start \<Longrightarrow>
      after utf code p = Some q \<Longrightarrow> fixed_loop code utf atend start recs p len bl = Some n \<Longrightarrow>
      fixed_loop code utf atend start recs q len (bl + int k) = Some n"
    and body_fixed: "body utf code start refs js barred g k \<Longrightarrow> 0 \<le> n \<Longrightarrow> g \<in> item_set utf code start \<Longrightarrow>
      is_group (opc code g) \<and> opc code g \<noteq> OP_SCOND \<Longrightarrow>
      fixed_loop code utf atend start recs (branch_at code g) (-1) 0 = Some n \<Longrightarrow> int k = n"
proof (induction arbitrary: n recs len bl and q n recs len bl and n recs rule: runs_item_body.inducts)
  case (stop p)
  then show ?case by simp
next
  case (more p j q e k)
  from more.IH(5) [OF more.prems(1) _ more.IH(2) [OF more.prems(1,2) more.IH(3) more.prems(3)]]
    linked_after [OF ok(1) more.prems(2) more.IH(3)]
  show ?case by (simp add: add.assoc)
next
  case (simple p k)
  have n: "opc code p \<notin> loop_ops" using item_length_ops [OF simple.IH] .
  from fixed_at_simple [OF simple.prems(4,1) n simple.prems(3)] obtain d where
    d: "fixed_item utf code p = Adds d q" "fixed_loop code utf atend start recs q len (bl + d) = Some n" by blast
  have "p < item_end utf code p" using fixed_item_plain [OF d(1)] linked_after [OF ok(1) simple.prems(2,3)]
    by (intro item_end_after [OF simple.prems(3)]) simp_all
  from fixed_item_sound [OF d(1) simple.IH ok(2) simple.prems(2) this] d(2) show ?case by simp
next
  case (assertion p)
  from fixed_at_assertion [OF assertion.prems(4) assertion.IH assertion.prems(3)] show ?case by simp
next
  case (group p k)
  from fixed_at_group [OF group.prems(4,1) group.IH(1) group.prems(3)] obtain d where
    d: "fixed_loop code utf atend start recs (branch_at code p) (-1) 0 = Some d" "0 \<le> d"
      "fixed_loop code utf atend start recs q len (bl + d) = Some n"
      "opc code p \<noteq> OP_SCOND" by blast
  from group.IH(3) [OF d(2) group.prems(2) _ d(1)] group.IH(1) d(3,4) show ?case by simp
next
  case (none p)
  with fixed_gives_up [OF disjI1 [OF none.IH] none.prems(4)] show ?case by simp
next
  case (some p k)
  with fixed_gives_up [OF disjI1 [OF some.IH(1)] some.prems(4)] show ?case by simp
next
  case (call p k)
  note cbra = fixed_codeD(3) [OF ok(2) call.prems(2) call.IH(1)]
  from fixed_at_call [OF call.prems(4,1) call.IH(1) cbra call.prems(3)] obtain d recs' where
    d: "fixed_loop code utf atend start recs' (branch_at code (start + GET code p 1)) (-1) 0 = Some d" "0 \<le> d"
      "fixed_loop code utf atend start recs q len (bl + d) = Some n" by blast
  have "is_group (opc code (start + GET code p 1)) \<and> opc code (start + GET code p 1) \<noteq> OP_SCOND"
    using cbra by (auto simp: is_cbra_def is_group_def)
  from call.IH(4) [OF d(2) _ this d(1)] linked_call [OF ok(1) call.prems(2) call.IH(1)] d(3) show ?case by simp
next
  case (reference p g k c)
  with fixed_gives_up [OF disjI2 [OF reference.IH(1)] reference.prems(4)] show ?case by simp
next
  case (no_reference p)
  with fixed_gives_up [OF disjI2 [OF no_reference.IH(1)] no_reference.prems(4)] show ?case by simp
next
  case (one p a k)
  have g: "is_group (opc code p)" using one.prems(3) by blast
  from fixed_alternative [OF ok one.prems(1) one.IH(1) one.prems(2) g one.prems(4)] obtain len where
    l: "len < 0 \<or> len = n" "fixed_loop code utf atend start recs (branch_at code a) len 0 = Some n" by blast
  have a: "a \<in> item_set utf code start" "is_group (opc code a) \<or> is_assertion (opc code a) \<or> opc code a = OP_ALT"
    using alternative_item [OF ok(1) one.IH(1) one.prems(2) g] by blast+
  note b = linked_branch [OF ok(1) a]
  from fixed_at_end [OF one.IH(3) [OF one.prems(1) conjunct1 [OF b] l(2)] one.prems(1) level_end_is_end [OF conjunct2 [OF b]]]
  have e: "if opc code (branch_end code a) = OP_ALT
      then fixed_loop code utf atend start recs (branch_at code (branch_end code a)) (int k) 0 = Some n
      else n = int k" by (simp only: add_0) (elim conjE)
  show ?case
  proof (cases "opc code (branch_end code a) = OP_ALT")
    case True
    with e have "fixed_loop code utf atend start recs (branch_at code (branch_end code a)) (int k) 0 = Some n"
      by (simp only: if_True)
    from fixed_loop_length [OF this one.prems(1)] show ?thesis by simp
  next
    case False
    with e show ?thesis by (simp only: if_False)
  qed
next
  case (again p j k ket)
  have g: "is_group (opc code p)" using again.prems(3) by blast
  from last_alternative [OF again.IH(5) first] obtain a where a: "alternative code p a" "branch_end code a = ket" by blast
  from fixed_alternative [OF ok again.prems(1) a(1) again.prems(2) g again.prems(4)] obtain len where
    l: "fixed_loop code utf atend start recs (branch_at code a) len 0 = Some n" by blast
  have i: "a \<in> item_set utf code start" "is_group (opc code a) \<or> is_assertion (opc code a) \<or> opc code a = OP_ALT"
    using alternative_item [OF ok(1) a(1) again.prems(2) g] by blast+
  note b = linked_branch [OF ok(1) i]
  from fixed_reaches [OF conjunct2 [OF b] l again.prems(1) ok conjunct1 [OF b]] a(2) obtain bl where
    "fixed_loop code utf atend start recs ket len bl = Some n" by auto
  from fixed_at_end [OF this again.prems(1)] again.IH(6) show ?case by (auto simp: repeats_def is_end_def)
next
  case (implied p)
  then show ?case using fixed_codeD(1) [OF ok(2) implied.prems(2)] by blast
qed
















end
