(* ===== verification/CodeEmpty.thy ===== *)
theory CodeEmpty
  imports CodeLengths
begin

text \<open>
  The soundness of \<open>could_be_empty_branch()\<close> against the lengths of \<open>CodeLengths\<close>: a branch that
  it takes for non-empty has no way through of length zero. The compiler uses the answer to mark
  the repeated groups for which the matcher must stop an endless loop of empty matches, so a
  wrong answer of this kind would be one. The hypothesis \<open>nonempty_code\<close> excludes a repeated
  conditional group (\<open>OP_SCOND\<close>) with one alternative, for which the code answers wrongly, as
  the last theorem shows.
\<close>

subsection \<open>A branch that is taken for non-empty matches something\<close>

text \<open>A repeated conditional group has a second alternative, exact counts are not zero, and calls
  lead to groups that are not conditional.\<close>

definition nonempty_at :: "byte list \<Rightarrow> nat \<Rightarrow> nat \<Rightarrow> bool" where
  "nonempty_at code start p \<longleftrightarrow>
    (let op = opc code p in
     if op = OP_SCOND then opc code (branch_end code p) = OP_ALT
     else if op \<in> {OP_EXACT, OP_EXACTI, OP_NOTEXACT, OP_NOTEXACTI, OP_TYPEEXACT} then 0 < GET2 code p 1
     else if op = OP_RECURSE then opc code (start + GET code p 1) \<notin> {OP_COND, OP_SCOND}
     else True)"

definition nonempty_code :: "bool \<Rightarrow> byte list \<Rightarrow> nat \<Rightarrow> bool" where
  "nonempty_code utf code start \<longleftrightarrow> list_all (nonempty_at code start) (item_starts utf code start)"

lemma nonempty_codeD:
  assumes "nonempty_code utf code start" "p \<in> item_set utf code start"
  shows "opc code p = OP_SCOND \<Longrightarrow> opc code (branch_end code p) = OP_ALT"
    "opc code p \<in> {OP_EXACT, OP_EXACTI, OP_NOTEXACT, OP_NOTEXACTI, OP_TYPEEXACT} \<Longrightarrow> 0 < GET2 code p 1"
    "opc code p = OP_RECURSE \<Longrightarrow> opc code (start + GET code p 1) \<notin> {OP_COND, OP_SCOND}"
proof -
  have "nonempty_at code start p" using assms unfolding nonempty_code_def list_all_iff by blast
  note at = this [unfolded nonempty_at_def Let_def]
  show "opc code p = OP_SCOND \<Longrightarrow> opc code (branch_end code p) = OP_ALT" using at by (simp only: if_True)
  show "0 < GET2 code p 1" if "opc code p \<in> {OP_EXACT, OP_EXACTI, OP_NOTEXACT, OP_NOTEXACTI, OP_TYPEEXACT}"
  proof -
    have "opc code p \<noteq> OP_SCOND" using that by auto
    with at that show ?thesis by (simp only: if_True if_False)
  qed
  show "opc code p = OP_RECURSE \<Longrightarrow> opc code (start + GET code p 1) \<notin> {OP_COND, OP_SCOND}" using at by simp
qed

definition leads :: "byte list \<Rightarrow> (nat \<Rightarrow> bool option) \<Rightarrow> nat \<Rightarrow> bool" where
  "leads code loop p \<longleftrightarrow> (\<exists>y. first_significant_code code p True = Some y \<and> loop y = Some False)"

lemma end_length: "is_end op \<Longrightarrow> op_length op = 1 + LINK_SIZE"
  by (auto simp: is_end_def op_length_def OP_lengths_def nth_default_def)

text \<open>What \<open>first_significant_code\<close> skips.\<close>

definition skipped_asserts :: "nat set" where
  "skipped_asserts = {OP_ASSERT_NOT, OP_ASSERTBACK, OP_ASSERTBACK_NOT}"

definition skipped_ops :: "nat set" where
  "skipped_ops = {OP_WORD_BOUNDARY, OP_NOT_WORD_BOUNDARY, OP_CALLOUT, OP_CREF, OP_DNCREF, OP_RREF, OP_DNRREF, OP_DEF}"

lemma first_assert:
  assumes "opc code p \<in> skipped_asserts" "after utf code p = Some q"
  shows "first_significant_code code p True = first_significant_code code q True"
proof -
  have "is_assertion (opc code p)" using assms(1) by (auto simp: skipped_asserts_def is_assertion_def)
  with assms(2) obtain ket where k: "skip_alts code p = Some ket" "q = ket + 1 + LINK_SIZE" "op_length (opc code ket) = 1 + LINK_SIZE"
    using end_length by (auto simp: after_def behind_def split: option.splits if_splits)
  have "opc code p = OP_ASSERT_NOT \<or> opc code p = OP_ASSERTBACK \<or> opc code p = OP_ASSERTBACK_NOT"
    using assms(1) by (auto simp: skipped_asserts_def)
  with k show ?thesis
    by (subst first_significant_code.simps) (simp only: Let_def if_True simp_thms, simp add: add.assoc)
qed

lemma first_skip:
  assumes "opc code p \<in> skipped_ops" "after utf code p = Some q"
  shows "first_significant_code code p True = first_significant_code code q True"
proof -
  have "q = p + op_length (opc code p)"
    using assms(1) unfolding skipped_ops_def
    by (elim insertE emptyE)
      (use assms(2) in \<open>simp_all add: after_def is_group_def is_assertion_def is_zero_def is_end_def reference_ops_def
        skip_defs arg_ops_def\<close>)
  with assms(1) show ?thesis by (subst first_significant_code.simps) (auto simp: skipped_ops_def Let_def)
qed

lemma first_here:
  assumes "opc code p \<notin> skipped_asserts" "opc code p \<notin> skipped_ops"
  shows "first_significant_code code p True = Some p"
  using assms by (subst first_significant_code.simps) (simp add: skipped_asserts_def skipped_ops_def Let_def)

text \<open>The turns of the loop.\<close>

definition empty_group_ops :: "nat set" where
  "empty_group_ops = {OP_BRA, OP_BRAPOS, OP_CBRA, OP_CBRAPOS, OP_ONCE, OP_ONCE_NC, OP_COND, OP_SCOND}"

definition empty_special :: "nat set" where
  "empty_special = {OP_ASSERT, OP_SBRA, OP_SBRAPOS, OP_SCBRA, OP_SCBRAPOS, OP_BRAZERO, OP_BRAMINZERO,
     OP_SKIPZERO, OP_BRAPOSZERO, OP_RECURSE} \<union> empty_group_ops"

lemma empty_default:
  assumes "opc code p \<notin> empty_special" "empty_loop code endcode utf start fwd recs p = Some False"
  shows "empty_item utf code p = Inl False \<or>
    (\<exists>q. empty_item utf code p = Inr q \<and>
      leads code (empty_loop code endcode utf start fwd recs) (q + op_length (opc code p)))"
proof -
  have "\<not> (opc code p = OP_ASSERT \<or> opc code p \<in> {OP_SBRA, OP_SBRAPOS, OP_SCBRA, OP_SCBRAPOS})"
    "opc code p \<notin> {OP_BRAZERO, OP_BRAMINZERO, OP_SKIPZERO, OP_BRAPOSZERO}" "opc code p \<noteq> OP_RECURSE"
    "opc code p \<notin> {OP_BRA, OP_BRAPOS, OP_CBRA, OP_CBRAPOS, OP_ONCE, OP_ONCE_NC, OP_COND, OP_SCOND}"
    using assms(1) unfolding empty_special_def empty_group_ops_def by blast+
  with assms(2) [unfolded empty_loop.simps [of code endcode utf start fwd recs p] Let_def] show ?thesis
    by (simp only: if_False next_significant_def leads_def split: option.splits if_splits sum.splits) auto
qed

lemma empty_at_assert:
  assumes "empty_loop code endcode utf start fwd recs p = Some False" "after utf code p = Some q"
    "opc code p \<in> {OP_ASSERT, OP_SBRA, OP_SBRAPOS, OP_SCBRA, OP_SCBRAPOS}"
  shows "leads code (empty_loop code endcode utf start fwd recs) q"
proof -
  have "is_group (opc code p) \<or> is_assertion (opc code p)"
    using assms(3) by (auto simp: is_group_def is_assertion_def)
  with assms(2) obtain ket where "skip_alts code p = Some ket" "op_length (opc code ket) = 1 + LINK_SIZE"
    and q: "q = ket + 1 + LINK_SIZE"
    using end_length by (auto simp: after_def behind_def split: option.splits if_splits)
  moreover have "opc code p = OP_ASSERT \<or> opc code p \<in> {OP_SBRA, OP_SBRAPOS, OP_SCBRA, OP_SCBRAPOS}"
    using assms(3) by blast
  ultimately show ?thesis
    using assms(1) [unfolded empty_loop.simps [of code endcode utf start fwd recs p] Let_def] unfolding q
    by (simp only: if_True next_significant_def leads_def option.case add.assoc
        split: option.splits if_splits) auto
qed

lemma empty_at_zero:
  assumes "empty_loop code endcode utf start fwd recs p = Some False" "after utf code p = Some q" "is_zero (opc code p)"
  shows "leads code (empty_loop code endcode utf start fwd recs) q"
proof -
  have z: "opc code p \<in> {OP_BRAZERO, OP_BRAMINZERO, OP_SKIPZERO, OP_BRAPOSZERO}"
    using assms(3) unfolding is_zero_def by blast
  then have "\<not> (is_group (opc code p) \<or> is_assertion (opc code p))"
    unfolding is_group_def is_assertion_def by (elim insertE emptyE) simp_all
  with assms(2,3) obtain ket where k: "skip_alts code (p + 1) = Some ket" "op_length (opc code ket) = 1 + LINK_SIZE"
    and q: "q = ket + 1 + LINK_SIZE"
    using end_length by (auto simp: after_def behind_def split: option.splits if_splits)
  have "\<not> (opc code p = OP_ASSERT \<or> opc code p \<in> {OP_SBRA, OP_SBRAPOS, OP_SCBRA, OP_SCBRAPOS})"
    "op_length (opc code p) = 1"
    using z by (elim insertE emptyE; simp add: op_length_def OP_lengths_def nth_default_def)+
  with k show ?thesis
    using assms(1) [unfolded empty_loop.simps [of code endcode utf start fwd recs p] Let_def] z unfolding q
    by (simp only: if_True if_False next_significant_def leads_def option.case add.assoc
        split: option.splits if_splits) auto
qed

lemma empty_at_group:
  assumes "empty_loop code endcode utf start fwd recs p = Some False" "after utf code p = Some q"
    "opc code p \<in> empty_group_ops"
  shows "(\<not> (opc code p = OP_COND \<and> opc code (branch_end code p) \<noteq> OP_ALT) \<and>
       empty_alts code endcode utf start fwd recs p = Some False) \<or>
     leads code (empty_loop code endcode utf start fwd recs) q"
proof -
  let ?G = "{OP_BRA, OP_BRAPOS, OP_CBRA, OP_CBRAPOS, OP_ONCE, OP_ONCE_NC, OP_COND, OP_SCOND}"
  have "\<not> (opc code p = OP_ASSERT \<or> opc code p \<in> {OP_SBRA, OP_SBRAPOS, OP_SCBRA, OP_SCBRAPOS})"
    "opc code p \<notin> {OP_BRAZERO, OP_BRAMINZERO, OP_SKIPZERO, OP_BRAPOSZERO}" "opc code p \<noteq> OP_RECURSE"
    "opc code p \<in> ?G"
    using assms(3) unfolding empty_group_ops_def by (elim insertE emptyE; simp)+
  note eq = assms(1) [unfolded empty_loop.simps [of code endcode utf start fwd recs p] Let_def] this
  have "is_group (opc code p)" using assms(3) unfolding empty_group_ops_def is_group_def by blast
  with assms(2) obtain ket where s: "skip_alts code p = Some ket" "op_length (opc code ket) = 1 + LINK_SIZE"
    and q: "q = ket + 1 + LINK_SIZE"
    using end_length by (auto simp: after_def behind_def split: option.splits if_splits)
  show ?thesis
  proof (cases "opc code p = OP_COND \<and> opc code (branch_end code p) \<noteq> OP_ALT")
    case True
    then have "ket = branch_end code p" using s(1)
      by (subst (asm) skip_alts.simps) (simp add: Let_def split: if_splits)
    with eq True s show ?thesis unfolding q
      by (simp only: if_True if_False next_significant_def leads_def option.case add.assoc
          split: option.splits if_splits) auto
  next
    case False
    with eq s show ?thesis unfolding q
      by (simp only: if_True if_False next_significant_def leads_def option.case add.assoc
          split: option.splits if_splits bool.splits) auto
  qed
qed

lemma empty_at_call:
  assumes "empty_loop code endcode utf start fwd recs p = Some False" "opc code p = OP_RECURSE" "after utf code p = Some q"
  shows "(\<exists>recs'. empty_alts code endcode utf start fwd recs' (start + GET code p 1) = Some False) \<or>
     leads code (empty_loop code endcode utf start fwd recs) q"
proof -
  have q: "q = p + 1 + LINK_SIZE"
    using assms(3,2) by (simp add: after_def is_group_def is_assertion_def is_zero_def is_end_def reference_ops_def
        skip_defs arg_ops_def op_length_values)
  have l: "op_length (opc code p) = 1 + LINK_SIZE"
    using assms(2) by (simp add: op_length_def OP_lengths_def nth_default_def)
  have "\<not> (opc code p = OP_ASSERT \<or> opc code p \<in> {OP_SBRA, OP_SBRAPOS, OP_SCBRA, OP_SCBRAPOS})"
    "opc code p \<notin> {OP_BRAZERO, OP_BRAMINZERO, OP_SKIPZERO, OP_BRAPOSZERO}" "(opc code p = OP_RECURSE) = True"
    using assms(2) by simp_all
  note eq = assms(1) [unfolded empty_loop.simps [of code endcode utf start fwd recs p] Let_def] this
  show ?thesis
  proof (cases "empty_call code start fwd recs p")
    case None
    with eq show ?thesis by (simp only: if_True if_False option.case split: if_splits) simp_all
  next
    case (Some r)
    show ?thesis
    proof (cases r)
      case (Inl a)
      with Some have "a" by (auto simp: empty_call_def Let_def split: if_splits option.splits)
      with eq Some Inl show ?thesis by (simp only: if_True if_False option.case sum.case split: if_splits) simp_all
    next
      case (Inr g)
      have "g = None \<or> g = Some (start + GET code p 1)"
        using Some Inr by (auto simp: empty_call_def Let_def split: if_splits option.splits)
      then show ?thesis
      proof
        assume "g = None"
        with eq Some Inr l show ?thesis unfolding q
          by (simp only: if_True if_False option.case sum.case bool.case next_significant_def leads_def add.assoc
              split: option.splits if_splits) auto
      next
        assume "g = Some (start + GET code p 1)"
        with eq Some Inr l show ?thesis unfolding q
          by (simp only: if_True if_False option.case sum.case bool.case next_significant_def leads_def add.assoc
              split: option.splits if_splits bool.splits) auto
      qed
    qed
  qed
qed

lemma empty_alts_branch:
  assumes "empty_alts code endcode utf start fwd recs q = Some False"
  shows "leads code (empty_loop code endcode utf start fwd recs) (branch_at code q)"
    "opc code (branch_end code q) = OP_ALT \<Longrightarrow>
       empty_alts code endcode utf start fwd recs (branch_end code q) = Some False"
proof -
  note eq = assms [unfolded empty_alts.simps [of code endcode utf start fwd recs q] next_significant_def Let_def]
  then obtain p where p: "first_significant_code code (branch_at code q) True = Some p" "q < p" "q < length code"
    by (simp only: split: option.splits if_splits) auto
  with eq have l: "empty_loop code endcode utf start fwd recs p = Some False"
    by (simp only: option.case simp_thms if_False split: option.splits bool.splits)
  with p(1) show "leads code (empty_loop code endcode utf start fwd recs) (branch_at code q)"
    unfolding leads_def by blast
  assume "opc code (branch_end code q) = OP_ALT"
  with eq p l show "empty_alts code endcode utf start fwd recs (branch_end code q) = Some False"
    by (simp only: option.case simp_thms if_False if_True bool.case split: if_splits) auto
qed


text \<open>The simple items of length zero.\<close>

definition star_ops :: "nat set" where
  "star_ops = {OP_STAR, OP_STARI, OP_NOTSTAR, OP_NOTSTARI, OP_MINSTAR, OP_MINSTARI, OP_NOTMINSTAR,
     OP_NOTMINSTARI, OP_POSSTAR, OP_POSSTARI, OP_NOTPOSSTAR, OP_NOTPOSSTARI, OP_QUERY, OP_QUERYI,
     OP_NOTQUERY, OP_NOTQUERYI, OP_MINQUERY, OP_MINQUERYI, OP_NOTMINQUERY, OP_NOTMINQUERYI,
     OP_POSQUERY, OP_POSQUERYI, OP_NOTPOSQUERY, OP_NOTPOSQUERYI}"

definition upto_ops :: "nat set" where
  "upto_ops = {OP_UPTO, OP_UPTOI, OP_NOTUPTO, OP_NOTUPTOI, OP_MINUPTO, OP_MINUPTOI, OP_NOTMINUPTO,
     OP_NOTMINUPTOI, OP_POSUPTO, OP_POSUPTOI, OP_NOTPOSUPTO, OP_NOTPOSUPTOI}"

definition char_repeat :: "nat \<Rightarrow> bool" where
  "char_repeat op \<longleftrightarrow>
    (let rel = (op - OP_STAR) mod 13 in
     if rel = 2 \<or> rel = 3 \<or> rel = 10 then op \<in> nonempty_ops
     else if rel = 8 then op \<in> {OP_EXACT, OP_EXACTI, OP_NOTEXACT, OP_NOTEXACTI}
     else if rel = 6 \<or> rel = 7 \<or> rel = 12 then op \<in> upto_ops \<and> op_length op = 2 + IMM2_SIZE
     else op \<in> star_ops \<and> op_length op = 2)"

lemma in_range: "list_all P [a..<Suc b] \<Longrightarrow> a \<le> x \<Longrightarrow> x \<le> b \<Longrightarrow> P x"
  by (cases "x = b") (simp_all add: list_all_iff)

lemma char_repeats: "OP_STAR \<le> op \<Longrightarrow> op \<le> OP_NOTPOSUPTOI \<Longrightarrow> char_repeat op"
proof -
  have "list_all char_repeat [OP_STAR..<Suc OP_NOTPOSUPTOI]" by code_simp
  moreover assume "OP_STAR \<le> op" "op \<le> OP_NOTPOSUPTOI"
  ultimately show ?thesis by (rule in_range)
qed

lemma cr_leads:
  assumes "leads code (empty_loop code endcode utf start fwd recs) r"
  shows "leads code (empty_loop code endcode utf start fwd recs) (cr_next code r)"
proof (cases "OP_CRSTAR \<le> opc code r \<and> opc code r \<le> OP_CRPOSRANGE")
  case True
  have "list_all (\<lambda>op. op \<notin> empty_special \<and> op \<notin> skipped_asserts \<and> op \<notin> skipped_ops \<and>
      op_length op = (if op = OP_CRRANGE \<or> op = OP_CRMINRANGE \<or> op = OP_CRPOSRANGE then 1 + 2 * IMM2_SIZE else 1))
    [OP_CRSTAR..<Suc OP_CRPOSRANGE]" by code_simp
  from in_range [OF this conjunct1 [OF True] conjunct2 [OF True]]
  have f: "opc code r \<notin> empty_special" "opc code r \<notin> skipped_asserts" "opc code r \<notin> skipped_ops"
    "op_length (opc code r) =
      (if opc code r = OP_CRRANGE \<or> opc code r = OP_CRMINRANGE \<or> opc code r = OP_CRPOSRANGE then 1 + 2 * IMM2_SIZE else 1)"
    by blast+
  have i: "empty_item utf code r = Inr r"
    using True by (auto simp: empty_item_def Let_def nonempty_ops_def arg_ops_def)
  have "empty_loop code endcode utf start fwd recs r = Some False"
    using assms first_here [OF f(2,3)] by (simp add: leads_def)
  from empty_default [OF f(1) this] i f(4) True show ?thesis
    by (auto simp: cr_next_def Let_def add.commute)
next
  case False
  then have "cr_next code r = r" by (auto simp: cr_next_def Let_def)
  with assms show ?thesis by simp
qed


lemma item_length_plain:
  assumes "item_length code p k"
  shows "opc code p \<notin> empty_special" "opc code p \<notin> skipped_asserts"
    "\<not> (is_group (opc code p) \<or> is_assertion (opc code p))" "\<not> is_zero (opc code p)"
    "\<not> (is_end (opc code p) \<or> opc code p \<in> {OP_END, OP_ACCEPT, OP_ASSERT_ACCEPT})" "opc code p \<notin> reference_ops"
proof -
  show "opc code p \<notin> empty_special"
  proof
    assume "opc code p \<in> empty_special"
    then show False unfolding empty_special_def empty_group_ops_def
      by (elim UnE insertE emptyE) (use assms in \<open>simp_all add: item_length_def op_sets is_prop_def\<close>)
  qed
  show "opc code p \<notin> skipped_asserts"
  proof
    assume "opc code p \<in> skipped_asserts"
    then show False unfolding skipped_asserts_def
      by (elim insertE emptyE) (use assms in \<open>simp_all add: item_length_def op_sets is_prop_def\<close>)
  qed
  show "\<not> (is_group (opc code p) \<or> is_assertion (opc code p))"
  proof
    assume "is_group (opc code p) \<or> is_assertion (opc code p)"
    then show False unfolding is_group_def is_assertion_def
      by (elim disjE insertE emptyE) (use assms in \<open>simp_all add: item_length_def op_sets is_prop_def\<close>)
  qed
  show "\<not> is_zero (opc code p)"
  proof
    assume "is_zero (opc code p)"
    then show False unfolding is_zero_def
      by (elim insertE emptyE) (use assms in \<open>simp_all add: item_length_def op_sets is_prop_def\<close>)
  qed
  show "\<not> (is_end (opc code p) \<or> opc code p \<in> {OP_END, OP_ACCEPT, OP_ASSERT_ACCEPT})"
  proof
    assume "is_end (opc code p) \<or> opc code p \<in> {OP_END, OP_ACCEPT, OP_ASSERT_ACCEPT}"
    then show False unfolding is_end_def
      by (elim disjE insertE emptyE) (use assms in \<open>simp_all add: item_length_def op_sets is_prop_def\<close>)
  qed
  show "opc code p \<notin> reference_ops"
  proof
    assume "opc code p \<in> reference_ops"
    then show False unfolding reference_ops_def
      by (elim insertE emptyE) (use assms in \<open>simp_all add: item_length_def op_sets is_prop_def\<close>)
  qed
qed

lemma after_item:
  assumes "item_length code p k" "after utf code p = Some q"
  shows "q = (if opc code p \<in> {OP_CLASS, OP_NCLASS, OP_XCLASS} then cr_next code (item_end utf code p)
    else item_end utf code p)"
  using item_length_plain(3-6) [OF assms(1)] assms(2) unfolding after_def Let_def
  by (simp only: if_False simp_thms option.inject split: if_splits)

lemma empty_char_repeat:
  assumes "OP_STAR \<le> opc code p" "opc code p \<le> OP_NOTPOSUPTOI" "item_length code p 0"
    "nonempty_code utf code start" "p \<in> item_set utf code start"
  shows "\<exists>r. empty_item utf code p = Inr r \<and> item_end utf code p = r + op_length (opc code p)"
proof -
  let ?op = "opc code p" and ?rel = "(opc code p - OP_STAR) mod 13"
  have "list_all (\<lambda>op. \<not> (op \<in> arg_ops \<or> op \<in> matchless_ops) \<and>
      \<not> (op \<in> {OP_CHAR, OP_CHARI, OP_NOT, OP_NOTI} \<or> is_prop op \<or> op \<in> single_ops \<or> op = OP_ANYBYTE) \<and>
      \<not> (op = OP_ANYNL \<or> op = OP_EXTUNI) \<and> op \<noteq> OP_XCLASS \<and> \<not> (op = OP_CLASS \<or> op = OP_NCLASS)) [OP_STAR..<Suc OP_NOTPOSUPTOI]"
    by code_simp
  from in_range [OF this assms(1,2)]
  have n: "\<not> (?op \<in> arg_ops \<or> ?op \<in> matchless_ops)"
    "\<not> (?op \<in> {OP_CHAR, OP_CHARI, OP_NOT, OP_NOTI} \<or> is_prop ?op \<or> ?op \<in> single_ops \<or> ?op = OP_ANYBYTE)"
    "\<not> (?op = OP_ANYNL \<or> ?op = OP_EXTUNI)" "?op \<noteq> OP_XCLASS" "\<not> (?op = OP_CLASS \<or> ?op = OP_NCLASS)" by blast+
  with assms(1,2) assms(3) [unfolded item_length_def Let_def] have i: "times ?rel (GET2 code p 1) 0"
    by (simp_all only: if_True if_False simp_thms)
  have "list_all (\<lambda>op. op \<in> nonempty_ops \<longrightarrow> op \<in> {OP_EXACT, OP_EXACTI, OP_NOTEXACT, OP_NOTEXACTI} \<and> (op - OP_STAR) mod 13 = 8
      \<or> (let rel = (op - OP_STAR) mod 13 in rel = 2 \<or> rel = 3 \<or> rel = 10)) [OP_STAR..<Suc OP_NOTPOSUPTOI]"
    by code_simp
  from in_range [OF this assms(1,2)] have e: "?op \<notin> nonempty_ops"
    using i nonempty_codeD(2) [OF assms(4,5)] unfolding times_def Let_def by auto
  have cr: "char_repeat ?op" using char_repeats assms(1,2) .
  have x: "?op \<notin> {OP_EXACT, OP_EXACTI, OP_NOTEXACT, OP_NOTEXACTI}" using e by (auto simp: nonempty_ops_def)
  consider "?op \<in> upto_ops" "op_length ?op = 2 + IMM2_SIZE" "?rel = 6 \<or> ?rel = 7 \<or> ?rel = 12"
    | "?op \<in> star_ops" "op_length ?op = 2" "\<not> (?rel = 6 \<or> ?rel = 7 \<or> ?rel = 8 \<or> ?rel = 12)"
  proof (cases "?rel = 2 \<or> ?rel = 3 \<or> ?rel = 10 \<or> ?rel = 8")
    case True
    with cr e x show ?thesis unfolding char_repeat_def Let_def by (simp only: if_True if_False split: if_splits; blast)
  next
    case False
    then have f: "\<not> (?rel = 2 \<or> ?rel = 3 \<or> ?rel = 10)" "?rel \<noteq> 8" by blast+
    show ?thesis
    proof (cases "?rel = 6 \<or> ?rel = 7 \<or> ?rel = 12")
      case True
      with cr f have "?op \<in> upto_ops \<and> op_length ?op = 2 + IMM2_SIZE"
        unfolding char_repeat_def Let_def by (simp only: if_True if_False)
      with True show ?thesis using that(1) by blast
    next
      case False
      with cr f have "?op \<in> star_ops \<and> op_length ?op = 2"
        unfolding char_repeat_def Let_def by (simp only: if_True if_False)
      with False f show ?thesis using that(2) by blast
    qed
  qed
  then show ?thesis
  proof cases
    case 1
    then have "empty_item utf code p = Inr (if utf \<and> opc code (p + 1 + IMM2_SIZE) \<ge> 0xc0
      then p + getutf8_extra (opc code (p + 1 + IMM2_SIZE)) else p)"
      unfolding upto_ops_def by (elim insertE emptyE) (simp_all add: empty_item_def nonempty_ops_def)
    moreover have "item_end utf code p = (if utf \<and> opc code (p + 1 + IMM2_SIZE) \<ge> 0xc0
      then p + getutf8_extra (opc code (p + 1 + IMM2_SIZE)) else p) + op_length ?op"
      using 1(1,2) unfolding upto_ops_def
      by (elim insertE emptyE) (simp_all add: skip_defs arg_ops_def Let_def numeral_3_eq_3)
    ultimately show ?thesis by blast
  next
    case 2
    then have "empty_item utf code p = Inr (if utf \<and> opc code (p + 1) \<ge> 0xc0
      then p + getutf8_extra (opc code (p + 1)) else p)"
      unfolding star_ops_def by (elim insertE emptyE) (simp_all add: empty_item_def nonempty_ops_def)
    moreover have "item_end utf code p = (if utf \<and> opc code (p + 1) \<ge> 0xc0
      then p + getutf8_extra (opc code (p + 1)) else p) + op_length ?op"
      using 2(1,2) unfolding star_ops_def
      by (elim insertE emptyE) (simp_all add: skip_defs arg_ops_def Let_def)
    ultimately show ?thesis by blast
  qed
qed


lemma empty_type_repeat:
  assumes "OP_TYPESTAR \<le> opc code p" "opc code p \<le> OP_TYPEPOSUPTO" "item_length code p 0"
    "nonempty_code utf code start" "p \<in> item_set utf code start"
  shows "\<exists>r. empty_item utf code p = Inr r \<and> item_end utf code p = r + op_length (opc code p)"
proof -
  have "opc code p \<in> {OP_TYPESTAR, OP_TYPEMINSTAR, OP_TYPEPOSSTAR, OP_TYPEQUERY, OP_TYPEMINQUERY, OP_TYPEPOSQUERY}
      \<union> {OP_TYPEUPTO, OP_TYPEMINUPTO, OP_TYPEPOSUPTO}
      \<union> {OP_TYPEPLUS, OP_TYPEMINPLUS, OP_TYPEPOSPLUS, OP_TYPEEXACT}"
    by (rule in_range [OF _ assms(1,2)]) code_simp
  then show ?thesis using assms(3) nonempty_codeD(2) [OF assms(4,5)]
    by (elim UnE insertE emptyE)
      (simp_all add: item_length_def empty_item_def type_length_def times_def op_sets is_prop_def nonempty_ops_def
        skip_defs op_length_def OP_lengths_def nth_default_def split: if_splits)
qed

lemma empty_class: "cr_times code r 0 \<Longrightarrow> class_could_be_empty code r"
  by (auto simp: cr_times_def class_could_be_empty_def Let_def split: if_splits)

lemma empty_matchless:
  assumes "opc code p \<in> matchless_ops" "opc code p \<notin> skipped_ops"
  shows "empty_item utf code p = Inr p \<and> item_end utf code p = p + op_length (opc code p)"
  using assms unfolding matchless_ops_def skipped_ops_def
  by (elim insertE emptyE; simp add: empty_item_def arg_ops_def nonempty_ops_def skip_defs)

lemma empty_arg:
  assumes "opc code p \<in> arg_ops"
  shows "\<exists>r. empty_item utf code p = Inr r \<and> item_end utf code p = r + op_length (opc code p)"
  using assms unfolding arg_ops_def
  by (elim insertE emptyE; simp add: empty_item_def arg_ops_def nonempty_ops_def skip_defs)

lemma empty_classes:
  assumes "item_length code p 0"
  shows "opc code p = OP_XCLASS \<Longrightarrow> empty_item utf code p = Inr (p + GET code p 1) \<and>
      item_end utf code p = p + GET code p 1 + op_length (opc code p)"
    "opc code p = OP_CLASS \<or> opc code p = OP_NCLASS \<Longrightarrow> empty_item utf code p = Inr p \<and>
      item_end utf code p = p + op_length (opc code p)"
proof -
  let ?r = "p + GET code p 1"
  assume op: "opc code p = OP_XCLASS"
  then have "cr_times code ?r 0" using assms by (simp add: item_length_def op_sets is_prop_def)
  with empty_class [of code ?r] op show "empty_item utf code p = Inr ?r \<and>
      item_end utf code p = ?r + op_length (opc code p)"
    by (simp add: empty_item_def item_end_def op_length_values)
next
  let ?r = "p + op_length OP_CLASS"
  assume op: "opc code p = OP_CLASS \<or> opc code p = OP_NCLASS"
  then have "cr_times code ?r 0" using assms by (elim disjE; simp add: item_length_def op_sets is_prop_def)
  moreover have "opc code p \<noteq> OP_XCLASS" using op by auto
  ultimately have "empty_item utf code p = Inr p"
    using empty_class [of code ?r] op by (simp only: empty_item_def Let_def if_True if_False simp_thms)
  moreover have "item_end utf code p = p + op_length (opc code p)"
    using op by (elim disjE) (simp_all add: skip_defs arg_ops_def)
  ultimately show "empty_item utf code p = Inr p \<and> item_end utf code p = p + op_length (opc code p)" ..
qed

lemma empty_simple_item:
  assumes "item_length code p 0" "nonempty_code utf code start" "opc code p \<notin> skipped_ops" "p \<in> item_set utf code start"
  shows "\<exists>r. empty_item utf code p = Inr r \<and> item_end utf code p = r + op_length (opc code p)"
proof -
  let ?op = "opc code p"
  consider (arg) "?op \<in> arg_ops" | (less) "?op \<in> matchless_ops"
    | (single) "?op \<in> {OP_CHAR, OP_CHARI, OP_NOT, OP_NOTI} \<or> is_prop ?op \<or> ?op \<in> single_ops \<or> ?op = OP_ANYBYTE"
    | (sequence) "?op = OP_ANYNL \<or> ?op = OP_EXTUNI" | (rep) "OP_STAR \<le> ?op" "?op \<le> OP_NOTPOSUPTOI"
    | (typerep) "OP_TYPESTAR \<le> ?op" "?op \<le> OP_TYPEPOSUPTO" | (xclass) "?op = OP_XCLASS"
    | (bitmap) "?op = OP_CLASS \<or> ?op = OP_NCLASS"
    using assms(1) unfolding item_length_def Let_def by (simp only: split: if_splits) blast+
  then show ?thesis
  proof cases
    case arg
    then show ?thesis using empty_arg by blast
  next
    case less
    then show ?thesis using empty_matchless assms(3) by blast
  next
    case single
    then show ?thesis using assms(1) by (auto simp: item_length_def op_sets is_prop_def)
  next
    case sequence
    then show ?thesis using assms(1) by (auto simp: item_length_def op_sets is_prop_def type_length_def)
  next
    case rep
    from empty_char_repeat [OF this assms(1,2,4)] show ?thesis .
  next
    case typerep
    from empty_type_repeat [OF this assms(1,2,4)] show ?thesis .
  next
    case xclass
    from empty_classes(1) [OF assms(1) this] show ?thesis by blast
  next
    case bitmap
    from empty_classes(2) [OF assms(1) this] show ?thesis by blast
  qed
qed

lemma empty_simple:
  assumes "item_length code p 0" "nonempty_code utf code start" "p \<in> item_set utf code start" "after utf code p = Some q"
    "leads code (empty_loop code endcode utf start fwd recs) p"
  shows "leads code (empty_loop code endcode utf start fwd recs) q"
proof (cases "opc code p \<in> skipped_ops")
  case True
  from first_skip [OF this assms(4)] assms(5) show ?thesis by (simp add: leads_def)
next
  case False
  note plain = item_length_plain(1,2) [OF assms(1)]
  have "empty_loop code endcode utf start fwd recs p = Some False"
    using assms(5) first_here [OF plain(2) False] by (simp add: leads_def)
  from empty_default [OF plain(1) this] empty_simple_item [OF assms(1,2) False assms(3)]
  have "leads code (empty_loop code endcode utf start fwd recs) (item_end utf code p)" by auto
  with cr_leads [OF this] after_item [OF assms(1,4)] show ?thesis by simp
qed

lemma empty_reference:
  assumes "opc code p \<in> reference_ops" "after utf code p = Some q"
    "leads code (empty_loop code endcode utf start fwd recs) p"
  shows "leads code (empty_loop code endcode utf start fwd recs) q"
proof -
  have f: "opc code p \<notin> empty_special" "opc code p \<notin> skipped_asserts" "opc code p \<notin> skipped_ops"
    "empty_item utf code p = Inr p" "after utf code p = Some (cr_next code (p + op_length (opc code p)))"
    using assms(1) unfolding reference_ops_def empty_special_def empty_group_ops_def skipped_asserts_def skipped_ops_def
    by (elim insertE emptyE; simp add: empty_item_def nonempty_ops_def arg_ops_def after_def is_group_def
        is_assertion_def is_zero_def is_end_def reference_ops_def skip_defs)+
  have "empty_loop code endcode utf start fwd recs p = Some False"
    using assms(3) first_here [OF f(2,3)] by (simp add: leads_def)
  from empty_default [OF f(1) this] f(4) have "leads code (empty_loop code endcode utf start fwd recs) (p + op_length (opc code p))"
    by simp
  from cr_leads [OF this] f(5) assms(2) show ?thesis by simp
qed

text \<open>No way of length zero through what the loop takes for non-empty.\<close>

abbreviation one_branch_cond :: "byte list \<Rightarrow> nat \<Rightarrow> bool" where
  "one_branch_cond code g \<equiv> (opc code g = OP_COND \<or> opc code g = OP_SCOND) \<and> opc code (branch_end code g) \<noteq> OP_ALT"

lemma leads_end:
  assumes "leads code (empty_loop code endcode utf start fwd recs) e" "is_end (opc code e)"
  shows False
proof -
  have "opc code e \<notin> skipped_asserts \<and> opc code e \<notin> skipped_ops \<and> opc code e \<notin> empty_special"
    "empty_item utf code e = Inl True"
    using assms(2) unfolding is_end_def skipped_asserts_def skipped_ops_def empty_special_def empty_group_ops_def
    by (elim insertE emptyE; simp add: empty_item_def nonempty_ops_def)+
  moreover from this have "empty_loop code endcode utf start fwd recs e = Some False"
    using assms(1) first_here by (auto simp: leads_def)
  ultimately show False using empty_default by fastforce
qed

lemma leads_here:
  assumes "leads code loop p" "opc code p \<notin> skipped_asserts" "opc code p \<notin> skipped_ops"
  shows "loop p = Some False"
  using assms first_here by (auto simp: leads_def)

lemma alternative_nonempty:
  "alternative code g a \<Longrightarrow> empty_alts code endcode utf start fwd recs g = Some False \<Longrightarrow>
    empty_alts code endcode utf start fwd recs a = Some False"
  by (induction rule: alternative.induct) (auto dest: empty_alts_branch(2))

lemma nonempty_sound:
  assumes ok: "well_linked utf code start" "nonempty_code utf code start"
  shows runs_nonempty: "runs utf code start refs js barred p e k \<Longrightarrow> k = 0 \<Longrightarrow> p \<in> item_set utf code start \<Longrightarrow>
      leads code (empty_loop code endcode utf start fwd recs) p \<Longrightarrow>
      leads code (empty_loop code endcode utf start fwd recs) e"
    and item_nonempty: "item utf code start refs js barred p k \<Longrightarrow> k = 0 \<Longrightarrow> p \<in> item_set utf code start \<Longrightarrow>
      after utf code p = Some q \<Longrightarrow>
      leads code (empty_loop code endcode utf start fwd recs) p \<Longrightarrow>
      leads code (empty_loop code endcode utf start fwd recs) q"
    and body_nonempty: "body utf code start refs js barred g k \<Longrightarrow> k = 0 \<Longrightarrow> g \<in> item_set utf code start \<Longrightarrow>
      is_group (opc code g) \<Longrightarrow> \<not> one_branch_cond code g \<Longrightarrow>
      empty_alts code endcode utf start fwd recs g = Some False \<Longrightarrow> False"
proof (induction arbitrary: recs and q recs and recs rule: runs_item_body.inducts)
  case (stop p)
  then show ?case by simp
next
  case (more p j q e k)
  from more.prems(1) have "j = 0" "k = 0" by simp_all
  with more.IH(2) [OF _ more.prems(2) more.IH(3) more.prems(3)] more.IH(5)
    linked_after [OF ok(1) more.prems(2) more.IH(3)] show ?case by blast
next
  case (simple p k)
  from simple.IH simple.prems(1) have "item_length code p 0" by simp
  from empty_simple [OF this ok(2) simple.prems(2,3,4)] show ?case .
next
  case (assertion p)
  consider "opc code p \<in> skipped_asserts" | "opc code p = OP_ASSERT"
    using assertion.IH(1) by (auto simp: is_assertion_def skipped_asserts_def)
  then show ?case
  proof cases
    case 1
    from first_assert [OF 1 assertion.prems(3)] assertion.prems(4) show ?thesis by (simp add: leads_def)
  next
    case 2
    then have "opc code p \<notin> skipped_asserts" "opc code p \<notin> skipped_ops"
      by (simp_all add: skipped_asserts_def skipped_ops_def)
    from empty_at_assert [OF leads_here [OF assertion.prems(4) this] assertion.prems(3)] 2 show ?thesis by blast
  qed
next
  case (group p k)
  have n: "opc code p \<notin> skipped_asserts" "opc code p \<notin> skipped_ops"
    using group.IH(1) unfolding is_group_def skipped_asserts_def skipped_ops_def by (elim insertE emptyE; simp)+
  note loop = leads_here [OF group.prems(4) n]
  consider "opc code p \<in> {OP_ASSERT, OP_SBRA, OP_SBRAPOS, OP_SCBRA, OP_SCBRAPOS}" | "opc code p \<in> empty_group_ops"
    using group.IH(1) unfolding is_group_def empty_group_ops_def by blast
  then show ?case
  proof cases
    case 1
    from empty_at_assert [OF loop group.prems(3) 1] show ?thesis .
  next
    case 2
    from empty_at_group [OF loop group.prems(3) 2] show ?thesis
    proof
      assume a: "\<not> (opc code p = OP_COND \<and> opc code (branch_end code p) \<noteq> OP_ALT) \<and>
        empty_alts code endcode utf start fwd recs p = Some False"
      then have "\<not> one_branch_cond code p" using nonempty_codeD(1) [OF ok(2) group.prems(2)] by blast
      from group.IH(3) [OF group.prems(1,2) group.IH(1) this conjunct2 [OF a]] show ?thesis ..
    qed
  qed
next
  case (none p)
  then have "opc code p \<notin> skipped_asserts" "opc code p \<notin> skipped_ops"
    unfolding skipped_asserts_def skipped_ops_def is_zero_def by auto
  from empty_at_zero [OF leads_here [OF none.prems(4) this] none.prems(3) none.IH] show ?case .
next
  case (some p k)
  then have "opc code p \<notin> skipped_asserts" "opc code p \<notin> skipped_ops"
    unfolding skipped_asserts_def skipped_ops_def is_zero_def by auto
  from empty_at_zero [OF leads_here [OF some.prems(4) this] some.prems(3) some.IH(1)] show ?case .
next
  case (call p k)
  then have "opc code p \<notin> skipped_asserts" "opc code p \<notin> skipped_ops"
    unfolding skipped_asserts_def skipped_ops_def by auto
  from empty_at_call [OF leads_here [OF call.prems(4) this] call.IH(1) call.prems(3)] show ?case
  proof
    assume "\<exists>recs'. empty_alts code endcode utf start fwd recs' (start + GET code p 1) = Some False"
    then obtain recs' where a: "empty_alts code endcode utf start fwd recs' (start + GET code p 1) = Some False" ..
    have "\<not> one_branch_cond code (start + GET code p 1)"
      using nonempty_codeD(3) [OF ok(2) call.prems(2) call.IH(1)] by blast
    from call.IH(4) [OF call.prems(1) _ _ this a] linked_call [OF ok(1) call.prems(2) call.IH(1)] show ?thesis
      by blast
  qed
next
  case (reference p g k c)
  from empty_reference [OF reference.IH(1) reference.prems(3,4)] show ?case .
next
  case (no_reference p)
  from empty_reference [OF no_reference.IH(1) no_reference.prems(3,4)] show ?case .
next
  case (one p a k)
  have a: "a \<in> item_set utf code start" "is_group (opc code a) \<or> is_assertion (opc code a) \<or> opc code a = OP_ALT"
    using alternative_item [OF ok(1) one.IH(1) one.prems(2,3)] by blast+
  note b = linked_branch [OF ok(1) a]
  note l = empty_alts_branch(1) [OF alternative_nonempty [OF one.IH(1) one.prems(5)]]
  from leads_end [OF one.IH(3) [OF one.prems(1) conjunct1 [OF b] l] level_end_is_end [OF conjunct2 [OF b]]] show ?case .
next
  case (again p j k ket)
  from again.prems(1) have "j = 0" by simp
  from again.IH(2) [OF this again.prems(2-5)] show ?case .
next
  case (implied p)
  then show ?case by blast
qed





end
