(* ===== verification/StudyMin.thy ===== *)
theory StudyMin
  imports CodeWalk
begin

text \<open>
  The minimum length of a subject (\<open>find_minlength()\<close> of \<open>pcre_study.c\<close>). The walk goes over the
  code like \<open>find_fixedlength()\<close>, but it counts its own calls and gives up after a thousand of
  them, it follows back references as well as subroutine calls, and it ignores a branch in
  which it met a recursion.

  The name table, which a reference by a duplicated name needs, is the list \<open>names\<close> of bytes,
  with entries of \<open>entry_size\<close> bytes. A result \<open>None\<close> stands for a walk that leaves the code or
  stands still, or for a sum beyond the C type \<open>int\<close>.
\<close>

record study_env =
  st_code :: "byte list"
  st_utf :: bool
  st_js :: bool  \<comment> \<open>\<open>PCRE_JAVASCRIPT_COMPAT\<close>\<close>
  st_start :: nat  \<comment> \<open>\<open>startcode\<close>\<close>
  st_names :: "byte list"
  st_entry_size :: nat

abbreviation (input) INT_MAX :: int where "INT_MAX \<equiv> 2147483647"

subsection \<open>Items\<close>

definition min_skip_ops :: "nat set" where
  "min_skip_ops = {OP_REVERSE, OP_CREF, OP_DNCREF, OP_RREF, OP_DNRREF, OP_DEF, OP_CALLOUT, OP_SOD, OP_SOM,
     OP_EOD, OP_EODN, OP_CIRC, OP_CIRCM, OP_DOLL, OP_DOLLM, OP_NOT_WORD_BOUNDARY, OP_WORD_BOUNDARY}"

definition min_char_ops :: "nat set" where
  "min_char_ops = {OP_CHAR, OP_CHARI, OP_NOT, OP_NOTI, OP_PLUS, OP_PLUSI, OP_MINPLUS, OP_MINPLUSI,
     OP_POSPLUS, OP_POSPLUSI, OP_NOTPLUS, OP_NOTPLUSI, OP_NOTMINPLUS, OP_NOTMINPLUSI, OP_NOTPOSPLUS,
     OP_NOTPOSPLUSI}"

definition min_single_ops :: "nat set" where
  "min_single_ops = {OP_NOT_DIGIT, OP_DIGIT, OP_NOT_WHITESPACE, OP_WHITESPACE, OP_NOT_WORDCHAR, OP_WORDCHAR,
     OP_ANY, OP_ALLANY, OP_EXTUNI, OP_HSPACE, OP_NOT_HSPACE, OP_VSPACE, OP_NOT_VSPACE}"

definition min_zero_ops :: "nat set" where
  "min_zero_ops = {OP_UPTO, OP_UPTOI, OP_NOTUPTO, OP_NOTUPTOI, OP_MINUPTO, OP_MINUPTOI, OP_NOTMINUPTO,
     OP_NOTMINUPTOI, OP_POSUPTO, OP_POSUPTOI, OP_NOTPOSUPTO, OP_NOTPOSUPTOI,
     OP_STAR, OP_STARI, OP_NOTSTAR, OP_NOTSTARI, OP_MINSTAR, OP_MINSTARI, OP_NOTMINSTAR, OP_NOTMINSTARI,
     OP_POSSTAR, OP_POSSTARI, OP_NOTPOSSTAR, OP_NOTPOSSTARI, OP_QUERY, OP_QUERYI, OP_NOTQUERY, OP_NOTQUERYI,
     OP_MINQUERY, OP_MINQUERYI, OP_NOTMINQUERY, OP_NOTMINQUERYI, OP_POSQUERY, OP_POSQUERYI, OP_NOTPOSQUERY,
     OP_NOTPOSQUERYI}"

text \<open>The quantifier of a class, and that of a back reference with its minimum.\<close>

definition min_class :: "byte list \<Rightarrow> nat \<Rightarrow> fixed_move" where
  "min_class code q =
    (let op = opc code q in
     if op = OP_CRPLUS \<or> op = OP_CRMINPLUS \<or> op = OP_CRPOSPLUS then Adds 1 (q + 1)
     else if op \<in> {OP_CRSTAR, OP_CRMINSTAR, OP_CRQUERY, OP_CRMINQUERY, OP_CRPOSSTAR, OP_CRPOSQUERY}
     then Adds 0 (q + 1)
     else if op = OP_CRRANGE \<or> op = OP_CRMINRANGE \<or> op = OP_CRPOSRANGE
     then Adds (int (GET2 code q 1)) (q + 1 + 2 * IMM2_SIZE)
     else Adds 1 q)"

definition min_repeat :: "byte list \<Rightarrow> nat \<Rightarrow> int \<times> nat" where
  "min_repeat code q =
    (let op = opc code q in
     if op \<in> {OP_CRSTAR, OP_CRMINSTAR, OP_CRQUERY, OP_CRMINQUERY, OP_CRPOSSTAR, OP_CRPOSQUERY} then (0, q + 1)
     else if op = OP_CRPLUS \<or> op = OP_CRMINPLUS \<or> op = OP_CRPOSPLUS then (1, q + 1)
     else if op = OP_CRRANGE \<or> op = OP_CRMINRANGE \<or> op = OP_CRPOSRANGE
     then (int (GET2 code q 1), q + 1 + 2 * IMM2_SIZE)
     else (1, q))"

definition min_item :: "bool \<Rightarrow> byte list \<Rightarrow> nat \<Rightarrow> fixed_move" where
  "min_item utf code cc =
    (let op = opc code cc in
     if op \<in> min_skip_ops then Adds 0 (cc + op_length op)
     else if op \<in> min_char_ops then Adds 1 (over_char utf code (cc + 2))
     else if op \<in> {OP_TYPEPLUS, OP_TYPEMINPLUS, OP_TYPEPOSPLUS}
     then Adds 1 (cc + (if is_prop (opc code (cc + 1)) then 4 else 2))
     else if op \<in> {OP_EXACT, OP_EXACTI, OP_NOTEXACT, OP_NOTEXACTI}
     then Adds (int (GET2 code cc 1)) (over_char utf code (cc + 2 + IMM2_SIZE))
     else if op = OP_TYPEEXACT
     then Adds (int (GET2 code cc 1)) (cc + 2 + IMM2_SIZE + (if is_prop (opc code (cc + 1 + IMM2_SIZE)) then 2 else 0))
     else if is_prop op then Adds 1 (cc + 2 + 1)
     else if op \<in> min_single_ops then Adds 1 (cc + 1)
     else if op = OP_ANYNL then Adds 1 (cc + 1)
     else if op = OP_ANYBYTE then if utf then Returns (-1) else Adds 1 (cc + 1)
     else if op \<in> {OP_TYPESTAR, OP_TYPEMINSTAR, OP_TYPEQUERY, OP_TYPEMINQUERY, OP_TYPEPOSSTAR, OP_TYPEPOSQUERY}
     then Adds 0 (cc + (if is_prop (opc code (cc + 1)) then 2 else 0) + op_length op)
     else if op \<in> {OP_TYPEUPTO, OP_TYPEMINUPTO, OP_TYPEPOSUPTO}
     then Adds 0 (cc + (if is_prop (opc code (cc + 1 + IMM2_SIZE)) then 2 else 0) + op_length op)
     else if op = OP_XCLASS then min_class code (cc + GET code cc 1)
     else if op = OP_CLASS \<or> op = OP_NCLASS then min_class code (cc + op_length OP_CLASS)
     else if op \<in> min_zero_ops then Adds 0 (over_char utf code (cc + op_length op))
     else if op \<in> arg_ops then Adds 0 (cc + op_length op + opc code (cc + 1))
     else if op \<in> {OP_CLOSE, OP_COMMIT, OP_FAIL, OP_PRUNE, OP_SET_SOM, OP_SKIP, OP_THEN}
     then Adds 0 (cc + op_length op)
     else Returns (-3))"

definition min_group_ops :: "nat set" where
  "min_group_ops = {OP_COND, OP_SCOND, OP_CBRA, OP_SCBRA, OP_BRA, OP_SBRA, OP_CBRAPOS, OP_SCBRAPOS, OP_BRAPOS,
     OP_SBRAPOS, OP_ONCE, OP_ONCE_NC}"

definition min_end_ops :: "nat set" where
  "min_end_ops = {OP_ALT, OP_KET, OP_KETRMAX, OP_KETRMIN, OP_KETRPOS, OP_END}"

text \<open>The numbers of the groups with the name to which a reference at \<open>cc\<close> leads, from the name
  table, or the one number of the reference itself.\<close>

definition slot_numbers :: "study_env \<Rightarrow> nat \<Rightarrow> nat list" where
  "slot_numbers e cc =
    map (\<lambda>i. GET2 (st_names e) ((GET2 (st_code e) cc 1 + i) * st_entry_size e) 0)
      [0..<GET2 (st_code e) cc (1 + IMM2_SIZE)]"

definition ref_numbers :: "study_env \<Rightarrow> nat \<Rightarrow> nat list" where
  "ref_numbers e cc =
    (if opc (st_code e) cc = OP_DNREF \<or> opc (st_code e) cc = OP_DNREFI then slot_numbers e cc
     else [GET2 (st_code e) cc 1])"

lemma skip_alts_inside: "skip_alts code p = Some ket \<Longrightarrow> p < length code"
  using skip_alts_SomeD [of code p ket] by simp

lemma ref_numbers_few: "length (ref_numbers e cc) < 65537"
  using GET_less [of "st_code e" cc "1 + IMM2_SIZE"] by (simp add: GET2_GET ref_numbers_def slot_numbers_def)

subsection \<open>The walk\<close>

text \<open>
  \<open>min_group\<close> is the function itself, \<open>min_loop\<close> its loop with the variables \<open>length\<close>,
  \<open>branchlength\<close>, \<open>had_recurse\<close> and \<open>cc\<close>, and \<open>min_refs\<close> the loop over the groups of a reference:
  it gives the smallest length with the flag for a recursion, or the error -2 for a group that
  is not found. For one group the smaller one of \<open>INT_MAX\<close> and its length is its length, so the
  loop serves the reference by number, too. The last component of each result is the count of
  calls. The chain \<open>recs\<close> holds the groups under way.
\<close>

function (sequential) min_group :: "study_env \<Rightarrow> nat list \<Rightarrow> nat \<Rightarrow> nat \<Rightarrow> (int \<times> nat) option"
  and min_loop :: "study_env \<Rightarrow> nat list \<Rightarrow> int \<Rightarrow> int \<Rightarrow> bool \<Rightarrow> nat \<Rightarrow> nat \<Rightarrow> (int \<times> nat) option"
  and min_refs :: "study_env \<Rightarrow> nat list \<Rightarrow> nat \<Rightarrow> nat list \<Rightarrow> int \<Rightarrow> nat \<Rightarrow> ((int \<times> bool) option \<times> nat) option"
where
  "min_group e recs p count =
    (if count > 1000 then Some (-1, count + 1)
     else if \<not> p < length (st_code e) then None
     else min_loop e recs (-1) 0 False
       (p + 1 + LINK_SIZE + (if is_cbra (opc (st_code e) p) then IMM2_SIZE else 0)) (count + 1))"
| "min_loop e recs len bl had cc count =
    (let code = st_code e; op = opc code cc in
     if (op = OP_COND \<or> op = OP_SCOND) \<and> opc code (cc + GET code cc 1) \<noteq> OP_ALT then
       min_loop e recs len bl had (cc + GET code cc 1 + 1 + LINK_SIZE) count
     else if op \<in> min_group_ops then
       (case min_group e recs cc count of
          None \<Rightarrow> None
        | Some (d, count) \<Rightarrow>
            if d < 0 then Some (d, count)
            else
              (case skip_alts code cc of
                 None \<Rightarrow> None
               | Some ket \<Rightarrow>
                   if in_int (bl + d) then min_loop e recs len (bl + d) had (ket + 1 + LINK_SIZE) count
                   else None))
     else if op = OP_ACCEPT \<or> op = OP_ASSERT_ACCEPT then Some (-1, count)
     else if op \<in> min_end_ops then
       let len = (if len < 0 \<or> \<not> had \<and> bl < len then bl else len) in
       if op \<noteq> OP_ALT then Some (len, count)
       else min_loop e recs len 0 False (cc + 1 + LINK_SIZE) count
     else if op \<in> {OP_ASSERT, OP_ASSERT_NOT, OP_ASSERTBACK, OP_ASSERTBACK_NOT} then
       (case skip_alts code cc of
          None \<Rightarrow> None
        | Some ket \<Rightarrow> min_loop e recs len bl had (ket + op_length (opc code ket)) count)
     else if op \<in> {OP_BRAZERO, OP_BRAMINZERO, OP_BRAPOSZERO, OP_SKIPZERO} then
       (case skip_alts code (cc + op_length op) of
          None \<Rightarrow> None
        | Some ket \<Rightarrow>
            if cc < ket then min_loop e recs len bl had (ket + 1 + LINK_SIZE) count else None)
     else if op \<in> {OP_DNREF, OP_DNREFI, OP_REF, OP_REFI} then
       (case (if st_js e then Some (Some (0, False), count)
              else min_refs e recs cc (ref_numbers e cc) INT_MAX count) of
          None \<Rightarrow> None
        | Some (None, count) \<Rightarrow> Some (-2, count)
        | Some (Some (d, rec), count) \<Rightarrow>
            let (min, q) = min_repeat code
                  (cc + (if op = OP_DNREF \<or> op = OP_DNREFI then 1 + 2 * IMM2_SIZE else 1 + IMM2_SIZE)) in
            if cc < q \<and> in_int (min * d) \<and> in_int (bl + min * d)
            then min_loop e recs len (bl + min * d) (had \<or> rec) q count
            else None)
     else if op = OP_RECURSE then
       let cs = st_start e + GET code cc 1 in
       (case skip_alts code cs of
          None \<Rightarrow> None
        | Some ce \<Rightarrow>
            if cc > cs \<and> cc < ce \<or> cs \<in> set recs
            then min_loop e recs len bl True (cc + 1 + LINK_SIZE) count
            else
              (case min_group e (cs # recs) cs count of
                 None \<Rightarrow> None
               | Some (d, count) \<Rightarrow>
                   if in_int (bl + d) then min_loop e recs len (bl + d) had (cc + 1 + LINK_SIZE) count
                   else None))
     else
       (case min_item (st_utf e) code cc of
          Returns r \<Rightarrow> Some (r, count)
        | Adds d q \<Rightarrow>
            if cc < q \<and> cc < length code \<and> in_int (bl + d) then min_loop e recs len (bl + d) had q count
            else None))"
| "min_refs e recs cc [] d count = Some (Some (d, False), count)"
| "min_refs e recs cc (n # ns) d count =
    (case find_bracket (st_code e) (st_start e) (st_utf e) (int n) of
       None \<Rightarrow> None
     | Some None \<Rightarrow> Some (None, count)
     | Some (Some cs) \<Rightarrow>
         (case skip_alts (st_code e) cs of
            None \<Rightarrow> None
          | Some ce \<Rightarrow>
              if cc > cs \<and> cc < ce \<or> cs \<in> set recs then Some (Some (0, True), count)
              else
                (case min_group e (cs # recs) cs count of
                   None \<Rightarrow> None
                 | Some (dd, count) \<Rightarrow> min_refs e recs cc ns (if dd < d then dd else d) count)))"
  by pat_completeness auto

termination
proof (relation "inv_image (less_than <*lex*> less_than <*lex*> less_than)
    (\<lambda>x. case x of
       Inl (e, recs, p, _) \<Rightarrow> (card ({..<length (st_code e)} - set recs), length (st_code e) - p, 1 :: nat)
     | Inr (Inl (e, recs, _, _, _, cc, _)) \<Rightarrow>
         (card ({..<length (st_code e)} - set recs), length (st_code e) - cc, 65537)
     | Inr (Inr (e, recs, cc, ns, _, _)) \<Rightarrow>
         (card ({..<length (st_code e)} - set recs), length (st_code e) - cc, length ns))", goal_cases)
  case 1
  show ?case by (auto intro: wf_inv_image)
qed (auto intro!: diff_less_mono2 chain_grows ref_numbers_few dest: skip_alts_SomeD opc_numeral opc_positive split: if_splits)

declare min_group.simps [simp del] min_loop.simps [simp del] min_refs.simps [simp del]

end
