(* ===== verification/StudyLength.thy ===== *)
theory StudyLength
  imports StudyMin CodeEmpty
begin

text \<open>
  What the proof about \<open>find_minlength()\<close> rests on: the items of its walk against those of
  \<open>CodeLengths\<close>, the inversion of the ways through an item, and the successful runs of the function
  as an inductive relation. Where the function ignores a branch with a recursion, the argument is
  that a shortest way through a group does not pass through the same group again
  (\<open>shorter_body\<close>), so it is enough to look at the ways that bar the groups under way.
\<close>

subsection \<open>What a reference leads to\<close>

definition brackets_of :: "study_env \<Rightarrow> nat \<Rightarrow> nat list" where
  "brackets_of e p =
    List.map_filter (\<lambda>n. case find_bracket (st_code e) (st_start e) (st_utf e) (int n) of Some r \<Rightarrow> r | None \<Rightarrow> None)
      (ref_numbers e p)"

abbreviation refs_of :: "study_env \<Rightarrow> nat \<Rightarrow> nat set" where
  "refs_of e p \<equiv> set (brackets_of e p)"

subsection \<open>Items\<close>

lemma min_class_next:
  assumes "min_class code r = Adds d q'"
  shows "cr_next code r = q'"
proof (cases "OP_CRSTAR \<le> opc code r \<and> opc code r \<le> OP_CRPOSRANGE")
  case True
  have "opc code r \<in> {OP_CRPLUS, OP_CRMINPLUS, OP_CRPOSPLUS} \<union> {OP_CRSTAR, OP_CRMINSTAR, OP_CRQUERY, OP_CRMINQUERY,
      OP_CRPOSSTAR, OP_CRPOSQUERY} \<union> {OP_CRRANGE, OP_CRMINRANGE, OP_CRPOSRANGE}"
    by (rule in_range [OF _ conjunct1 [OF True] conjunct2 [OF True]]) code_simp
  then show ?thesis using assms by (elim UnE insertE emptyE) (simp_all add: min_class_def cr_next_def)
next
  case False
  then have "\<not> (opc code r = OP_CRPLUS \<or> opc code r = OP_CRMINPLUS \<or> opc code r = OP_CRPOSPLUS)"
    "opc code r \<notin> {OP_CRSTAR, OP_CRMINSTAR, OP_CRQUERY, OP_CRMINQUERY, OP_CRPOSSTAR, OP_CRPOSQUERY}"
    "\<not> (opc code r = OP_CRRANGE \<or> opc code r = OP_CRMINRANGE \<or> opc code r = OP_CRPOSRANGE)" by auto
  then have "min_class code r = Adds 1 r" "cr_next code r = r"
    using False by (simp_all only: min_class_def cr_next_def Let_def if_False)
  with assms show ?thesis by simp
qed

lemma min_class_sound: "min_class code r = Adds d q' \<Longrightarrow> cr_times code r k \<Longrightarrow> d \<le> int k"
  by (auto simp: min_class_def cr_times_def Let_def split: if_splits)

lemma if_eqE:
  assumes "(if P then x else y) = z" "P \<Longrightarrow> x = z \<Longrightarrow> R" "\<not> P \<Longrightarrow> y = z \<Longrightarrow> R"
  shows R
  using assms by (cases P) simp_all

lemma AddsE: "Adds a b = Adds c d \<Longrightarrow> (c = a \<Longrightarrow> d = b \<Longrightarrow> R) \<Longrightarrow> R"
  by simp

lemma min_item_cases:
  assumes "min_item utf code p = Adds d q'"
  obtains (skip) "opc code p \<in> min_skip_ops" "d = 0" "q' = p + op_length (opc code p)"
    | (verb) "opc code p \<in> {OP_CLOSE, OP_COMMIT, OP_FAIL, OP_PRUNE, OP_SET_SOM, OP_SKIP, OP_THEN}"
      "d = 0" "q' = p + op_length (opc code p)"
    | (char) "opc code p \<in> min_char_ops" "d = 1" "q' = over_char utf code (p + 2)"
    | (typeplus) "opc code p \<in> {OP_TYPEPLUS, OP_TYPEMINPLUS, OP_TYPEPOSPLUS}" "d = 1"
      "q' = p + (if is_prop (opc code (p + 1)) then 4 else 2)"
    | (exact) "opc code p \<in> {OP_EXACT, OP_EXACTI, OP_NOTEXACT, OP_NOTEXACTI}" "d = int (GET2 code p 1)"
      "q' = over_char utf code (p + 2 + IMM2_SIZE)"
    | (typeexact) "opc code p = OP_TYPEEXACT" "d = int (GET2 code p 1)"
      "q' = p + 2 + IMM2_SIZE + (if is_prop (opc code (p + 1 + IMM2_SIZE)) then 2 else 0)"
    | (property) "is_prop (opc code p)" "d = 1" "q' = p + 2 + 1"
    | (single) "opc code p \<in> min_single_ops" "d = 1" "q' = p + 1"
    | (newline) "opc code p = OP_ANYNL" "d = 1" "q' = p + 1"
    | (byte) "opc code p = OP_ANYBYTE" "d = 1" "q' = p + 1"
    | (typestar) "opc code p \<in> {OP_TYPESTAR, OP_TYPEMINSTAR, OP_TYPEQUERY, OP_TYPEMINQUERY, OP_TYPEPOSSTAR, OP_TYPEPOSQUERY}"
      "d = 0" "q' = p + (if is_prop (opc code (p + 1)) then 2 else 0) + op_length (opc code p)"
    | (typeupto) "opc code p \<in> {OP_TYPEUPTO, OP_TYPEMINUPTO, OP_TYPEPOSUPTO}" "d = 0"
      "q' = p + (if is_prop (opc code (p + 1 + IMM2_SIZE)) then 2 else 0) + op_length (opc code p)"
    | (xclass) "opc code p = OP_XCLASS" "min_class code (p + GET code p 1) = Adds d q'"
    | (bitmap) "opc code p = OP_CLASS \<or> opc code p = OP_NCLASS" "min_class code (p + op_length OP_CLASS) = Adds d q'"
    | (zero) "opc code p \<in> min_zero_ops" "d = 0" "q' = over_char utf code (p + op_length (opc code p))"
    | (arg) "opc code p \<in> arg_ops" "d = 0" "q' = p + op_length (opc code p) + opc code (p + 1)"
proof -
  show thesis
    using assms unfolding min_item_def Let_def
    by - (elim if_eqE AddsE; ((rule that; assumption) | simp only: fixed_move.distinct))
qed

lemmas min_sets = min_skip_ops_def min_char_ops_def min_single_ops_def min_zero_ops_def arg_ops_def is_prop_def

text \<open>The step over an item, by the kind of its opcode.\<close>

lemma item_end_char:
  assumes "has_char_arg op \<and> op \<notin> type_repeat_ops \<and> op \<notin> type_count_ops \<and> op \<notin> arg_ops \<and> op \<noteq> OP_XCLASS"
    "opc code p = op"
  shows "item_end utf code p = over_char utf code (p + op_length op)"
  using assms by (simp add: item_end_def skip_item_def over_char_def Let_def)

lemma item_end_table:
  assumes "\<not> has_char_arg op \<and> op \<notin> type_repeat_ops \<and> op \<notin> type_count_ops \<and> op \<notin> arg_ops \<and> op \<noteq> OP_XCLASS"
    "opc code p = op"
  shows "item_end utf code p = p + op_length op"
  using assms by (simp add: item_end_def skip_item_def)

lemma item_end_type:
  assumes "\<not> has_char_arg op \<and> op \<noteq> OP_XCLASS" "opc code p = op"
  shows "op \<in> type_repeat_ops \<Longrightarrow> item_end utf code p = p + (if is_prop (opc code (p + 1)) then 2 else 0) + op_length op"
    "op \<notin> type_repeat_ops \<Longrightarrow> op \<in> type_count_ops \<Longrightarrow>
      item_end utf code p = p + (if is_prop (opc code (p + 1 + IMM2_SIZE)) then 2 else 0) + op_length op"
  using assms by (simp_all add: item_end_def skip_item_def)

lemma item_end_arg:
  assumes "\<not> has_char_arg op \<and> op \<noteq> OP_XCLASS \<and> op \<notin> type_repeat_ops \<and> op \<notin> type_count_ops" "op \<in> arg_ops" "opc code p = op"
  shows "item_end utf code p = p + op_length op + opc code (p + 1)"
  using assms by (simp add: item_end_def skip_item_def)

lemma char_kinds:
  "\<forall>op\<in>min_char_ops. (has_char_arg op \<and> op \<notin> type_repeat_ops \<and> op \<notin> type_count_ops \<and> op \<notin> arg_ops \<and> op \<noteq> OP_XCLASS) \<and>
     op_length op = 2"
  "\<forall>op\<in>{OP_EXACT, OP_EXACTI, OP_NOTEXACT, OP_NOTEXACTI}. (has_char_arg op \<and> op \<notin> type_repeat_ops \<and> op \<notin> type_count_ops \<and>
     op \<notin> arg_ops \<and> op \<noteq> OP_XCLASS) \<and> op_length op = 2 + IMM2_SIZE"
  "\<forall>op\<in>min_zero_ops. has_char_arg op \<and> op \<notin> type_repeat_ops \<and> op \<notin> type_count_ops \<and> op \<notin> arg_ops \<and> op \<noteq> OP_XCLASS"
  by code_simp+

lemma table_kinds:
  "\<forall>op\<in>min_skip_ops \<union> {OP_CLOSE, OP_COMMIT, OP_FAIL, OP_PRUNE, OP_SET_SOM, OP_SKIP, OP_THEN}.
     \<not> has_char_arg op \<and> op \<notin> type_repeat_ops \<and> op \<notin> type_count_ops \<and> op \<notin> arg_ops \<and> op \<noteq> OP_XCLASS"
  "\<forall>op\<in>{OP_PROP, OP_NOTPROP}. (\<not> has_char_arg op \<and> op \<notin> type_repeat_ops \<and> op \<notin> type_count_ops \<and> op \<notin> arg_ops \<and>
     op \<noteq> OP_XCLASS) \<and> op_length op = 2 + 1"
  "\<forall>op\<in>min_single_ops \<union> {OP_ANYNL, OP_ANYBYTE}. (\<not> has_char_arg op \<and> op \<notin> type_repeat_ops \<and> op \<notin> type_count_ops \<and>
     op \<notin> arg_ops \<and> op \<noteq> OP_XCLASS) \<and> op_length op = 1"
  by code_simp+

lemma type_kinds:
  "\<forall>op\<in>{OP_TYPEPLUS, OP_TYPEMINPLUS, OP_TYPEPOSPLUS}. (\<not> has_char_arg op \<and> op \<noteq> OP_XCLASS) \<and> op \<in> type_repeat_ops \<and>
     op_length op = 2"
  "\<forall>op\<in>{OP_TYPESTAR, OP_TYPEMINSTAR, OP_TYPEQUERY, OP_TYPEMINQUERY, OP_TYPEPOSSTAR, OP_TYPEPOSQUERY}.
     (\<not> has_char_arg op \<and> op \<noteq> OP_XCLASS) \<and> op \<in> type_repeat_ops"
  "\<forall>op\<in>{OP_TYPEUPTO, OP_TYPEMINUPTO, OP_TYPEPOSUPTO}. (\<not> has_char_arg op \<and> op \<noteq> OP_XCLASS) \<and>
     op \<notin> type_repeat_ops \<and> op \<in> type_count_ops"
  "(\<not> has_char_arg OP_TYPEEXACT \<and> OP_TYPEEXACT \<noteq> OP_XCLASS) \<and> OP_TYPEEXACT \<notin> type_repeat_ops \<and> OP_TYPEEXACT \<in> type_count_ops \<and>
     op_length OP_TYPEEXACT = 2 + IMM2_SIZE"
  "\<forall>op\<in>arg_ops. \<not> has_char_arg op \<and> op \<noteq> OP_XCLASS \<and> op \<notin> type_repeat_ops \<and> op \<notin> type_count_ops"
  by code_simp+

lemma min_item_end:
  assumes "min_item utf code p = Adds d q'" "opc code p \<notin> {OP_CLASS, OP_NCLASS, OP_XCLASS}"
  shows "item_end utf code p = q'"
  using assms(1)
proof (cases rule: min_item_cases)
  case skip
  with item_end_table [OF bspec [OF table_kinds(1)]] show ?thesis by blast
next
  case verb
  with item_end_table [OF bspec [OF table_kinds(1)]] show ?thesis by blast
next
  case char
  with item_end_char [OF conjunct1 [OF bspec [OF char_kinds(1) char(1)]] refl] bspec [OF char_kinds(1)]
  show ?thesis by simp
next
  case typeplus
  from bspec [OF type_kinds(1) this(1)] item_end_type(1) [of "opc code p" code p utf] typeplus(3) show ?thesis by simp
next
  case exact
  from bspec [OF char_kinds(2) this(1)] item_end_char [of "opc code p" code p utf] exact(3) show ?thesis
    by (simp only: simp_thms add.assoc)
next
  case typeexact
  with type_kinds(4) item_end_type(2) [of "opc code p" code p utf] show ?thesis by simp
next
  case property
  then have "opc code p \<in> {OP_PROP, OP_NOTPROP}" by (auto simp: is_prop_def)
  from bspec [OF table_kinds(2) this] item_end_table [of "opc code p" code p utf] property(3) show ?thesis
    by (simp only: simp_thms add.assoc)
next
  case single
  then have "opc code p \<in> min_single_ops \<union> {OP_ANYNL, OP_ANYBYTE}" by blast
  from bspec [OF table_kinds(3) this] item_end_table [of "opc code p" code p utf] single(3) show ?thesis
    by (simp only: simp_thms)
next
  case newline
  then have "opc code p \<in> min_single_ops \<union> {OP_ANYNL, OP_ANYBYTE}" by blast
  from bspec [OF table_kinds(3) this] item_end_table [of "opc code p" code p utf] newline(3) show ?thesis
    by (simp only: simp_thms)
next
  case byte
  then have "opc code p \<in> min_single_ops \<union> {OP_ANYNL, OP_ANYBYTE}" by blast
  from bspec [OF table_kinds(3) this] item_end_table [of "opc code p" code p utf] byte(3) show ?thesis
    by (simp only: simp_thms)
next
  case typestar
  from bspec [OF type_kinds(2) this(1)] item_end_type(1) [of "opc code p" code p utf] typestar(3) show ?thesis
    by (simp only: simp_thms)
next
  case typeupto
  from bspec [OF type_kinds(3) this(1)] item_end_type(2) [of "opc code p" code p utf] typeupto(3) show ?thesis
    by (simp only: simp_thms)
next
  case zero
  with item_end_char [OF bspec [OF char_kinds(3) zero(1)] refl] show ?thesis by simp
next
  case arg
  with item_end_arg [OF bspec [OF type_kinds(5) arg(1)] arg(1) refl] show ?thesis by simp
qed (use assms(2) in simp_all)

lemma min_item_sound:
  assumes "min_item utf code p = Adds d q'" "item_length code p k"
  shows "d \<le> int k"
  using assms(1)
proof (cases rule: min_item_cases)
  case char
  then show ?thesis using assms(2) unfolding min_char_ops_def
    by (elim insertE emptyE) (simp_all add: item_length_def op_sets is_prop_def times_def)
next
  case typeplus
  then show ?thesis using assms(2)
    by (elim insertE emptyE)
      (auto simp: item_length_def op_sets is_prop_def times_def type_length_def list_ex_iff split: if_splits)
next
  case exact
  then show ?thesis using assms(2)
    by (elim insertE emptyE) (simp_all add: item_length_def op_sets is_prop_def times_def)
next
  case typeexact
  then show ?thesis using assms(2)
    by (auto simp: item_length_def op_sets is_prop_def times_def type_length_def list_ex_iff split: if_splits)
next
  case property
  then show ?thesis using assms(2) unfolding is_prop_def
    by (elim disjE) (simp_all add: item_length_def op_sets is_prop_def)
next
  case single
  then show ?thesis using assms(2) unfolding min_single_ops_def
    by (elim insertE emptyE) (simp_all add: item_length_def op_sets is_prop_def type_length_def)
next
  case newline
  then show ?thesis using assms(2) by (simp add: item_length_def op_sets is_prop_def type_length_def)
next
  case byte
  then show ?thesis using assms(2) by (simp add: item_length_def op_sets is_prop_def type_length_def)
next
  case xclass
  then show ?thesis using assms(2) min_class_sound by (simp add: item_length_def op_sets is_prop_def)
next
  case bitmap
  then show ?thesis using assms(2) min_class_sound [OF bitmap(2)]
    by (elim disjE) (simp_all add: item_length_def op_sets is_prop_def)
qed simp_all

text \<open>Inversion of the ways through an item.\<close>

abbreviation way :: "study_env \<Rightarrow> nat set \<Rightarrow> nat \<Rightarrow> nat \<Rightarrow> nat \<Rightarrow> bool" where
  "way e A p q k \<equiv> runs (st_utf e) (st_code e) (st_start e) (refs_of e) (st_js e) A p q k"

abbreviation way_item :: "study_env \<Rightarrow> nat set \<Rightarrow> nat \<Rightarrow> nat \<Rightarrow> bool" where
  "way_item e A p k \<equiv> item (st_utf e) (st_code e) (st_start e) (refs_of e) (st_js e) A p k"

abbreviation way_body :: "study_env \<Rightarrow> nat set \<Rightarrow> nat \<Rightarrow> nat \<Rightarrow> bool" where
  "way_body e A p k \<equiv> body (st_utf e) (st_code e) (st_start e) (refs_of e) (st_js e) A p k"

lemma item_length_kinds:
  assumes "item_length code p k"
  shows "\<not> is_group (opc code p)" "\<not> is_assertion (opc code p)" "\<not> is_zero (opc code p)" "opc code p \<notin> reference_ops"
    "opc code p \<noteq> OP_RECURSE"
  using item_length_plain(3,4,6) [OF assms] item_length_ops [OF assms] by (auto simp: loop_ops_def)

lemma kinds_apart:
  "\<forall>op\<in>{OP_BRA, OP_BRAPOS, OP_CBRA, OP_CBRAPOS, OP_ONCE, OP_ONCE_NC, OP_COND, OP_SBRA, OP_SBRAPOS, OP_SCBRA, OP_SCBRAPOS,
     OP_SCOND}. \<not> is_assertion op \<and> \<not> is_zero op \<and> op \<notin> reference_ops \<and> op \<noteq> OP_RECURSE"
  "\<forall>op\<in>reference_ops. \<not> is_group op \<and> \<not> is_assertion op \<and> \<not> is_zero op \<and> op \<noteq> OP_RECURSE"
  "\<not> is_group OP_RECURSE \<and> \<not> is_assertion OP_RECURSE \<and> \<not> is_zero OP_RECURSE \<and> OP_RECURSE \<notin> reference_ops"
  by code_simp+

lemma way_item_group:
  assumes "way_item e A p k" "is_group (opc (st_code e) p)"
  shows "way_body e A p k"
proof -
  have "\<not> is_assertion (opc (st_code e) p) \<and> \<not> is_zero (opc (st_code e) p) \<and> opc (st_code e) p \<notin> reference_ops \<and>
    opc (st_code e) p \<noteq> OP_RECURSE"
    using assms(2) bspec [OF kinds_apart(1)] unfolding is_group_def by blast
  with assms show ?thesis by (cases rule: item.cases) (auto dest: item_length_kinds(1))
qed

lemma way_item_call:
  assumes "way_item e A p k" "opc (st_code e) p = OP_RECURSE"
  shows "st_start e + GET (st_code e) p 1 \<notin> A \<and> way_body e A (st_start e + GET (st_code e) p 1) k"
  using assms kinds_apart(3) by (cases rule: item.cases) (auto dest: item_length_kinds(5))

lemma way_item_reference:
  assumes "way_item e A p k" "opc (st_code e) p \<in> reference_ops"
  shows "(k = 0 \<and> (st_js e \<or> cr_times (st_code e) (item_end (st_utf e) (st_code e) p) 0)) \<or>
    (\<exists>g c j. g \<in> refs_of e p \<and> g \<notin> A \<and> way_body e A g j \<and>
      cr_times (st_code e) (item_end (st_utf e) (st_code e) p) (Suc c) \<and> k = Suc c * j)"
proof -
  note kinds = bspec [OF kinds_apart(2) assms(2)]
  from assms(1) show ?thesis
  proof (cases rule: item.cases)
    case simple
    with assms(2) item_length_kinds(4) show ?thesis by blast
  next
    case (reference g j c)
    then show ?thesis by blast
  qed (use kinds in auto)
qed

lemma way_item_plain:
  assumes "way_item e A p k" "\<not> is_group (opc (st_code e) p)" "\<not> is_assertion (opc (st_code e) p)"
    "\<not> is_zero (opc (st_code e) p)" "opc (st_code e) p \<notin> reference_ops" "opc (st_code e) p \<noteq> OP_RECURSE"
  shows "item_length (st_code e) p k"
  using assms by (cases rule: item.cases) auto

lemma way_step:
  assumes "way e A p q k" "after (st_utf e) (st_code e) p = Some r" "is_end (opc (st_code e) q)"
    "\<not> is_end (opc (st_code e) p)"
  shows "\<exists>j i. way_item e A p j \<and> way e A r q i \<and> k = j + i"
  using assms by (cases rule: runs.cases) auto

lemma way_stops:
  assumes "way e A p q k" "after (st_utf e) (st_code e) p = None"
  shows "q = p \<and> k = 0"
  using assms by (cases rule: runs.cases) auto

text \<open>A way through a group that passes through it again is not the shortest.\<close>

lemma ways_without:
  shows runs_without: "runs utf code start refs js A p q k \<Longrightarrow>
      runs utf code start refs js (insert g A) p q k \<or> (\<exists>j\<le>k. body utf code start refs js (insert g A) g j)"
    and item_without: "item utf code start refs js A p k \<Longrightarrow>
      item utf code start refs js (insert g A) p k \<or> (\<exists>j\<le>k. body utf code start refs js (insert g A) g j)"
    and body_without: "body utf code start refs js A p k \<Longrightarrow>
      body utf code start refs js (insert g A) p k \<or> (\<exists>j\<le>k. body utf code start refs js (insert g A) g j)"
proof (induction rule: runs_item_body.inducts)
  case (more p j q e k)
  from more.IH(2) more.IH(5) show ?case
  proof (elim disjE exE conjE, goal_cases)
    case 1
    with runs_item_body.more [OF 1(1) more.IH(3) 1(2)] show ?case by blast
  qed (meson le_add1 le_add2 order_trans)+
next
  case (call p k)
  show ?case
  proof (cases "start + GET code p 1 = g")
    case True
    with call.IH(4) show ?thesis by auto
  next
    case False
    with call.IH show ?thesis by (auto intro: runs_item_body.call)
  qed
next
  case (reference p h k c)
  have "k \<le> Suc c * k" by simp
  show ?case
  proof (cases "h = g")
    case True
    with reference.IH(5) \<open>k \<le> Suc c * k\<close> order_trans show ?thesis by blast
  next
    case False
    with reference.IH \<open>k \<le> Suc c * k\<close> show ?thesis
      by (metis insertE order_trans runs_item_body.reference)
  qed
next
  case (again p j k ket)
  from again.IH(2,4) show ?case
  proof (elim disjE exE conjE, goal_cases)
    case 1
    with runs_item_body.again [OF 1(1,2) again.IH(5,6)] show ?case by blast
  qed (meson le_add1 le_add2 order_trans)+
qed (auto intro: runs_item_body.intros)

lemma shorter_body:
  assumes "body utf code start refs js A g k"
  shows "\<exists>j\<le>k. body utf code start refs js (insert g A) g j"
  using body_without [OF assms] by blast

lemma body_branch:
  assumes "body utf code start refs js A g k"
  shows "((opc code g = OP_COND \<or> opc code g = OP_SCOND) \<and> opc code (branch_end code g) \<noteq> OP_ALT) \<or>
    (\<exists>a j. alternative code g a \<and> j \<le> k \<and> runs utf code start refs js A (branch_at code a) (branch_end code a) j)"
  using assms
proof (induction rule: runs_item_body.inducts(3) [of utf code start refs js A _ _ "\<lambda>_ _ _. True" "\<lambda>_ _. True"])
  case (again p j k ket)
  then show ?case by (meson le_add1 order_trans)
qed auto

subsection \<open>The walk as a relation\<close>

text \<open>The successful runs of the three functions; the induction over them is the induction over
  the walk, without its failures.\<close>

definition min_other_ops :: "nat set" where
  "min_other_ops = {OP_ACCEPT, OP_ASSERT_ACCEPT, OP_ASSERT, OP_ASSERT_NOT, OP_ASSERTBACK, OP_ASSERTBACK_NOT,
     OP_BRAZERO, OP_BRAMINZERO, OP_BRAPOSZERO, OP_SKIPZERO, OP_DNREF, OP_DNREFI, OP_REF, OP_REFI, OP_RECURSE}"

abbreviation recursion_at :: "study_env \<Rightarrow> nat list \<Rightarrow> nat \<Rightarrow> nat \<Rightarrow> nat \<Rightarrow> bool" where
  "recursion_at e recs cc cs ce \<equiv> cs < cc \<and> cc < ce \<or> cs \<in> set recs"

abbreviation shorter :: "int \<Rightarrow> int \<Rightarrow> bool \<Rightarrow> int" where
  "shorter len bl had \<equiv> if len < 0 \<or> \<not> had \<and> bl < len then bl else len"

inductive group_gives :: "study_env \<Rightarrow> nat list \<Rightarrow> nat \<Rightarrow> nat \<Rightarrow> int \<times> nat \<Rightarrow> bool"
  and loop_gives :: "study_env \<Rightarrow> nat list \<Rightarrow> int \<Rightarrow> int \<Rightarrow> bool \<Rightarrow> nat \<Rightarrow> nat \<Rightarrow> int \<times> nat \<Rightarrow> bool"
  and refs_give :: "study_env \<Rightarrow> nat list \<Rightarrow> nat \<Rightarrow> nat list \<Rightarrow> int \<Rightarrow> nat \<Rightarrow> (int \<times> bool) option \<times> nat \<Rightarrow> bool"
  for e
where
  many: "1000 < count \<Longrightarrow> group_gives e recs p count (-1, count + 1)"
| enter: "count \<le> 1000 \<Longrightarrow> loop_gives e recs (-1) 0 False
      (p + 1 + LINK_SIZE + (if is_cbra (opc (st_code e) p) then IMM2_SIZE else 0)) (count + 1) r \<Longrightarrow>
    group_gives e recs p count r"
| single: "opc (st_code e) cc = OP_COND \<or> opc (st_code e) cc = OP_SCOND \<Longrightarrow>
    opc (st_code e) (branch_end (st_code e) cc) \<noteq> OP_ALT \<Longrightarrow>
    loop_gives e recs len bl had (branch_end (st_code e) cc + 1 + LINK_SIZE) count r \<Longrightarrow>
    loop_gives e recs len bl had cc count r"
| group_fails: "opc (st_code e) cc \<in> min_group_ops \<Longrightarrow> group_gives e recs cc count (d, c) \<Longrightarrow> d < 0 \<Longrightarrow>
    loop_gives e recs len bl had cc count (d, c)"
| inner: "opc (st_code e) cc \<in> min_group_ops \<Longrightarrow> \<not> one_branch_cond (st_code e) cc \<Longrightarrow>
    group_gives e recs cc count (d, c) \<Longrightarrow> 0 \<le> d \<Longrightarrow> skip_alts (st_code e) cc = Some ket \<Longrightarrow>
    loop_gives e recs len (bl + d) had (ket + 1 + LINK_SIZE) c r \<Longrightarrow> loop_gives e recs len bl had cc count r"
| accept: "opc (st_code e) cc \<in> {OP_ACCEPT, OP_ASSERT_ACCEPT} \<Longrightarrow> loop_gives e recs len bl had cc count (-1, count)"
| finish: "opc (st_code e) cc \<in> min_end_ops \<Longrightarrow> opc (st_code e) cc \<noteq> OP_ALT \<Longrightarrow>
    loop_gives e recs len bl had cc count (shorter len bl had, count)"
| alternate: "opc (st_code e) cc = OP_ALT \<Longrightarrow>
    loop_gives e recs (shorter len bl had) 0 False (cc + 1 + LINK_SIZE) count r \<Longrightarrow> loop_gives e recs len bl had cc count r"
| assertion: "opc (st_code e) cc \<in> {OP_ASSERT, OP_ASSERT_NOT, OP_ASSERTBACK, OP_ASSERTBACK_NOT} \<Longrightarrow>
    skip_alts (st_code e) cc = Some ket \<Longrightarrow>
    loop_gives e recs len bl had (ket + op_length (opc (st_code e) ket)) count r \<Longrightarrow> loop_gives e recs len bl had cc count r"
| zero: "opc (st_code e) cc \<in> {OP_BRAZERO, OP_BRAMINZERO, OP_BRAPOSZERO, OP_SKIPZERO} \<Longrightarrow>
    skip_alts (st_code e) (branch_at (st_code e) cc) = Some ket \<Longrightarrow>
    loop_gives e recs len bl had (ket + 1 + LINK_SIZE) count r \<Longrightarrow> loop_gives e recs len bl had cc count r"
| reference_js: "opc (st_code e) cc \<in> {OP_DNREF, OP_DNREFI, OP_REF, OP_REFI} \<Longrightarrow> st_js e \<Longrightarrow>
    min_repeat (st_code e) (cc + (if opc (st_code e) cc = OP_DNREF \<or> opc (st_code e) cc = OP_DNREFI
      then 1 + 2 * IMM2_SIZE else 1 + IMM2_SIZE)) = (m, q) \<Longrightarrow>
    loop_gives e recs len bl had q count r \<Longrightarrow> loop_gives e recs len bl had cc count r"
| reference_fails: "opc (st_code e) cc \<in> {OP_DNREF, OP_DNREFI, OP_REF, OP_REFI} \<Longrightarrow> \<not> st_js e \<Longrightarrow>
    refs_give e recs cc (ref_numbers e cc) INT_MAX count (None, c) \<Longrightarrow> loop_gives e recs len bl had cc count (-2, c)"
| reference: "opc (st_code e) cc \<in> {OP_DNREF, OP_DNREFI, OP_REF, OP_REFI} \<Longrightarrow> \<not> st_js e \<Longrightarrow>
    refs_give e recs cc (ref_numbers e cc) INT_MAX count (Some (d, rec), c) \<Longrightarrow>
    min_repeat (st_code e) (cc + (if opc (st_code e) cc = OP_DNREF \<or> opc (st_code e) cc = OP_DNREFI
      then 1 + 2 * IMM2_SIZE else 1 + IMM2_SIZE)) = (m, q) \<Longrightarrow>
    loop_gives e recs len (bl + m * d) (had \<or> rec) q c r \<Longrightarrow> loop_gives e recs len bl had cc count r"
| recursion: "opc (st_code e) cc = OP_RECURSE \<Longrightarrow> skip_alts (st_code e) (st_start e + GET (st_code e) cc 1) = Some ce \<Longrightarrow>
    recursion_at e recs cc (st_start e + GET (st_code e) cc 1) ce \<Longrightarrow>
    loop_gives e recs len bl True (cc + 1 + LINK_SIZE) count r \<Longrightarrow> loop_gives e recs len bl had cc count r"
| call: "opc (st_code e) cc = OP_RECURSE \<Longrightarrow> skip_alts (st_code e) (st_start e + GET (st_code e) cc 1) = Some ce \<Longrightarrow>
    group_gives e ((st_start e + GET (st_code e) cc 1) # recs) (st_start e + GET (st_code e) cc 1) count (d, c) \<Longrightarrow>
    loop_gives e recs len (bl + d) had (cc + 1 + LINK_SIZE) c r \<Longrightarrow> loop_gives e recs len bl had cc count r"
| step: "opc (st_code e) cc \<notin> min_group_ops \<union> min_end_ops \<union> min_other_ops \<Longrightarrow>
    min_item (st_utf e) (st_code e) cc = Adds d q \<Longrightarrow> loop_gives e recs len (bl + d) had q count r \<Longrightarrow>
    loop_gives e recs len bl had cc count r"
| unknown: "opc (st_code e) cc \<notin> min_group_ops \<union> min_end_ops \<union> min_other_ops \<Longrightarrow>
    min_item (st_utf e) (st_code e) cc = Returns n \<Longrightarrow> loop_gives e recs len bl had cc count (n, count)"
| no_refs: "refs_give e recs cc [] d count (Some (d, False), count)"
| ref_missing: "find_bracket (st_code e) (st_start e) (st_utf e) (int n) = Some None \<Longrightarrow>
    refs_give e recs cc (n # ns) d count (None, count)"
| ref_recursion: "find_bracket (st_code e) (st_start e) (st_utf e) (int n) = Some (Some cs) \<Longrightarrow>
    skip_alts (st_code e) cs = Some ce \<Longrightarrow> recursion_at e recs cc cs ce \<Longrightarrow>
    refs_give e recs cc (n # ns) d count (Some (0, True), count)"
| ref_group: "find_bracket (st_code e) (st_start e) (st_utf e) (int n) = Some (Some cs) \<Longrightarrow>
    group_gives e (cs # recs) cs count (dd, c) \<Longrightarrow> refs_give e recs cc ns (if dd < d then dd else d) c r \<Longrightarrow>
    refs_give e recs cc (n # ns) d count r"

lemma walk_gives:
  shows group_gives: "min_group e recs p count = Some r \<Longrightarrow> group_gives e recs p count r"
    and loop_gives: "min_loop e recs len bl had cc count = Some r \<Longrightarrow> loop_gives e recs len bl had cc count r"
    and refs_give: "min_refs e recs cc ns d count = Some s \<Longrightarrow> refs_give e recs cc ns d count s"
proof (induction e recs p count and e recs len bl had cc count and e recs cc ns d count
    arbitrary: r and r and s rule: min_group_min_loop_min_refs.induct)
  case (1 e recs p count)
  note eq = "1.prems" [unfolded min_group.simps [of e recs p count]]
  show ?case
  proof (cases "1000 < count")
    case True
    with eq have "r = (-1, count + 1)" by simp
    with many [OF True] show ?thesis by simp
  next
    case False
    with eq have len: "\<not> \<not> p < length (st_code e)" by (auto split: if_splits)
    with eq False have r: "min_loop e recs (-1) 0 False
      (p + 1 + LINK_SIZE + (if is_cbra (opc (st_code e) p) then IMM2_SIZE else 0)) (count + 1) = Some r"
      by (simp only: if_False not_not simp_thms)
    from False have "count \<le> 1000" by simp
    then show ?thesis by (rule enter) (rule "1.IH" [OF False len r])
  qed
next
  case (2 e recs len bl had cc count)
  note eq = "2.prems" [unfolded min_loop.simps [of e recs len bl had cc count] Let_def]
  let ?code = "st_code e" let ?op = "opc ?code cc"
  show ?case
  proof (cases "(?op = OP_COND \<or> ?op = OP_SCOND) \<and> opc ?code (cc + GET ?code cc 1) \<noteq> OP_ALT")
    case True
    show ?thesis by (rule single [OF conjunct1 [OF True] conjunct2 [OF True] "2.IH"(1) [OF refl refl True eq [unfolded if_P [OF True]]]])
  next
    case n1: False
    note eq = eq [unfolded if_not_P [OF n1]] and IH = "2.IH"(2-) [OF refl refl n1]
    show ?thesis
    proof (cases "?op \<in> min_group_ops")
      case True
      note eq = eq [unfolded if_P [OF True]]
      from eq obtain d c where g: "min_group e recs cc count = Some (d, c)" by (auto split: option.splits)
      note eq = eq [unfolded g option.case prod.case] and gg = IH(1) [OF True g]
      show ?thesis
      proof (cases "d < 0")
        case neg: True
        with eq have "r = (d, c)" by simp
        with group_fails [OF True gg neg] show ?thesis by simp
      next
        case False
        note eq = eq [unfolded if_not_P [OF False]]
        from eq obtain ket where k: "skip_alts ?code cc = Some ket" "in_int (bl + d)"
          "min_loop e recs len (bl + d) had (ket + 1 + LINK_SIZE) c = Some r"
          by (auto split: option.splits if_splits)
        have one: "\<not> one_branch_cond ?code cc" and d: "0 \<le> d"
          using n1 False by auto
        show ?thesis by (rule inner [OF True one gg d k(1) IH(2) [OF True g refl False k]])
      qed
    next
      case n2: False
      note eq = eq [unfolded if_not_P [OF n2]] and IH = IH(3-) [OF n2]
      show ?thesis
      proof (cases "?op = OP_ACCEPT \<or> ?op = OP_ASSERT_ACCEPT")
        case True
        with eq have "r = (-1, count)" by simp
        with accept [of e cc recs len bl had count] True show ?thesis by simp
      next
        case n3: False
        note eq = eq [unfolded if_not_P [OF n3]] and IH = IH [OF n3]
        show ?thesis
        proof (cases "?op \<in> min_end_ops")
          case True
          note eq = eq [unfolded if_P [OF True]]
          show ?thesis
          proof (cases "?op \<noteq> OP_ALT")
            case stops: True
            with eq have "r = (shorter len bl had, count)" by simp
            with finish [OF True stops] show ?thesis by simp
          next
            case False
            from False have alt: "?op = OP_ALT" by simp
            show ?thesis by (rule alternate [OF alt IH(1) [OF True refl False eq [unfolded if_not_P [OF False]]]])
          qed
        next
          case n4: False
          note eq = eq [unfolded if_not_P [OF n4]] and IH = IH(2-) [OF n4]
          show ?thesis
          proof (cases "?op \<in> {OP_ASSERT, OP_ASSERT_NOT, OP_ASSERTBACK, OP_ASSERTBACK_NOT}")
            case True
            note eq = eq [unfolded if_P [OF True]]
            from eq obtain ket where k: "skip_alts ?code cc = Some ket"
              "min_loop e recs len bl had (ket + op_length (opc ?code ket)) count = Some r" by (auto split: option.splits)
            show ?thesis by (rule assertion [OF True k(1) IH(1) [OF True k]])
          next
            case n5: False
            note eq = eq [unfolded if_not_P [OF n5]] and IH = IH(2-) [OF n5]
            show ?thesis
            proof (cases "?op \<in> {OP_BRAZERO, OP_BRAMINZERO, OP_BRAPOSZERO, OP_SKIPZERO}")
              case True
              note eq = eq [unfolded if_P [OF True]]
              from eq obtain ket where k: "skip_alts ?code (cc + op_length ?op) = Some ket" "cc < ket"
                "min_loop e recs len bl had (ket + 1 + LINK_SIZE) count = Some r" by (auto split: option.splits if_splits)
              show ?thesis by (rule zero [OF True k(1) IH(1) [OF True k]])
            next
              case n6: False
              note eq = eq [unfolded if_not_P [OF n6]] and IH = IH(2-) [OF n6]
              show ?thesis
              proof (cases "?op \<in> {OP_DNREF, OP_DNREFI, OP_REF, OP_REFI}")
                case True
                note eq = eq [unfolded if_P [OF True]]
                from eq obtain u c where u: "(if st_js e then Some (Some (0, False), count)
                  else min_refs e recs cc (ref_numbers e cc) INT_MAX count) = Some (u, c)" by (auto split: option.splits)
                note eq = eq [unfolded u option.case prod.case]
                show ?thesis
                proof (cases u)
                  case None
                  with u None have js: "\<not> st_js e" and m: "min_refs e recs cc (ref_numbers e cc) INT_MAX count = Some (None, c)"
                    by (auto split: if_splits)
                  from eq None have "r = (-2, c)" by simp
                  with reference_fails [OF True js IH(1) [OF True js m]] show ?thesis by simp
                next
                  case (Some dr)
                  obtain d rec where dr: "dr = (d, rec)" by (cases dr)
                  obtain m q where mq: "min_repeat ?code (cc + (if ?op = OP_DNREF \<or> ?op = OP_DNREFI
                      then 1 + 2 * IMM2_SIZE else 1 + IMM2_SIZE)) = (m, q)" by (metis surj_pair)
                  note eq = eq [unfolded Some dr option.case prod.case mq]
                  have ok: "cc < q \<and> in_int (m * d) \<and> in_int (bl + m * d)"
                    and l: "min_loop e recs len (bl + m * d) (had \<or> rec) q c = Some r"
                    using eq by (auto split: if_splits)
                  note L = IH(2) [OF True u refl Some [unfolded dr] refl mq [symmetric] refl ok l]
                  show ?thesis
                  proof (cases "st_js e")
                    case js: True
                    with u Some dr have "d = 0" "\<not> rec" "c = count" by auto
                    with reference_js [OF True js mq, of recs len bl had count r] L show ?thesis by simp
                  next
                    case js: False
                    with u Some dr have m: "min_refs e recs cc (ref_numbers e cc) INT_MAX count = Some (Some (d, rec), c)"
                      by simp
                    show ?thesis by (rule reference [OF True js IH(1) [OF True js m] mq L])
                  qed
                qed
              next
                case n7: False
                note eq = eq [unfolded if_not_P [OF n7]] and IH = IH(3-) [OF n7]
                show ?thesis
                proof (cases "?op = OP_RECURSE")
                  case True
                  let ?cs = "st_start e + GET ?code cc 1"
                  note eq = eq [unfolded if_P [OF True]]
                  from eq obtain ce where ce: "skip_alts ?code ?cs = Some ce" by (auto split: option.splits)
                  note eq = eq [unfolded ce option.case]
                  show ?thesis
                  proof (cases "cc > ?cs \<and> cc < ce \<or> ?cs \<in> set recs")
                    case inside: True
                    show ?thesis
                      by (rule recursion [OF True ce inside
                        IH(1) [OF True refl ce inside eq [unfolded if_P [OF inside]]]])
                  next
                    case False
                    note eq = eq [unfolded if_not_P [OF False]]
                    from eq obtain d c where g: "min_group e (?cs # recs) ?cs count = Some (d, c)" "in_int (bl + d)"
                      "min_loop e recs len (bl + d) had (cc + 1 + LINK_SIZE) c = Some r"
                      by (auto split: option.splits if_splits)
                    show ?thesis
                      by (rule call [OF True ce IH(2) [OF True refl ce False g(1)]
                        IH(3) [OF True refl ce False g(1) refl g(2,3)]])
                  qed
                next
                  case n8: False
                  note eq = eq [unfolded if_not_P [OF n8]] and IH = IH(4-) [OF n8]
                  have n: "?op \<notin> min_group_ops \<union> min_end_ops \<union> min_other_ops"
                    using n2 n3 n4 n5 n6 n7 n8 unfolding min_other_ops_def by blast
                  show ?thesis
                  proof (cases "min_item (st_utf e) ?code cc")
                    case (Returns i)
                    with eq have "r = (i, count)" by simp
                    with unknown [OF n Returns] show ?thesis by simp
                  next
                    case (Adds d q)
                    note eq = eq [unfolded Adds fixed_move.case]
                    have ok: "cc < q \<and> cc < length ?code \<and> in_int (bl + d)"
                      and l: "min_loop e recs len (bl + d) had q count = Some r"
                      using eq by (auto split: if_splits)
                    show ?thesis by (rule step [OF n Adds IH(1) [OF Adds ok l]])
                  qed
                qed
              qed
            qed
          qed
        qed
      qed
    qed
  qed
next
  case (3 e recs cc d count)
  then show ?case by (auto intro: no_refs simp: min_refs.simps)
next
  case (4 e recs cc n ns d count)
  note eq = "4.prems" [unfolded min_refs.simps(2) [of e recs cc n ns d count]]
  from eq obtain b where b: "find_bracket (st_code e) (st_start e) (st_utf e) (int n) = Some b"
    by (auto split: option.splits)
  show ?case
  proof (cases b)
    case None
    with eq b have "s = (None, count)" by simp
    with ref_missing [OF b [unfolded None]] show ?thesis by simp
  next
    case (Some cs)
    with eq b obtain ce where ce: "skip_alts (st_code e) cs = Some ce" by (auto split: option.splits)
    note eq = eq [unfolded b Some ce option.case]
    show ?thesis
    proof (cases "cc > cs \<and> cc < ce \<or> cs \<in> set recs")
      case True
      with eq have "s = (Some (0, True), count)" by simp
      with ref_recursion [OF b [unfolded Some] ce True] show ?thesis by simp
    next
      case False
      with eq obtain dd c where g: "min_group e (cs # recs) cs count = Some (dd, c)"
        "min_refs e recs cc ns (if dd < d then dd else d) c = Some s"
        by (simp only: if_False split: option.splits) auto
      show ?thesis
        by (rule ref_group [OF b [unfolded Some]])
          (rule "4.IH"(1) [OF b Some ce False g(1)], rule "4.IH"(2) [OF b Some ce False g(1) refl g(2)])
    qed
  qed
qed


end
