(* ===== verification/StudyBound.thy ===== *)
theory StudyBound
  imports StudyLength
begin

text \<open>
  An answer of \<open>find_minlength()\<close> is a lower bound for the length of every way through the
  pattern. The proof goes along the relation of \<open>StudyLength\<close>: its invariant is that the groups
  under way, and the targets of calls around the current position, are barred, so that no way
  passes the places where the function sees a recursion. The hypotheses of the theorem are a
  check of the code; three patterns outside of it, for which the answer is too large, end the
  theory.
\<close>

subsection \<open>The hypotheses\<close>

text \<open>\<open>inside e g q\<close>: the position \<open>q\<close> lies in the group at \<open>g\<close>, behind its opcode and not behind
  its end. The targets of an item are the groups that a subroutine call or a back reference
  leads to; a group is plain when nothing in it has a target.\<close>

definition inside :: "study_env \<Rightarrow> nat \<Rightarrow> nat \<Rightarrow> bool" where
  "inside e g q = (case skip_alts (st_code e) g of None \<Rightarrow> False | Some ce \<Rightarrow> g < q \<and> q \<le> ce)"

definition targets_of :: "study_env \<Rightarrow> nat \<Rightarrow> nat list" where
  "targets_of e p =
    (if opc (st_code e) p = OP_RECURSE then [st_start e + GET (st_code e) p 1]
     else if opc (st_code e) p \<in> reference_ops then if st_js e then [] else brackets_of e p
     else [])"

abbreviation items_of :: "study_env \<Rightarrow> nat list" where
  "items_of e \<equiv> item_starts (st_utf e) (st_code e) (st_start e)"

definition targets :: "study_env \<Rightarrow> nat list" where
  "targets e = concat (map (targets_of e) (items_of e))"

definition plain_group :: "study_env \<Rightarrow> nat \<Rightarrow> bool" where
  "plain_group e g = list_all (\<lambda>p. if inside e g p then targets_of e p = [] else True) (items_of e)"

text \<open>The walk knows what to do at \<open>p\<close>; it does not for a single byte in UTF mode.\<close>

definition known_item :: "study_env \<Rightarrow> nat \<Rightarrow> bool" where
  "known_item e p =
    (if opc (st_code e) p \<in> min_group_ops \<union> min_end_ops \<union> min_other_ops then True
     else case min_item (st_utf e) (st_code e) p of Adds d q \<Rightarrow> True | Returns n \<Rightarrow> False)"

text \<open>Brackets enclose an item and the next one on its level alike.\<close>

definition nested_at :: "study_env \<Rightarrow> nat list \<Rightarrow> nat \<Rightarrow> bool" where
  "nested_at e gs p =
    (let code = st_code e; op = opc code p in
     (case after (st_utf e) code p of None \<Rightarrow> True
       | Some q \<Rightarrow> known_item e q \<and> list_all (\<lambda>g. inside e g q = inside e g p) gs) \<and>
     (if is_group op \<or> op = OP_ALT then
        known_item e (branch_at code p) \<and> list_all (\<lambda>g. inside e g (branch_at code p) = (g = p \<or> inside e g p)) gs
      else True))"

text \<open>A target is a group, and no call leads into a group that is a target itself and does not
  enclose the call. A back reference leads to groups without calls and references that do
  not enclose it, or to one group and at least once.\<close>

definition target_at :: "study_env \<Rightarrow> nat list \<Rightarrow> nat \<Rightarrow> bool" where
  "target_at e gs p =
    (let code = st_code e; ts = targets_of e p in
     list_all (\<lambda>t. is_group (opc code t) \<and> t \<in> set (items_of e) \<and>
       \<not> ((opc code t = OP_COND \<or> opc code t = OP_SCOND) \<and> opc code (branch_end code t) \<noteq> OP_ALT) \<and>
       list_all (\<lambda>g. if inside e g t then inside e g p else True) gs) ts \<and>
     (if opc code p \<in> reference_ops \<and> \<not> st_js e then
        length ts = length (ref_numbers e p) \<and>
        (list_all (\<lambda>t. plain_group e t \<and> \<not> inside e t p) ts \<or>
         length ts = 1 \<and> fst (min_repeat code (item_end (st_utf e) code p)) > 0)
      else True))"

definition study_code :: "study_env \<Rightarrow> bool" where
  "study_code e =
    (let gs = targets e in
     list_all (\<lambda>g. \<not> inside e g (st_start e)) gs \<and>
     list_all (\<lambda>p. nested_at e gs p \<and> target_at e gs p) (items_of e))"

lemma study_codeD:
  assumes "study_code e" "p \<in> set (items_of e)"
  shows study_after: "after (st_utf e) (st_code e) p = Some q \<Longrightarrow>
      known_item e q \<and> (\<forall>g\<in>set (targets e). inside e g q = inside e g p)"
    and study_branch: "is_group (opc (st_code e) p) \<or> opc (st_code e) p = OP_ALT \<Longrightarrow>
      known_item e (branch_at (st_code e) p) \<and>
      (\<forall>g\<in>set (targets e). inside e g (branch_at (st_code e) p) = (g = p \<or> inside e g p))"
    and study_target: "t \<in> set (targets_of e p) \<Longrightarrow> t \<in> set (targets e) \<and> is_group (opc (st_code e) t) \<and>
      t \<in> set (items_of e) \<and> \<not> one_branch_cond (st_code e) t \<and>
      (\<forall>g\<in>set (targets e). inside e g t \<longrightarrow> inside e g p)"
    and study_reference: "opc (st_code e) p \<in> reference_ops \<Longrightarrow> \<not> st_js e \<Longrightarrow>
      length (targets_of e p) = length (ref_numbers e p) \<and>
        ((\<forall>t\<in>set (targets_of e p). plain_group e t \<and> \<not> inside e t p) \<or>
         length (targets_of e p) = 1 \<and> fst (min_repeat (st_code e) (item_end (st_utf e) (st_code e) p)) > 0)"
proof -
  have n: "nested_at e (targets e) p" and t: "target_at e (targets e) p"
    using assms unfolding study_code_def Let_def list_all_iff by blast+
  show "after (st_utf e) (st_code e) p = Some q \<Longrightarrow>
      known_item e q \<and> (\<forall>g\<in>set (targets e). inside e g q = inside e g p)"
    using n unfolding nested_at_def Let_def list_all_iff by simp
  show "is_group (opc (st_code e) p) \<or> opc (st_code e) p = OP_ALT \<Longrightarrow>
      known_item e (branch_at (st_code e) p) \<and>
      (\<forall>g\<in>set (targets e). inside e g (branch_at (st_code e) p) = (g = p \<or> inside e g p))"
    using n unfolding nested_at_def Let_def list_all_iff by (simp only: if_True) blast
  show "t \<in> set (targets_of e p) \<Longrightarrow> t \<in> set (targets e) \<and> is_group (opc (st_code e) t) \<and>
      t \<in> set (items_of e) \<and> \<not> one_branch_cond (st_code e) t \<and>
      (\<forall>g\<in>set (targets e). inside e g t \<longrightarrow> inside e g p)"
    using t assms(2) unfolding target_at_def Let_def list_all_iff targets_def
    by (auto split: if_splits)
  show "opc (st_code e) p \<in> reference_ops \<Longrightarrow> \<not> st_js e \<Longrightarrow>
      length (targets_of e p) = length (ref_numbers e p) \<and>
        ((\<forall>t\<in>set (targets_of e p). plain_group e t \<and> \<not> inside e t p) \<or>
         length (targets_of e p) = 1 \<and> fst (min_repeat (st_code e) (item_end (st_utf e) (st_code e) p)) > 0)"
    using t unfolding target_at_def Let_def list_all_iff if_bool_eq_conj by (elim conjE, intro conjI) blast+
qed

lemma bracket_target:
  assumes "opc (st_code e) p \<in> reference_ops" "\<not> st_js e"
  shows "targets_of e p = brackets_of e p"
  using assms unfolding targets_of_def reference_ops_def by (elim insertE emptyE) simp_all

text \<open>Every number of a reference has its group, as none was lost in the list.\<close>

lemma map_filter_all: "length (List.map_filter f xs) = length xs \<Longrightarrow> x \<in> set xs \<Longrightarrow> f x \<noteq> None"
proof (induction xs)
  case (Cons y ys)
  have "length (List.map_filter f ys) < Suc (length ys)" for ys
    by (simp add: List.map_filter_def less_Suc_eq_le)
  from this [of ys] Cons show ?case by (cases "f y") (auto simp: map_filter_simps)
qed simp

lemma brackets_found:
  assumes "length (brackets_of e p) = length (ref_numbers e p)" "n \<in> set (ref_numbers e p)"
  shows "\<exists>g. find_bracket (st_code e) (st_start e) (st_utf e) (int n) = Some (Some g)"
  using map_filter_all [OF assms [unfolded brackets_of_def]] by (auto split: option.splits)

lemma bracket_in:
  assumes "n \<in> set (ref_numbers e p)" "find_bracket (st_code e) (st_start e) (st_utf e) (int n) = Some (Some g)"
  shows "g \<in> refs_of e p"
  using assms unfolding brackets_of_def List.map_filter_def by force

lemma bracket_from:
  assumes "g \<in> refs_of e p"
  shows "\<exists>n\<in>set (ref_numbers e p). find_bracket (st_code e) (st_start e) (st_utf e) (int n) = Some (Some g)"
  using assms unfolding brackets_of_def List.map_filter_def by (auto split: option.splits)

subsection \<open>Steps of the walk\<close>

lemma group_op: "op \<in> min_group_ops \<longleftrightarrow> is_group op"
  unfolding min_group_ops_def is_group_def by blast

lemma end_op: "op \<in> min_end_ops \<longleftrightarrow> is_end op \<or> op = OP_END"
  unfolding min_end_ops_def is_end_def by blast

lemma reference_op: "op \<in> {OP_DNREF, OP_DNREFI, OP_REF, OP_REFI} \<longleftrightarrow> op \<in> reference_ops"
  unfolding reference_ops_def by blast

lemma zero_op: "op \<in> {OP_BRAZERO, OP_BRAMINZERO, OP_BRAPOSZERO, OP_SKIPZERO} \<longleftrightarrow> is_zero op"
  unfolding is_zero_def by blast

lemma assertion_op: "op \<in> {OP_ASSERT, OP_ASSERT_NOT, OP_ASSERTBACK, OP_ASSERTBACK_NOT} \<longleftrightarrow> is_assertion op"
  unfolding is_assertion_def by blast

lemma end_lengths: "\<forall>op\<in>{OP_ALT, OP_KET, OP_KETRMAX, OP_KETRMIN, OP_KETRPOS}. op_length op = 1 + LINK_SIZE"
  by code_simp

lemma zero_lengths: "\<forall>op\<in>{OP_BRAZERO, OP_BRAMINZERO, OP_BRAPOSZERO, OP_SKIPZERO}. op_length op = 1"
  by code_simp

lemma group_lengths: "\<forall>op\<in>{OP_BRA, OP_BRAPOS, OP_CBRA, OP_CBRAPOS, OP_ONCE, OP_ONCE_NC, OP_COND, OP_SBRA, OP_SBRAPOS,
    OP_SCBRA, OP_SCBRAPOS, OP_SCOND}. op_length op = 1 + LINK_SIZE + (if is_cbra op then IMM2_SIZE else 0)"
  by code_simp

lemma group_branch: "is_group (opc code p) \<Longrightarrow>
    p + 1 + LINK_SIZE + (if is_cbra (opc code p) then IMM2_SIZE else 0) = branch_at code p"
  using bspec [OF group_lengths] unfolding is_group_def by (simp only: add.assoc)

lemma min_repeat_sound:
  assumes "min_repeat code r = (m, q)"
  shows "cr_next code r = q \<and> 0 \<le> m \<and> (cr_times code r c \<longrightarrow> m \<le> int c)"
proof (cases "OP_CRSTAR \<le> opc code r \<and> opc code r \<le> OP_CRPOSRANGE")
  case True
  have "opc code r \<in> {OP_CRPLUS, OP_CRMINPLUS, OP_CRPOSPLUS} \<union> {OP_CRSTAR, OP_CRMINSTAR, OP_CRQUERY, OP_CRMINQUERY,
      OP_CRPOSSTAR, OP_CRPOSQUERY} \<union> {OP_CRRANGE, OP_CRMINRANGE, OP_CRPOSRANGE}"
    by (rule in_range [OF _ conjunct1 [OF True] conjunct2 [OF True]]) code_simp
  then show ?thesis using assms
    by (elim UnE insertE emptyE) (auto simp: min_repeat_def cr_next_def cr_times_def Let_def)
next
  case False
  then have "\<not> (opc code r = OP_CRPLUS \<or> opc code r = OP_CRMINPLUS \<or> opc code r = OP_CRPOSPLUS)"
    "opc code r \<notin> {OP_CRSTAR, OP_CRMINSTAR, OP_CRQUERY, OP_CRMINQUERY, OP_CRPOSSTAR, OP_CRPOSQUERY}"
    "\<not> (opc code r = OP_CRRANGE \<or> opc code r = OP_CRMINRANGE \<or> opc code r = OP_CRPOSRANGE)"
    "\<not> (opc code r = OP_CRQUERY \<or> opc code r = OP_CRMINQUERY \<or> opc code r = OP_CRPOSQUERY)"
    "\<not> (opc code r = OP_CRSTAR \<or> opc code r = OP_CRMINSTAR \<or> opc code r = OP_CRPOSSTAR)" by auto
  then have "min_repeat code r = (1, r)" "cr_next code r = r" "cr_times code r c = (c = 1)"
    using False by (simp_all only: min_repeat_def cr_next_def cr_times_def Let_def if_False)
  with assms show ?thesis by auto
qed

lemma after_bracket:
  assumes "well_linked utf code start" "p \<in> item_set utf code start" "is_group (opc code p) \<or> is_assertion (opc code p)"
    "skip_alts code p = Some ket"
  shows "after utf code p = Some (ket + 1 + LINK_SIZE) \<and> is_end (opc code ket)"
proof -
  have "\<not> is_end (opc code p) \<and> opc code p \<noteq> OP_END"
    using assms(3) unfolding is_group_def is_assertion_def is_end_def by (elim disjE insertE emptyE) simp_all
  with linked_end [OF assms(1,2)] have "after utf code p \<noteq> None" by blast
  with assms(3,4) show ?thesis by (auto simp: after_def behind_def Let_def split: if_splits)
qed

lemma after_zero:
  assumes "well_linked utf code start" "p \<in> item_set utf code start" "is_zero (opc code p)"
    "skip_alts code (branch_at code p) = Some ket"
  shows "after utf code p = Some (ket + 1 + LINK_SIZE)"
proof -
  have "\<not> is_end (opc code p) \<and> opc code p \<noteq> OP_END" "\<not> (is_group (opc code p) \<or> is_assertion (opc code p))"
    "op_length (opc code p) = 1"
    using assms(3) bspec [OF zero_lengths] unfolding is_group_def is_assertion_def is_end_def is_zero_def
    by (elim insertE emptyE; simp)+
  with linked_end [OF assms(1,2)] have "after utf code p \<noteq> None" by blast
  with assms(3,4) \<open>op_length (opc code p) = 1\<close> \<open>\<not> (is_group (opc code p) \<or> is_assertion (opc code p))\<close> show ?thesis
    by (auto simp: after_def behind_def Let_def split: if_splits)
qed

lemma after_call: "opc code p = OP_RECURSE \<Longrightarrow> after utf code p = Some (p + 1 + LINK_SIZE)"
  by (simp add: after_def is_group_def is_assertion_def is_zero_def is_end_def reference_ops_def
      skip_defs arg_ops_def op_length_values)

lemma reference_end:
  assumes "opc code p \<in> {OP_DNREF, OP_DNREFI, OP_REF, OP_REFI}"
  shows "item_end utf code p =
      p + (if opc code p = OP_DNREF \<or> opc code p = OP_DNREFI then 1 + 2 * IMM2_SIZE else 1 + IMM2_SIZE)"
  using assms by (elim insertE emptyE) (simp_all add: skip_defs arg_ops_def op_length_values)

lemma after_reference:
  assumes "opc code p \<in> reference_ops"
  shows "after utf code p = Some (cr_next code (item_end utf code p))"
proof -
  have "\<not> is_group (opc code p) \<and> \<not> is_assertion (opc code p) \<and> \<not> is_zero (opc code p) \<and> \<not> is_end (opc code p) \<and>
      opc code p \<notin> {OP_END, OP_ACCEPT, OP_ASSERT_ACCEPT}"
    using assms unfolding reference_ops_def is_group_def is_assertion_def is_zero_def is_end_def
    by (elim insertE emptyE) simp_all
  with after_simple [of code p utf] assms show ?thesis by (simp only: simp_thms if_True)
qed

lemma step_plain:
  assumes "opc code p \<notin> min_group_ops \<union> min_end_ops \<union> min_other_ops"
  shows "\<not> is_group (opc code p)" "\<not> is_assertion (opc code p)" "\<not> is_zero (opc code p)" "\<not> is_end (opc code p)"
    "opc code p \<notin> {OP_END, OP_ACCEPT, OP_ASSERT_ACCEPT}" "opc code p \<notin> reference_ops" "opc code p \<noteq> OP_RECURSE"
  using assms unfolding min_other_ops_def group_op end_op is_assertion_def is_zero_def reference_ops_def
  by (blast | simp only: Un_iff end_op group_op insert_iff empty_iff simp_thms)+

lemma after_step:
  assumes "opc code p \<notin> min_group_ops \<union> min_end_ops \<union> min_other_ops" "min_item utf code p = Adds d q"
  shows "after utf code p = Some q"
proof -
  note after = after_simple [OF step_plain(1-5) [OF assms(1)], of utf] and nref = step_plain(6) [OF assms(1)]
  show ?thesis
  proof (cases "opc code p \<in> {OP_CLASS, OP_NCLASS, OP_XCLASS}")
    case True
    then have "min_class code (item_end utf code p) = Adds d q"
      using assms(2) by (elim insertE emptyE) (simp_all add: min_item_def skip_defs min_sets op_length_values)
    then have n: "cr_next code (item_end utf code p) = q" by (rule min_class_next)
    from True have "opc code p \<in> {OP_CLASS, OP_NCLASS, OP_XCLASS} \<or> opc code p \<in> reference_ops" ..
    with after n show ?thesis by (simp only: if_True)
  next
    case False
    with min_item_end [OF assms(2)] have "item_end utf code p = q" .
    moreover from False nref have "\<not> (opc code p \<in> {OP_CLASS, OP_NCLASS, OP_XCLASS} \<or> opc code p \<in> reference_ops)"
      by blast
    ultimately show ?thesis using after by (simp only: if_False)
  qed
qed

lemma min_item_adds: "min_item utf code p = Adds d q \<Longrightarrow> 0 \<le> d"
  by (cases rule: min_item_cases, assumption)
    (auto simp: min_class_def Let_def split: if_splits)

lemma walk_counts:
  shows group_counts: "group_gives e recs p count r \<Longrightarrow> count \<le> snd r"
    and loop_counts: "loop_gives e recs len bl had cc count r \<Longrightarrow> count \<le> snd r"
    and refs_counts: "refs_give e recs cc ns d count s \<Longrightarrow> count \<le> snd s"
  by (induction rule: group_gives_loop_gives_refs_give.inducts) auto


subsection \<open>The answer is a lower bound\<close>

text \<open>The groups under way are barred, and so is every target around the position.\<close>

definition under :: "study_env \<Rightarrow> nat set \<Rightarrow> nat list \<Rightarrow> nat \<Rightarrow> bool" where
  "under e A recs q \<longleftrightarrow> set recs \<subseteq> A \<and> set recs \<subseteq> set (targets e) \<and> (\<forall>g\<in>set (targets e). inside e g q \<longrightarrow> g \<in> A) \<and>
     (\<forall>g\<in>set recs. plain_group e g \<longrightarrow> inside e g q)"

text \<open>What the rest of the loop gives for the current branch and for the ones behind it.\<close>

definition sound_from :: "study_env \<Rightarrow> nat set \<Rightarrow> int \<Rightarrow> int \<Rightarrow> bool \<Rightarrow> nat \<Rightarrow> nat \<Rightarrow> int \<Rightarrow> bool" where
  "sound_from e A len bl had cc le n \<longleftrightarrow> 0 \<le> n \<and> (0 \<le> len \<longrightarrow> n \<le> len) \<and>
     (\<not> had \<longrightarrow> (\<forall>k. way e A cc le k \<longrightarrow> n \<le> bl + int k)) \<and>
     (opc (st_code e) le = OP_ALT \<longrightarrow> (\<forall>a k. alternative (st_code e) le a \<longrightarrow>
        way e A (branch_at (st_code e) a) (branch_end (st_code e) a) k \<longrightarrow> n \<le> int k))"

lemma level_end_next:
  assumes "level_end utf code p = Some le" "after utf code p = Some q"
  shows "level_end utf code q = Some le" "\<not> is_end (opc code p)"
proof -
  show n: "\<not> is_end (opc code p)"
  proof
    assume "is_end (opc code p)"
    then have "after utf code p = None"
      unfolding is_end_def
      by (elim insertE emptyE) (simp_all add: after_def is_end_def is_group_def is_assertion_def is_zero_def)
    with assms(2) show False by simp
  qed
  from n assms show "level_end utf code q = Some le"
    by (subst (asm) level_end.simps) (auto split: if_splits)
qed

lemma sound_step:
  assumes "sound_from e A len (bl + d) had' q le n" "level_end (st_utf e) (st_code e) p = Some le"
    "after (st_utf e) (st_code e) p = Some q"
    "\<And>j. \<not> had \<Longrightarrow> way_item e A p j \<Longrightarrow> \<not> had' \<and> d \<le> int j"
  shows "sound_from e A len bl had p le n"
proof -
  have "n \<le> bl + int k" if "\<not> had" "way e A p le k" for k
  proof -
    from way_step [OF that(2) assms(3) level_end_is_end [OF assms(2)] level_end_next(2) [OF assms(2,3)]]
    obtain j i where w: "way_item e A p j" "way e A q le i" "k = j + i" by blast
    from assms(4) [OF that(1) w(1)] assms(1) w(2) have "n \<le> bl + d + int i" "d \<le> int j" by (auto simp: sound_from_def)
    with w(3) show ?thesis by simp
  qed
  with assms(1) show ?thesis unfolding sound_from_def by blast
qed

lemma under_next:
  assumes "study_code e" "well_linked (st_utf e) (st_code e) (st_start e)" "p \<in> set (items_of e)"
    "after (st_utf e) (st_code e) p = Some q" "under e A recs p"
  shows "q \<in> set (items_of e)" "under e A recs q" "known_item e q"
  using linked_after [OF assms(2,3,4)] study_after [OF assms(1,3,4)] assms(5) unfolding under_def by blast+

lemma under_branch:
  assumes "study_code e" "p \<in> set (items_of e)" "is_group (opc (st_code e) p) \<or> opc (st_code e) p = OP_ALT" "under e A recs p"
  shows "under e (insert p A) recs (branch_at (st_code e) p)"
  using study_branch [OF assms(1-3)] assms(4) unfolding under_def by blast

lemma alt_inside:
  assumes "study_code e" "p \<in> set (items_of e)" "opc (st_code e) p = OP_ALT" "under e A recs p" "p \<notin> set (targets e)"
  shows "under e A recs (branch_at (st_code e) p)"
proof -
  have "\<forall>g\<in>set (targets e). inside e g (branch_at (st_code e) p) = inside e g p"
    using study_branch [OF assms(1,2) disjI2 [OF assms(3)]] assms(5) by metis
  with assms(4) show ?thesis unfolding under_def by blast
qed

text \<open>A call: the called group is barred, and the places around it were around the call.\<close>

lemma under_call:
  assumes "study_code e" "p \<in> set (items_of e)" "t \<in> set (targets_of e p)" "under e A recs p"
  shows "under e (insert t A) (t # recs) (branch_at (st_code e) t)"
proof -
  note t = study_target [OF assms(1,2,3)]
  then have b: "\<forall>g\<in>set (targets e). inside e g (branch_at (st_code e) t) = (g = t \<or> inside e g t)"
    using study_branch [OF assms(1)] by blast
  have "\<not> plain_group e g" if "g \<in> set recs" for g
  proof
    assume g: "plain_group e g"
    with that assms(4) have "inside e g p" by (auto simp: under_def)
    with g assms(2,3) show False by (auto simp: plain_group_def list_all_iff)
  qed
  with assms(4) t b show ?thesis unfolding under_def by auto
qed

lemma alternative_step:
  "alternative code p a \<Longrightarrow> a = p \<or> opc code (branch_end code p) = OP_ALT \<and> alternative code (branch_end code p) a"
proof (induction rule: alternative.induct)
  case (next_alt p a)
  then show ?case using alternative.intros by metis
qed simp

lemma target_not_alt:
  assumes "study_code e" "t \<in> set (targets e)"
  shows "is_group (opc (st_code e) t)"
  using assms study_target [OF assms(1)] by (auto simp: targets_def)


lemma level_end_stops:
  assumes "level_end utf code p = Some le" "after utf code p = None"
  shows "is_end (opc code p)" "le = p"
  using assms by (auto simp: level_end.simps [of utf code p] split: if_splits)

lemma after_end_ops:
  assumes "opc code p \<in> min_end_ops \<union> {OP_ACCEPT, OP_ASSERT_ACCEPT}"
  shows "after utf code p = None"
  using assms unfolding min_end_ops_def
  by (elim UnE insertE emptyE) (simp_all add: after_def is_end_def is_group_def is_assertion_def is_zero_def)

lemma skip_one_branch: "skip_alts code p = Some ket \<Longrightarrow> opc code (branch_end code p) \<noteq> OP_ALT \<Longrightarrow> ket = branch_end code p"
  by (subst (asm) skip_alts.simps) (auto simp: Let_def split: if_splits)

lemma group_end:
  assumes "well_linked utf code start" "p \<in> item_set utf code start" "is_group (opc code p)"
  shows "\<exists>ket. skip_alts code p = Some ket"
proof -
  have "\<not> is_end (opc code p) \<and> opc code p \<noteq> OP_END"
    using assms(3) unfolding is_group_def is_end_def by (elim insertE emptyE) simp_all
  with linked_end [OF assms(1,2)] have "after utf code p \<noteq> None" by blast
  with assms(3) show ?thesis by (auto simp: after_def behind_def split: option.splits)
qed

lemma sound_end:
  assumes "opc (st_code e) cc \<in> min_end_ops" "opc (st_code e) cc \<noteq> OP_ALT"
    "level_end (st_utf e) (st_code e) cc = Some le" "0 \<le> bl"
  shows "sound_from e A len bl had cc le (shorter len bl had)"
proof -
  have "le = cc" using level_end_stops(2) [OF assms(3) after_end_ops] assms(1) by blast
  with assms show ?thesis by (auto simp: sound_from_def)
qed

lemma sound_alternate:
  assumes "opc (st_code e) cc = OP_ALT" "level_end (st_utf e) (st_code e) cc = Some le" "0 \<le> bl"
    "sound_from e A (shorter len bl had) 0 False (branch_at (st_code e) cc) (branch_end (st_code e) cc) n"
  shows "sound_from e A len bl had cc le n"
proof -
  have le: "le = cc" by (rule level_end_stops(2) [OF assms(2) after_end_ops]) (simp add: assms(1) min_end_ops_def)
  have "0 \<le> shorter len bl had" using assms(3) by auto
  with assms(4) have n: "0 \<le> n" "n \<le> shorter len bl had" by (auto simp only: sound_from_def)
  have "n \<le> int k" if "alternative (st_code e) cc a" "way e A (branch_at (st_code e) a) (branch_end (st_code e) a) k" for a k
    using alternative_step [OF that(1)] that(2) assms(4) by (auto simp: sound_from_def)
  with n le show ?thesis by (auto simp: sound_from_def split: if_splits)
qed

lemma sound_group:
  assumes "sound_from e A (-1) 0 False (branch_at (st_code e) p) (branch_end (st_code e) p) n"
    "\<not> one_branch_cond (st_code e) p" "way_body e A p k"
  shows "n \<le> int k"
proof -
  from body_branch [OF assms(3)] assms(2) obtain a j where a: "alternative (st_code e) p a" "j \<le> k"
    "way e A (branch_at (st_code e) a) (branch_end (st_code e) a) j" by blast
  from alternative_step [OF a(1)] a(3) assms(1) have "n \<le> int j" by (auto simp: sound_from_def)
  with a(2) show ?thesis by simp
qed

text \<open>A way through a reference, for the length that the loop over its groups gives.\<close>

definition sound_refs :: "study_env \<Rightarrow> nat set \<Rightarrow> nat list \<Rightarrow> nat \<Rightarrow> nat list \<Rightarrow> int \<Rightarrow> (int \<times> bool) option \<Rightarrow> bool" where
  "sound_refs e A recs cc ns d s \<longleftrightarrow>
    (\<exists>m rec. s = Some (m, rec) \<and> 0 \<le> m \<and> m \<le> d \<and>
      (rec \<longrightarrow> (\<exists>t\<in>set (targets_of e cc). t \<in> A \<and> (inside e t cc \<or> t \<in> set recs))) \<and>
      (\<not> rec \<longrightarrow> (\<forall>n\<in>set ns. \<forall>g k. find_bracket (st_code e) (st_start e) (st_utf e) (int n) = Some (Some g) \<longrightarrow>
         way_body e A g k \<longrightarrow> m \<le> int k)))"

lemma reference_way:
  assumes "study_code e" "cc \<in> set (items_of e)" "opc (st_code e) cc \<in> reference_ops" "\<not> st_js e"
    "under e A recs cc" "sound_refs e A recs cc (ref_numbers e cc) dmax (Some (d, rec))"
    "min_repeat (st_code e) (item_end (st_utf e) (st_code e) cc) = (m, q)" "way_item e A cc k"
  shows "\<not> rec \<and> m * d \<le> int k"
proof -
  note ts = bracket_target [OF assms(3,4)]
  note m = min_repeat_sound [OF assms(7)]
  have way: "(k = 0 \<and> m \<le> 0) \<or> (\<exists>g\<in>refs_of e cc. \<exists>c j. g \<notin> A \<and> way_body e A g j \<and> m \<le> int (Suc c) \<and> k = Suc c * j)"
    using way_item_reference [OF assms(8,3)] assms(4) m by fastforce
  have nrec: "\<not> rec"
  proof
    assume rec
    with assms(6) obtain t where t: "t \<in> set (targets_of e cc)" "t \<in> A" "inside e t cc \<or> t \<in> set recs"
      by (auto simp: sound_refs_def)
    from study_reference [OF assms(1-4)] show False
    proof (elim conjE disjE)
      assume "\<forall>t\<in>set (targets_of e cc). plain_group e t \<and> \<not> inside e t cc"
      with t assms(5) show False by (auto simp: under_def)
    next
      assume l: "length (targets_of e cc) = 1" "fst (min_repeat (st_code e) (item_end (st_utf e) (st_code e) cc)) > 0"
      then obtain g where "brackets_of e cc = [g]" using ts by (auto simp: length_Suc_conv)
      with l(2) way t(1,2) ts assms(7) show False by auto
    qed
  qed
  moreover have "m * d \<le> int k"
    using way
  proof (elim disjE conjE bexE exE)
    assume "k = 0" "m \<le> 0"
    with m show ?thesis by simp
  next
    fix g c j
    assume g: "g \<in> refs_of e cc" "way_body e A g j" "m \<le> int (Suc c)" "k = Suc c * j"
    from bracket_from [OF g(1)] g(2) assms(6) nrec have "0 \<le> d" "d \<le> int j" by (auto simp: sound_refs_def)
    with g(3) have "m * d \<le> int (Suc c) * int j" by (intro mult_mono) simp_all
    with g(4) show ?thesis by (simp only: of_nat_mult)
  qed
  ultimately show ?thesis ..
qed

lemma inside_skip: "skip_alts (st_code e) g = Some ce \<Longrightarrow> g < q \<and> q < ce \<Longrightarrow> inside e g q"
  by (simp add: inside_def)

lemma recursion_barred:
  assumes "under e A recs cc" "t \<in> set (targets e)" "skip_alts (st_code e) t = Some ce" "recursion_at e recs cc t ce"
  shows "t \<in> A \<and> (inside e t cc \<or> t \<in> set recs)"
  using assms inside_skip [OF assms(3)] unfolding under_def by blast


lemma walk_sound:
  assumes ok: "study_code e" "well_linked (st_utf e) (st_code e) (st_start e)"
  shows group_sound: "group_gives e recs p count r \<Longrightarrow> snd r \<le> 1001 \<Longrightarrow> p \<in> set (items_of e) \<Longrightarrow>
      is_group (opc (st_code e) p) \<Longrightarrow> under e A recs (branch_at (st_code e) p) \<Longrightarrow>
      0 \<le> fst r \<and> (\<not> one_branch_cond (st_code e) p \<longrightarrow> (\<forall>k. way_body e A p k \<longrightarrow> fst r \<le> int k))"
    and loop_sound: "loop_gives e recs len bl had cc count r \<Longrightarrow> snd r \<le> 1001 \<Longrightarrow> cc \<in> set (items_of e) \<Longrightarrow>
      level_end (st_utf e) (st_code e) cc = Some le \<Longrightarrow> 0 \<le> bl \<Longrightarrow> under e A recs cc \<Longrightarrow> known_item e cc \<Longrightarrow>
      sound_from e A len bl had cc le (fst r)"
    and refs_sound: "refs_give e recs cc ns d count s \<Longrightarrow> snd s \<le> 1001 \<Longrightarrow> cc \<in> set (items_of e) \<Longrightarrow>
      opc (st_code e) cc \<in> reference_ops \<Longrightarrow> \<not> st_js e \<Longrightarrow> set ns \<subseteq> set (ref_numbers e cc) \<Longrightarrow> 0 \<le> d \<Longrightarrow>
      under e A recs cc \<Longrightarrow> sound_refs e A recs cc ns d (fst s)"
proof (induction arbitrary: A and A le and A rule: group_gives_loop_gives_refs_give.inducts)
  case (many count recs p)
  then show ?case by simp
next
  case (enter count recs p r)
  note b = group_branch [OF enter.prems(3)]
  note link = linked_branch [OF ok(2) enter.prems(2) disjI1 [OF enter.prems(3)]]
    and known = study_branch [OF ok(1) enter.prems(2) disjI1 [OF enter.prems(3)]]
  have s: "sound_from e A (-1) 0 False (branch_at (st_code e) p) (branch_end (st_code e) p) (fst r)"
    using enter.IH(2) [of "branch_end (st_code e) p" A] unfolding b using enter.prems(1,4) link known by simp
  show ?case using sound_group [OF s] conjunct1 [OF s [unfolded sound_from_def]] by blast
next
  case (single cc recs len bl had count r)
  have g: "is_group (opc (st_code e) cc)" using single(1) by (auto simp: is_group_def)
  from group_end [OF ok(2) single.prems(2) g] obtain ket where k: "skip_alts (st_code e) cc = Some ket" by blast
  from after_bracket [OF ok(2) single.prems(2) disjI1 [OF g] k] skip_one_branch [OF k single(2)]
  have a: "after (st_utf e) (st_code e) cc = Some (branch_end (st_code e) cc + 1 + LINK_SIZE)" by simp
  note next_place = under_next [OF ok single.prems(2) a single.prems(5)] level_end_next(1) [OF single.prems(3) a]
  have "sound_from e A len (bl + 0) had (branch_end (st_code e) cc + 1 + LINK_SIZE) le (fst r)"
    using single(4) [OF single.prems(1) next_place(1,4) single.prems(4) next_place(2,3)] by simp
  from sound_step [OF this single.prems(3) a] show ?case by simp
next
  case (group_fails cc recs count d c len bl had)
  then have g: "is_group (opc (st_code e) cc)" by (simp only: group_op)
  from group_fails(3) [OF _ group_fails.prems(2) g under_branch [OF ok(1) group_fails.prems(2) disjI1 [OF g] group_fails.prems(5)]]
    group_fails.prems(1) group_fails(4) show ?case by simp
next
  case (inner cc recs count d c ket len bl had r)
  then have g: "is_group (opc (st_code e) cc)" by (simp only: group_op)
  have c: "c \<le> 1001" using loop_counts [OF inner(6)] inner.prems(1) by simp
  note u = under_branch [OF ok(1) inner.prems(2) disjI1 [OF g] inner.prems(5)]
  have d: "d \<le> int k" if "way_body e A cc k" for k
  proof -
    from shorter_body [OF that] obtain j where "j \<le> k" "way_body e (insert cc A) cc j" by blast
    with inner(4) [OF _ inner.prems(2) g u] c inner(2) show ?thesis by force
  qed
  from after_bracket [OF ok(2) inner.prems(2) disjI1 [OF g] inner(5)]
  have a: "after (st_utf e) (st_code e) cc = Some (ket + 1 + LINK_SIZE)" by simp
  note next_place = under_next [OF ok inner.prems(2) a inner.prems(5)] level_end_next(1) [OF inner.prems(3) a]
  have bl: "0 \<le> bl + d" using inner.prems(4) inner(8) by simp
  show ?case
    by (rule sound_step [OF inner(7) [OF inner.prems(1) next_place(1,4) bl next_place(2,3)] inner.prems(3) a])
      (use d way_item_group [OF _ g] in blast)
next
  case (accept cc recs len bl had count)
  then have "is_end (opc (st_code e) cc)" using level_end_stops(1) [OF accept.prems(3) after_end_ops] by blast
  with accept(1) show ?case by (auto simp: is_end_def)
next
  case (finish cc recs len bl had count)
  then show ?case using sound_end [OF finish(1,2) finish.prems(3,4)] by simp
next
  case (alternate cc recs len bl had count r)
  have b: "branch_at (st_code e) cc = cc + 1 + LINK_SIZE"
    using alternate(1) by (simp add: op_length_values)
  have alt: "is_group (opc (st_code e) cc) \<or> is_assertion (opc (st_code e) cc) \<or> opc (st_code e) cc = OP_ALT"
    and alt': "is_group (opc (st_code e) cc) \<or> opc (st_code e) cc = OP_ALT" using alternate(1) by simp_all
  have nt: "cc \<notin> set (targets e)" proof
    assume "cc \<in> set (targets e)"
    from target_not_alt [OF ok(1) this] alternate(1) show False by (simp add: is_group_def)
  qed
  note link = linked_branch [OF ok(2) alternate.prems(2) alt]
    and known = study_branch [OF ok(1) alternate.prems(2) alt']
    and u = alt_inside [OF ok(1) alternate.prems(2) alternate(1) alternate.prems(5) nt]
  have "sound_from e A (shorter len bl had) 0 False (branch_at (st_code e) cc) (branch_end (st_code e) cc) (fst r)"
    unfolding b by (rule alternate(3)) (use alternate.prems(1) link known u b in simp_all)
  with sound_alternate [OF alternate(1) alternate.prems(3,4)] show ?case by blast
next
  case (assertion cc ket recs len bl had count r)
  then have as: "is_assertion (opc (st_code e) cc)" by (simp only: assertion_op)
  from after_bracket [OF ok(2) assertion.prems(2) disjI2 [OF as] assertion(2)]
  have a: "after (st_utf e) (st_code e) cc = Some (ket + op_length (opc (st_code e) ket))"
    using bspec [OF end_lengths] unfolding is_end_def by (simp only: add.assoc simp_thms)
  note next_place = under_next [OF ok assertion.prems(2) a assertion.prems(5)] level_end_next(1) [OF assertion.prems(3) a]
  have "sound_from e A len (bl + 0) had (ket + op_length (opc (st_code e) ket)) le (fst r)"
    using assertion(4) [OF assertion.prems(1) next_place(1,4) assertion.prems(4) next_place(2,3)] by simp
  from sound_step [OF this assertion.prems(3) a] show ?case by simp
next
  case (zero cc ket recs len bl had count r)
  then have z: "is_zero (opc (st_code e) cc)" by (simp only: zero_op)
  note a = after_zero [OF ok(2) zero.prems(2) z zero(2)]
  note next_place = under_next [OF ok zero.prems(2) a zero.prems(5)] level_end_next(1) [OF zero.prems(3) a]
  have "sound_from e A len (bl + 0) had (ket + 1 + LINK_SIZE) le (fst r)"
    using zero(4) [OF zero.prems(1) next_place(1,4) zero.prems(4) next_place(2,3)] by simp
  from sound_step [OF this zero.prems(3) a] show ?case by simp
next
  case (reference_js cc m q recs len bl had count r)
  then have ro: "opc (st_code e) cc \<in> reference_ops" by (simp only: reference_op)
  have a: "after (st_utf e) (st_code e) cc = Some q"
    using after_reference [OF ro] reference_end [OF reference_js(1)]
      min_repeat_sound [OF reference_js(3)] by simp
  note next_place = under_next [OF ok reference_js.prems(2) a reference_js.prems(5)] level_end_next(1) [OF reference_js.prems(3) a]
  have "sound_from e A len (bl + 0) had q le (fst r)"
    using reference_js(5) [OF reference_js.prems(1) next_place(1,4) reference_js.prems(4) next_place(2,3)] by simp
  from sound_step [OF this reference_js.prems(3) a] show ?case by simp
next
  case (reference_fails cc recs count c len bl had)
  then have ro: "opc (st_code e) cc \<in> reference_ops" by (simp only: reference_op)
  from reference_fails(4) [OF _ reference_fails.prems(2) ro reference_fails(2) subset_refl _ reference_fails.prems(5)]
    reference_fails.prems(1) show ?case by (simp add: sound_refs_def)
next
  case (reference cc recs count d rec c m q len bl had r)
  then have ro: "opc (st_code e) cc \<in> reference_ops" by (simp only: reference_op)
  have c: "c \<le> 1001" using loop_counts [OF reference(6)] reference.prems(1) by simp
  have s: "sound_refs e A recs cc (ref_numbers e cc) INT_MAX (Some (d, rec))"
    using reference(4) [OF _ reference.prems(2) ro reference(2) subset_refl _ reference.prems(5)] c by simp
  have mq: "min_repeat (st_code e) (item_end (st_utf e) (st_code e) cc) = (m, q)"
    using reference(5) reference_end [OF reference(1)] by simp
  have a: "after (st_utf e) (st_code e) cc = Some q" using after_reference [OF ro] min_repeat_sound [OF mq] by simp
  note next_place = under_next [OF ok reference.prems(2) a reference.prems(5)] level_end_next(1) [OF reference.prems(3) a]
  have bl: "0 \<le> bl + m * d" using reference.prems(4) s min_repeat_sound [OF mq] by (auto simp: sound_refs_def)
  show ?case
    by (rule sound_step [OF reference(7) [OF reference.prems(1) next_place(1,4) bl next_place(2,3)] reference.prems(3) a])
      (use reference_way [OF ok(1) reference.prems(2) ro reference(2) reference.prems(5) s mq] in blast)
next
  case (recursion cc ce recs len bl count r had)
  let ?t = "st_start e + GET (st_code e) cc 1"
  have t: "?t \<in> set (targets_of e cc)" by (simp add: targets_of_def recursion(1))
  note a = after_call [OF recursion(1), of "st_utf e"]
  note next_place = under_next [OF ok recursion.prems(2) a recursion.prems(5)] level_end_next(1) [OF recursion.prems(3) a]
  have "?t \<in> A"
    using recursion_barred [OF recursion.prems(5) _ recursion(2,3)] study_target [OF ok(1) recursion.prems(2) t] by blast
  moreover have "sound_from e A len (bl + 0) True (cc + 1 + LINK_SIZE) le (fst r)"
    using recursion(5) [OF recursion.prems(1) next_place(1,4) recursion.prems(4) next_place(2,3)] by simp
  ultimately show ?case
    using sound_step [OF _ recursion.prems(3) a] way_item_call [OF _ recursion(1)] by blast
next
  case (call cc ce recs count d c len bl had r)
  let ?t = "st_start e + GET (st_code e) cc 1"
  have t: "?t \<in> set (targets_of e cc)" by (simp add: targets_of_def call(1))
  note tt = study_target [OF ok(1) call.prems(2) t]
  note a = after_call [OF call(1), of "st_utf e"]
  note next_place = under_next [OF ok call.prems(2) a call.prems(5)] level_end_next(1) [OF call.prems(3) a]
  have c: "c \<le> 1001" using loop_counts [OF call(5)] call.prems(1) by simp
  have d: "0 \<le> d \<and> (\<forall>k. way_body e (insert ?t A) ?t k \<longrightarrow> d \<le> int k)"
    using call(4) [OF _ _ _ under_call [OF ok(1) call.prems(2) t call.prems(5)]] c tt
    unfolding fst_conv snd_conv by blast
  have dk: "d \<le> int k" if w: "way_body e A ?t k" for k
  proof -
    from shorter_body [OF w] obtain j where "j \<le> k" "way_body e (insert ?t A) ?t j" by blast
    with d show ?thesis by force
  qed
  have bl: "0 \<le> bl + d" using call.prems(4) d by simp
  show ?case
    by (rule sound_step [OF call(6) [OF call.prems(1) next_place(1,4) bl next_place(2,3)] call.prems(3) a])
      (use dk way_item_call [OF _ call(1)] in blast)
next
  case (step cc d q recs len bl had count r)
  note a = after_step [OF step(1,2)]
  note next_place = under_next [OF ok step.prems(2) a step.prems(5)] level_end_next(1) [OF step.prems(3) a]
  have bl: "0 \<le> bl + d" using step.prems(4) min_item_adds [OF step(2)] by simp
  note p = step_plain [OF step(1)]
  show ?case
    by (rule sound_step [OF step(4) [OF step.prems(1) next_place(1,4) bl next_place(2,3)] step.prems(3) a])
      (use min_item_sound [OF step(2)] way_item_plain [OF _ p(1,2,3,6,7)] in blast)
next
  case (unknown cc n recs len bl had count)
  then show ?case by (simp add: known_item_def)
next
  case (no_refs recs cc d count)
  then show ?case by (simp add: sound_refs_def ex_bool_eq)
next
  case (ref_missing n recs cc ns d count)
  from ref_missing.prems(5) brackets_found [of e cc n] study_reference [OF ok(1) ref_missing.prems(2,3,4)]
    bracket_target [OF ref_missing.prems(3,4)] ref_missing(1) show ?case by auto
next
  case (ref_recursion n cs ce recs cc ns d count)
  have t: "cs \<in> set (targets_of e cc)"
    using bracket_in [OF _ ref_recursion(1), of cc] ref_recursion.prems(5) bracket_target [OF ref_recursion.prems(3,4)] by simp
  with recursion_barred [OF ref_recursion.prems(7) _ ref_recursion(2,3)] study_target [OF ok(1) ref_recursion.prems(2) t]
    ref_recursion.prems(6) show ?case by (auto simp: sound_refs_def)
next
  case (ref_group n cs recs count dd c cc ns d r)
  have t: "cs \<in> set (targets_of e cc)"
    using bracket_in [OF _ ref_group(1), of cc] ref_group.prems(5) bracket_target [OF ref_group.prems(3,4)] by simp
  note tt = study_target [OF ok(1) ref_group.prems(2) t]
  have c: "c \<le> 1001" using refs_counts [OF ref_group(4)] ref_group.prems(1) by simp
  have dd: "0 \<le> dd \<and> (\<forall>k. way_body e (insert cs A) cs k \<longrightarrow> dd \<le> int k)"
    using ref_group(3) [OF _ _ _ under_call [OF ok(1) ref_group.prems(2) t ref_group.prems(7)]] c tt
    unfolding fst_conv snd_conv by blast
  have ddk: "dd \<le> int k" if w: "way_body e A cs k" for k
  proof -
    from shorter_body [OF w] obtain j where "j \<le> k" "way_body e (insert cs A) cs j" by blast
    with dd show ?thesis by force
  qed
  have "sound_refs e A recs cc ns (if dd < d then dd else d) (fst r)"
    by (rule ref_group(5) [OF ref_group.prems(1-4) _ _ ref_group.prems(7)]) (use ref_group.prems(5,6) dd in auto)
  then obtain m rec where m: "fst r = Some (m, rec)" "0 \<le> m" "m \<le> d" "m \<le> dd"
    "rec \<longrightarrow> (\<exists>t\<in>set (targets_of e cc). t \<in> A \<and> (inside e t cc \<or> t \<in> set recs))"
    "\<not> rec \<longrightarrow> (\<forall>n\<in>set ns. \<forall>g k. find_bracket (st_code e) (st_start e) (st_utf e) (int n) = Some (Some g) \<longrightarrow>
       way_body e A g k \<longrightarrow> m \<le> int k)"
    unfolding sound_refs_def by (auto split: if_splits)
  from m(4) ddk have "\<forall>k. way_body e A cs k \<longrightarrow> m \<le> int k" by force
  with m ref_group(1) show ?case unfolding sound_refs_def by (intro exI [of _ m] exI [of _ rec]) auto
qed






















end
